(* ===== verification/Prelude.thy ===== *)
theory Prelude
  imports Main "HOL-Library.Multiset"
begin

text \<open>
  Shared vocabulary of the development: the fragment of JavaScript that the modelled TypeScript
  relies on (strings, \<^verbatim>\<open>Array.prototype.sort\<close>, lists of records addressed by their \<open>id\<close>), executable
  step machines with their reachable states, and the lemmas every component uses.

  A JavaScript string is a list of code units. The model uses Isabelle's 8-bit characters, so it
  covers strings whose code units are in the Latin-1 range (U+0000 to U+00FF); the white-space and
  case tables below are the ECMAScript ones restricted to that range.
\<close>

named_theorems key_facts \<open>storage keys: injectivity, disjointness and prefixes\<close>
named_theorems inv_intros \<open>preservation lemmas of the step machines\<close>

section \<open>Strings\<close>

definition js_ws :: "char \<Rightarrow> bool" where
  "js_ws c \<longleftrightarrow> c \<in> {CHR 0x09, CHR 0x0A, CHR 0x0B, CHR 0x0C, CHR 0x0D, CHR 0x20, CHR 0xA0}"

abbreviation NL :: char where "NL \<equiv> CHR 0x0A"

definition trimStart :: "string \<Rightarrow> string" where
  "trimStart s = dropWhile js_ws s"

definition trimEnd :: "string \<Rightarrow> string" where
  "trimEnd s = rev (dropWhile js_ws (rev s))"

definition trim :: "string \<Rightarrow> string" where
  "trim s = trimEnd (trimStart s)"

definition startsWith :: "'a list \<Rightarrow> 'a list \<Rightarrow> bool" where
  "startsWith s p \<longleftrightarrow> take (length p) s = p"

definition endsWith :: "'a list \<Rightarrow> 'a list \<Rightarrow> bool" where
  "endsWith s p \<longleftrightarrow> length p \<le> length s \<and> drop (length s - length p) s = p"

text \<open>\<open>s.slice(a, b)\<close> for indices that are not negative.\<close>

definition slice :: "'a list \<Rightarrow> nat \<Rightarrow> nat \<Rightarrow> 'a list" where
  "slice s a b = take (b - a) (drop a s)"

fun str_includes :: "'a list \<Rightarrow> 'a list \<Rightarrow> bool" where
  "str_includes [] p = (p = [])"
| "str_includes (c # s) p = (startsWith (c # s) p \<or> str_includes s p)"

fun split_on :: "'a \<Rightarrow> 'a list \<Rightarrow> 'a list list" where
  "split_on d [] = [[]]"
| "split_on d (c # s) =
     (if c = d then [] # split_on d s
      else (case split_on d s of [] \<Rightarrow> [[c]] | w # ws \<Rightarrow> (c # w) # ws))"

fun join :: "'a list \<Rightarrow> 'a list list \<Rightarrow> 'a list" where
  "join sep [] = []"
| "join sep [w] = w"
| "join sep (w # ws) = w @ sep @ join sep ws"

definition lower_char :: "char \<Rightarrow> char" where
  "lower_char c =
     (let n = (of_char c :: nat)
      in if (65 \<le> n \<and> n \<le> 90) \<or> (192 \<le> n \<and> n \<le> 222 \<and> n \<noteq> 215) then char_of (n + 32) else c)"

definition toLowerCase :: "string \<Rightarrow> string" where
  "toLowerCase s = map lower_char s"

definition is_digit :: "char \<Rightarrow> bool" where
  "is_digit c \<longleftrightarrow> c \<in> set ''0123456789''"

definition digit_char :: "nat \<Rightarrow> char" where
  "digit_char d = char_of (48 + d)"

text \<open>\<open>String(n)\<close> for a natural number and for an integer.\<close>

fun show_nat :: "nat \<Rightarrow> string" where
  "show_nat n = (if n < 10 then [digit_char n] else show_nat (n div 10) @ [digit_char (n mod 10)])"

declare show_nat.simps [simp del]

definition show_int :: "int \<Rightarrow> string" where
  "show_int i = (if i < 0 then ''-'' @ show_nat (nat (- i)) else show_nat (nat i))"

fun digits_val :: "nat \<Rightarrow> string \<Rightarrow> nat" where
  "digits_val acc [] = acc"
| "digits_val acc (c # s) = digits_val (acc * 10 + (of_char c - 48)) s"

lemma startsWith_iff: "startsWith s p \<longleftrightarrow> (\<exists>r. s = p @ r)"
  unfolding startsWith_def by (metis append_eq_conv_conj append_take_drop_id)

lemma startsWith_append [simp]: "startsWith (p @ r) p"
  by (simp add: startsWith_def)

lemma endsWith_iff: "endsWith s p \<longleftrightarrow> (\<exists>r. s = r @ p)"
proof
  assume "endsWith s p"
  then have "s = take (length s - length p) s @ p"
    unfolding endsWith_def by (metis append_take_drop_id)
  then show "\<exists>r. s = r @ p" ..
next
  assume "\<exists>r. s = r @ p"
  then show "endsWith s p" by (auto simp: endsWith_def)
qed

lemma split_on_not_Nil [simp]: "split_on d s \<noteq> []"
  by (induction s) (auto split: list.splits)

lemma join_Cons: "ws \<noteq> [] \<Longrightarrow> join sep (w # ws) = w @ sep @ join sep ws"
  by (cases ws) auto

lemma join_Cons_Cons [simp]: "join sep ((c # w) # ws) = c # join sep (w # ws)"
  by (cases ws) auto

lemma join_split_on [simp]: "join [d] (split_on d s) = s"
proof (induction s)
  case (Cons c s)
  then show ?case
    by (cases "split_on d s") (auto simp: join_Cons split: list.splits)
qed simp

lemma digit_char_val: "d < 10 \<Longrightarrow> of_char (digit_char d) = (48 + d :: nat)"
  by (simp add: digit_char_def of_char_of)

lemma digits_val_append: "digits_val acc (s @ t) = digits_val (digits_val acc s) t"
  by (induction s arbitrary: acc) auto

lemma digits_val_show_nat [simp]: "digits_val 0 (show_nat n) = n"
proof (induction n rule: show_nat.induct)
  case (1 n)
  then show ?case
    by (subst show_nat.simps) (auto simp: digits_val_append digit_char_val)
qed

lemma show_nat_inj [simp]: "show_nat m = show_nat n \<longleftrightarrow> m = n"
  by (metis digits_val_show_nat)

lemma digit_char_is_digit: "d < 10 \<Longrightarrow> is_digit (digit_char d)"
proof -
  have "\<forall>d \<in> set [0..<10]. is_digit (digit_char d)" by code_simp
  moreover assume "d < 10"
  ultimately show ?thesis by simp
qed

lemma show_nat_digits: "\<forall>c \<in> set (show_nat n). is_digit c"
proof (induction n rule: show_nat.induct)
  case (1 n)
  then show ?case by (subst show_nat.simps) (auto simp: digit_char_is_digit)
qed

lemma show_nat_not_Nil [simp]: "show_nat n \<noteq> []"
  by (subst show_nat.simps) auto

lemma show_nat_no_sign: "show_nat n \<noteq> CHR ''-'' # s"
proof
  assume "show_nat n = CHR ''-'' # s"
  then have "is_digit CHR ''-''" using show_nat_digits [of n] by simp
  then show False by (simp add: is_digit_def)
qed

lemma show_int_inj [simp]: "show_int i = show_int j \<longleftrightarrow> i = j"
  using show_nat_no_sign [of "nat i" "show_nat (nat (- j))"] show_nat_no_sign [of "nat j" "show_nat (nat (- i))"]
  by (cases "i < 0"; cases "j < 0") (auto simp: show_int_def)

text \<open>A separator that occurs in neither prefix splits a string in one way.\<close>

lemma append_sep_inj:
  "c \<notin> set a \<Longrightarrow> c \<notin> set b \<Longrightarrow> a @ c # r = b @ c # r' \<Longrightarrow> a = b \<and> r = r'"
proof (induction a arbitrary: b)
  case Nil
  then show ?case by (cases b) auto
next
  case (Cons x a)
  then show ?case by (cases b) auto
qed

lemma show_int_no_dot: "CHR ''.'' \<notin> set (show_int i)"
proof -
  have "CHR ''.'' \<notin> set (show_nat n)" for n
    using bspec [OF show_nat_digits, of "CHR ''.''" n] by (auto simp: is_digit_def)
  then show ?thesis by (simp add: show_int_def)
qed

lemma dotted_int_inj [key_facts]: "show_int i @ CHR ''.'' # r = show_int j @ CHR ''.'' # r' \<longleftrightarrow> i = j \<and> r = r'"
  using append_sep_inj [OF show_int_no_dot show_int_no_dot, of i r j r'] show_int_inj by blast

section \<open>Array sorting\<close>

text \<open>
  \<open>xs.sort(cmp)\<close>: the comparator returns a number of which only the sign counts. Since ECMAScript
  2019 the sort is stable; for a comparator that is not consistent the order is left to the engine,
  and nothing below but the permutation property says anything about that case.
\<close>

fun insert_cmp :: "('a \<Rightarrow> 'a \<Rightarrow> int) \<Rightarrow> 'a \<Rightarrow> 'a list \<Rightarrow> 'a list" where
  "insert_cmp cmp x [] = [x]"
| "insert_cmp cmp x (y # ys) = (if cmp x y \<le> 0 then x # y # ys else y # insert_cmp cmp x ys)"

fun js_sort :: "('a \<Rightarrow> 'a \<Rightarrow> int) \<Rightarrow> 'a list \<Rightarrow> 'a list" where
  "js_sort cmp [] = []"
| "js_sort cmp (x # xs) = insert_cmp cmp x (js_sort cmp xs)"

definition consistent :: "('a \<Rightarrow> 'a \<Rightarrow> int) \<Rightarrow> 'a set \<Rightarrow> bool" where
  "consistent cmp A \<longleftrightarrow>
     (\<forall>x \<in> A. \<forall>y \<in> A. (cmp x y < 0 \<longleftrightarrow> 0 < cmp y x)) \<and>
     (\<forall>x \<in> A. \<forall>y \<in> A. \<forall>z \<in> A. cmp x y \<le> 0 \<longrightarrow> cmp y z \<le> 0 \<longrightarrow> cmp x z \<le> 0)"

text \<open>A two-key comparator, the shape \<open>a.t - b.t || a.id - b.id\<close> used all over the clients.\<close>

definition lex_cmp :: "('a \<Rightarrow> int) \<Rightarrow> ('a \<Rightarrow> int) \<Rightarrow> 'a \<Rightarrow> 'a \<Rightarrow> int" where
  "lex_cmp f g a b = (if f a - f b \<noteq> 0 then f a - f b else g a - g b)"

lemma consistent_mono: "consistent cmp A \<Longrightarrow> B \<subseteq> A \<Longrightarrow> consistent cmp B"
  unfolding consistent_def by blast

lemma consistent_cong:
  assumes "consistent cmp A" "\<And>x y. x \<in> A \<Longrightarrow> y \<in> A \<Longrightarrow> cmp x y = cmp' x y"
  shows "consistent cmp' A"
  using assms unfolding consistent_def by metis

lemma consistent_trans:
  assumes "consistent cmp A" "x \<in> A" "y \<in> A" "z \<in> A" "cmp x y \<le> 0" "cmp y z \<le> 0"
  shows "cmp x z \<le> 0"
  using assms unfolding consistent_def by blast

lemma consistent_flip:
  assumes "consistent cmp A" "x \<in> A" "y \<in> A"
  shows "0 < cmp y x \<longleftrightarrow> cmp x y < 0"
  using assms unfolding consistent_def by blast

lemma consistent_zero_sym:
  assumes "consistent cmp A" "x \<in> A" "y \<in> A" "cmp x y = 0"
  shows "cmp y x = 0"
  using consistent_flip [OF assms(1) assms(2) assms(3)] consistent_flip [OF assms(1) assms(3) assms(2)] assms(4)
  by linarith

lemma consistent_lex [simp]: "consistent (lex_cmp f g) A"
  unfolding consistent_def lex_cmp_def by (auto split: if_splits)

text \<open>The contract of a stable sort, as the clients of \<open>sort\<close> rely on it.\<close>

locale stable_sort =
  fixes srt :: "('a \<Rightarrow> 'a \<Rightarrow> int) \<Rightarrow> 'a list \<Rightarrow> 'a list"
  assumes srt_mset: "mset (srt cmp xs) = mset xs"
    and srt_sorted: "consistent cmp (set xs) \<Longrightarrow> sorted_wrt (\<lambda>x y. cmp x y \<le> 0) (srt cmp xs)"
    and srt_stable: "consistent cmp (set xs) \<Longrightarrow> x \<in> set xs \<Longrightarrow>
      filter (\<lambda>y. cmp x y = 0) (srt cmp xs) = filter (\<lambda>y. cmp x y = 0) xs"
begin

lemma set_srt: "set (srt cmp xs) = set xs"
  using srt_mset [of cmp xs] by (metis set_mset_mset)

lemma length_srt: "length (srt cmp xs) = length xs"
  using srt_mset [of cmp xs] by (metis size_mset)

lemma mset_map_srt: "mset (map f (srt cmp xs)) = mset (map f xs)"
  by (simp add: srt_mset)

lemma distinct_map_srt: "distinct (map f (srt cmp xs)) \<longleftrightarrow> distinct (map f xs)"
  by (metis mset_map_srt mset_eq_imp_distinct_iff)

lemma srt_Nil_iff: "srt cmp xs = [] \<longleftrightarrow> xs = []"
  by (metis length_0_conv length_srt)

end

lemma mset_insert_cmp [simp]: "mset (insert_cmp cmp x ys) = add_mset x (mset ys)"
  by (induction ys) auto

lemma mset_js_sort [simp]: "mset (js_sort cmp xs) = mset xs"
  by (induction xs) auto

lemma set_insert_cmp [simp]: "set (insert_cmp cmp x ys) = insert x (set ys)"
  by (induction ys) auto

lemma set_js_sort [simp]: "set (js_sort cmp xs) = set xs"
  by (induction xs) auto

lemma sorted_insert_cmp:
  assumes "consistent cmp (insert x (set ys))" "sorted_wrt (\<lambda>a b. cmp a b \<le> 0) ys"
  shows "sorted_wrt (\<lambda>a b. cmp a b \<le> 0) (insert_cmp cmp x ys)"
  using assms
proof (induction ys)
  case (Cons y ys)
  have c: "consistent cmp (insert x (set ys))"
    by (rule consistent_mono [OF Cons.prems(1)]) auto
  show ?case
  proof (cases "cmp x y \<le> 0")
    case True
    then have "cmp x z \<le> 0" if "z \<in> set ys" for z
      using that Cons.prems(2) consistent_trans [OF Cons.prems(1), of x y z] by simp
    with True Cons.prems(2) show ?thesis by simp
  next
    case False
    then have "cmp y x \<le> 0"
      using consistent_flip [OF Cons.prems(1), of y x] by simp
    with False Cons.prems(2) Cons.IH [OF c] show ?thesis by auto
  qed
qed simp

lemma sorted_js_sort:
  "consistent cmp (set xs) \<Longrightarrow> sorted_wrt (\<lambda>a b. cmp a b \<le> 0) (js_sort cmp xs)"
proof (induction xs)
  case (Cons x xs)
  then have "consistent cmp (set xs)" by (auto intro: consistent_mono)
  with Cons show ?case by (simp add: sorted_insert_cmp)
qed simp

lemma filter_insert_cmp:
  assumes "consistent cmp (insert z (insert x (set ys)))" "sorted_wrt (\<lambda>a b. cmp a b \<le> 0) ys"
  shows "filter (\<lambda>y. cmp z y = 0) (insert_cmp cmp x ys) =
    (if cmp z x = 0 then x # filter (\<lambda>y. cmp z y = 0) ys else filter (\<lambda>y. cmp z y = 0) ys)"
  using assms
proof (induction ys)
  case (Cons y ys)
  have c: "consistent cmp (insert z (insert x (set ys)))"
    by (rule consistent_mono [OF Cons.prems(1)]) auto
  have "cmp x y \<le> 0" if "cmp z x = 0" "cmp z y = 0"
    using that consistent_zero_sym [OF Cons.prems(1), of z x]
      consistent_trans [OF Cons.prems(1), of x z y] by simp
  with Cons.IH [OF c] Cons.prems(2) show ?case by auto
qed simp

lemma stable_js_sort:
  "consistent cmp (insert z (set xs)) \<Longrightarrow>
     filter (\<lambda>y. cmp z y = 0) (js_sort cmp xs) = filter (\<lambda>y. cmp z y = 0) xs"
proof (induction xs)
  case (Cons x xs)
  have "consistent cmp (insert z (set xs))" "consistent cmp (set xs)"
    "consistent cmp (insert z (insert x (set (js_sort cmp xs))))"
    by (auto intro: consistent_mono [OF Cons.prems])
  with Cons.IH show ?case by (simp add: filter_insert_cmp sorted_js_sort)
qed simp

interpretation js: stable_sort js_sort
proof
  show "filter (\<lambda>y. cmp x y = 0) (js_sort cmp xs) = filter (\<lambda>y. cmp x y = 0) xs"
    if "consistent cmp (set xs)" "x \<in> set xs" for cmp xs x
    using that by (simp add: stable_js_sort insert_absorb)
qed (simp_all add: sorted_js_sort)

lemma js_sort_id: "sorted_wrt (\<lambda>a b. cmp a b \<le> 0) xs \<Longrightarrow> js_sort cmp xs = xs"
proof (induction xs)
  case (Cons x xs)
  then have "js_sort cmp xs = xs" by simp
  with Cons.prems show ?case by (cases xs) auto
qed simp

section \<open>Lists of records addressed by a key\<close>

text \<open>
  The clients keep their collections as arrays of records with an \<open>id\<close> and update them with
  \<open>map\<close>, \<open>filter\<close>, \<open>find\<close> and \<open>some\<close> on that \<open>id\<close>.
\<close>

definition map_key :: "('a \<Rightarrow> 'k) \<Rightarrow> 'k \<Rightarrow> ('a \<Rightarrow> 'a) \<Rightarrow> 'a list \<Rightarrow> 'a list" where
  "map_key key k f xs = map (\<lambda>x. if key x = k then f x else x) xs"

definition drop_key :: "('a \<Rightarrow> 'k) \<Rightarrow> 'k \<Rightarrow> 'a list \<Rightarrow> 'a list" where
  "drop_key key k xs = filter (\<lambda>x. key x \<noteq> k) xs"

definition has_key :: "('a \<Rightarrow> 'k) \<Rightarrow> 'k \<Rightarrow> 'a list \<Rightarrow> bool" where
  "has_key key k xs = list_ex (\<lambda>x. key x = k) xs"

definition find_key :: "('a \<Rightarrow> 'k) \<Rightarrow> 'k \<Rightarrow> 'a list \<Rightarrow> 'a option" where
  "find_key key k xs = find (\<lambda>x. key x = k) xs"

lemma has_key_iff: "has_key key k xs \<longleftrightarrow> k \<in> key ` set xs"
  by (auto simp: has_key_def list_ex_iff)

lemma set_drop_key [simp]: "set (drop_key key k xs) = {x \<in> set xs. key x \<noteq> k}"
  by (simp add: drop_key_def)

lemma distinct_drop_key: "distinct (map key xs) \<Longrightarrow> distinct (map key (drop_key key k xs))"
  by (simp add: drop_key_def distinct_map_filter)

lemma keys_map_key:
  "(\<And>x. x \<in> set xs \<Longrightarrow> key x = k \<Longrightarrow> key (f x) = k) \<Longrightarrow> map key (map_key key k f xs) = map key xs"
  by (induction xs) (auto simp: map_key_def)

lemma length_map_key [simp]: "length (map_key key k f xs) = length xs"
  by (simp add: map_key_def)

lemma find_key_Some: "find_key key k xs = Some x \<Longrightarrow> x \<in> set xs \<and> key x = k"
  by (auto simp: find_key_def find_Some_iff)

lemma find_key_distinct: "distinct (map key xs) \<Longrightarrow> x \<in> set xs \<Longrightarrow> find_key key (key x) xs = Some x"
  by (induction xs) (auto simp: find_key_def)

lemma find_key_None: "find_key key k xs = None \<longleftrightarrow> k \<notin> key ` set xs"
  by (auto simp: find_key_def find_None_iff)

lemma find_drop_key: "find_key key k (drop_key key k' xs) = (if k = k' then None else find_key key k xs)"
  by (induction xs) (auto simp: find_key_def drop_key_def)

lemma find_map_key:
  "(\<And>x. key x = k' \<Longrightarrow> key (f x) = k') \<Longrightarrow>
   find_key key k (map_key key k' f xs) = map_option (\<lambda>x. if k = k' then f x else x) (find_key key k xs)"
  by (induction xs) (auto simp: find_key_def map_key_def)

lemma map_key_fixed: "(\<And>x. x \<in> set xs \<Longrightarrow> key x = k \<Longrightarrow> f x = x) \<Longrightarrow> map_key key k f xs = xs"
  by (induction xs) (auto simp: map_key_def)

lemma set_map_key: "set (map_key key k f xs) = (\<lambda>x. if key x = k then f x else x) ` set xs"
  by (simp add: map_key_def)

lemma has_key_map_key: "(\<And>x. key x = k \<Longrightarrow> key (f x) = k) \<Longrightarrow> has_key key k (map_key key k f xs) = has_key key k xs"
  by (induction xs) (auto simp: map_key_def has_key_def)

lemma map_key_absent: "\<not> has_key key k xs \<Longrightarrow> map_key key k f xs = xs"
  by (induction xs) (auto simp: map_key_def has_key_def)

lemma filter_map_key:
  assumes "\<And>x. key x = k \<Longrightarrow> key (f x) = k" "\<And>x. key x = k \<Longrightarrow> \<not> P x"
    "\<And>x. key x = k \<Longrightarrow> \<not> P (f x)"
  shows "filter P (map_key key k f xs) = filter P xs"
  by (induction xs) (use assms in \<open>auto simp: map_key_def\<close>)

lemma map_key_again:
  "(\<And>x. key (f x) = k) \<Longrightarrow> (\<And>x. f (f x) = f x) \<Longrightarrow> map_key key k f (map_key key k f xs) = map_key key k f xs"
  by (simp add: map_key_def)

lemma mset_concat_update:
  "i < length xs \<Longrightarrow>
   mset (concat (map f (xs[i := y]))) + mset (f (xs ! i)) = mset (concat (map f xs)) + mset (f y)"
proof (induction xs arbitrary: i)
  case (Cons x xs)
  then show ?case by (cases i) (auto simp: ac_simps)
qed simp

section \<open>Maps that remember insertion order\<close>

text \<open>\<^verbatim>\<open>Map.prototype.set\<close>: an existing key keeps its position, a new one goes to the end.\<close>

fun jmap_set :: "'k \<Rightarrow> 'v \<Rightarrow> ('k \<times> 'v) list \<Rightarrow> ('k \<times> 'v) list" where
  "jmap_set k v [] = [(k, v)]"
| "jmap_set k v ((k', v') # m) = (if k' = k then (k, v) # m else (k', v') # jmap_set k v m)"

abbreviation jmap_get :: "('k \<times> 'v) list \<Rightarrow> 'k \<Rightarrow> 'v option" where
  "jmap_get \<equiv> map_of"

lemma jmap_get_set [simp]: "jmap_get (jmap_set k v m) = (jmap_get m)(k \<mapsto> v)"
  by (induction m) (auto simp: fun_eq_iff)

lemma jmap_keys_set:
  "map fst (jmap_set k v m) = (if k \<in> fst ` set m then map fst m else map fst m @ [k])"
  by (induction k v m rule: jmap_set.induct) (auto simp: image_iff)

lemma distinct_jmap_set: "distinct (map fst m) \<Longrightarrow> distinct (map fst (jmap_set k v m))"
  by (auto simp: jmap_keys_set)

lemma sum_jmap_set:
  "sum_list (map snd (jmap_set k v m)) + (case jmap_get m k of None \<Rightarrow> 0 | Some u \<Rightarrow> u) =
   sum_list (map snd m) + (v :: nat)"
  by (induction k v m rule: jmap_set.induct) auto

lemma sum_list_jmap:
  "distinct (map fst m) \<Longrightarrow> sum_list (map snd m) = (\<Sum>k \<in> fst ` set m. the (jmap_get m k))"
proof (induction m)
  case (Cons x m)
  then have "(\<Sum>k \<in> fst ` set m. the (jmap_get (x # m) k)) = (\<Sum>k \<in> fst ` set m. the (jmap_get m k))"
    by (intro sum.cong) (auto simp: image_iff)
  with Cons show ?case by (cases x) (auto simp: sum.insert_if)
qed simp

section \<open>Executable step machines\<close>

text \<open>
  A stateful component is a function from an event and a state to the next state; \<open>None\<close> says that
  the event cannot occur in that state. Its runs are lists of events, so interleavings of user
  actions, timers and replies are explicit.
\<close>

fun run :: "('e \<Rightarrow> 's \<Rightarrow> 's option) \<Rightarrow> 's \<Rightarrow> 'e list \<Rightarrow> 's option" where
  "run step s [] = Some s"
| "run step s (e # es) = (case step e s of None \<Rightarrow> None | Some s' \<Rightarrow> run step s' es)"

lemma case_someE:
  "(case r of None \<Rightarrow> False | Some s \<Rightarrow> P s) \<Longrightarrow> (\<And>s. r = Some s \<Longrightarrow> P s \<Longrightarrow> thesis) \<Longrightarrow> thesis"
  by (cases r) simp_all

inductive reachable :: "('e \<Rightarrow> 's \<Rightarrow> 's option) \<Rightarrow> 's \<Rightarrow> 's \<Rightarrow> bool" for step init where
  reach_init: "reachable step init init"
| reach_step: "reachable step init s \<Longrightarrow> step e s = Some s' \<Longrightarrow> reachable step init s'"

lemma run_append:
  "run step s (es @ fs) = (case run step s es of None \<Rightarrow> None | Some s' \<Rightarrow> run step s' fs)"
  by (induction es arbitrary: s) (auto split: option.splits)

lemma run_reachable_from:
  "reachable step init s \<Longrightarrow> run step s es = Some s' \<Longrightarrow> reachable step init s'"
  by (induction es arbitrary: s) (auto split: option.splits intro: reach_step)

lemma reachable_iff_run: "reachable step init s \<longleftrightarrow> (\<exists>es. run step init es = Some s)"
proof
  assume "reachable step init s"
  then show "\<exists>es. run step init es = Some s"
  proof induction
    case reach_init
    have "run step init [] = Some init" by simp
    then show ?case ..
  next
    case (reach_step s e s')
    then obtain es where "run step init es = Some s" by blast
    with reach_step have "run step init (es @ [e]) = Some s'" by (simp add: run_append)
    then show ?case ..
  qed
next
  assume "\<exists>es. run step init es = Some s"
  then show "reachable step init s" using reach_init run_reachable_from by fastforce
qed

text \<open>What a component has to establish for a safety property of all its runs.\<close>

locale safe_machine =
  fixes step :: "'e \<Rightarrow> 's \<Rightarrow> 's option"
    and start :: "'s \<Rightarrow> bool"
    and inv :: "'s \<Rightarrow> bool"
  assumes inv_start: "start s \<Longrightarrow> inv s"
    and inv_step: "inv s \<Longrightarrow> step e s = Some s' \<Longrightarrow> inv s'"
begin

lemma reachable_inv: "reachable step s0 s \<Longrightarrow> start s0 \<Longrightarrow> inv s"
  by (induction rule: reachable.induct) (auto intro: inv_start inv_step)

lemma run_inv: "run step s0 es = Some s \<Longrightarrow> start s0 \<Longrightarrow> inv s"
  using reachable_inv reachable_iff_run by metis

lemma run_inv_from: "inv s \<Longrightarrow> run step s es = Some s' \<Longrightarrow> inv s'"
  by (induction es arbitrary: s) (auto split: option.splits intro: inv_step)

end

section \<open>Refinement of an abstract component\<close>

text \<open>
  An operation takes a state to a value and the next state. \<open>abs\<close> is what the state of the implementation stands for;
  the implementation refines the specification if every operation gives the same value and the states stay related, so that no
  sequence of operations tells them apart.
\<close>

fun outputs :: "('o \<Rightarrow> 's \<Rightarrow> 'v \<times> 's) \<Rightarrow> 'o list \<Rightarrow> 's \<Rightarrow> 'v list \<times> 's" where
  "outputs exec [] s = ([], s)"
| "outputs exec (op # ops) s =
     (let (v, s1) = exec op s; (vs, s2) = outputs exec ops s1 in (v # vs, s2))"

locale functional_refinement =
  fixes exec :: "'o \<Rightarrow> 's \<Rightarrow> 'v \<times> 's"
    and spec :: "'o \<Rightarrow> 'a \<Rightarrow> 'v \<times> 'a"
    and abs :: "'s \<Rightarrow> 'a"
    and admissible :: "'o \<Rightarrow> bool"
  assumes step_refines: "admissible op \<Longrightarrow> spec op (abs s) = (fst (exec op s), abs (snd (exec op s)))"
begin

lemma outputs_refine:
  "list_all admissible ops \<Longrightarrow> outputs spec ops (abs s) = (fst (outputs exec ops s), abs (snd (outputs exec ops s)))"
  by (induction ops arbitrary: s) (auto simp: step_refines split: prod.splits)

end

end
