(* ===== verification/Doubles.thy ===== *)
theory Doubles
  imports Complex_Main
begin

text \<open>
  The arithmetic of JavaScript numbers where the clients compute percentages: a double is a
  rational, and every operation rounds its exact result to 53 significant bits, ties to even
  (\<open>fl\<close>). Overflow and subnormal numbers are outside the model: the quantities rounded here lie
  between 2^-53 and 2^60. The contract \<open>rounding\<close> is what the percentage lemmas rely on.
\<close>

fun bits :: "nat \<Rightarrow> nat" where
  "bits n = (if n = 0 then 0 else Suc (bits (n div 2)))"

declare bits.simps [simp del]

text \<open>The exponent of a positive rational: the integer \<open>k\<close> with \<open>2^k \<le> x < 2^(k+1)\<close>.\<close>

definition flog2 :: "rat \<Rightarrow> int" where
  "flog2 x =
     (let (n, d) = quotient_of x; k = int (bits (nat n)) - int (bits (nat d))
      in if 2 powi k \<le> x then k else k - 1)"

definition round_even :: "rat \<Rightarrow> int" where
  "round_even x =
     (let f = \<lfloor>x\<rfloor>; r = x - of_int f
      in if r < 1 / 2 then f else if 1 / 2 < r then f + 1 else if even f then f else f + 1)"

definition fl :: "rat \<Rightarrow> rat" where
  "fl x =
     (if x = 0 then 0
      else (let e = flog2 \<bar>x\<bar> - 52 in sgn x * (of_int (round_even (\<bar>x\<bar> / 2 powi e)) * 2 powi e)))"

text \<open>\<^verbatim>\<open>Math.round\<close> rounds ties towards plus infinity.\<close>

definition Math_round :: "rat \<Rightarrow> int" where
  "Math_round x = \<lfloor>x + 1 / 2\<rfloor>"

text \<open>\<^verbatim>\<open>Math.round((a / t) * s)\<close> in double arithmetic.\<close>

definition scaled_ratio :: "int \<Rightarrow> int \<Rightarrow> int \<Rightarrow> int" where
  "scaled_ratio a t s = Math_round (fl (fl (of_int a / of_int t) * of_int s))"

section \<open>Rounding is monotone and exact on small integers\<close>

lemma bits_bounds: "0 < n \<Longrightarrow> 2 ^ (bits n - 1) \<le> n \<and> n < 2 ^ bits n \<and> 0 < bits n"
proof (induction n rule: bits.induct)
  case (1 n)
  show ?case
  proof (cases "n = 1")
    case True
    then show ?thesis by (simp add: bits.simps)
  next
    case False
    with "1.prems" have h: "0 < n div 2" by simp
    with 1 have IH: "2 ^ (bits (n div 2) - 1) \<le> n div 2" "n div 2 < 2 ^ bits (n div 2)" "0 < bits (n div 2)"
      by auto
    have b: "bits n = Suc (bits (n div 2))" using "1.prems" by (subst bits.simps) simp
    have "2 ^ bits (n div 2) = 2 * (2::nat) ^ (bits (n div 2) - 1)"
      using IH(3) by (cases "bits (n div 2)") auto
    with IH b show ?thesis by (simp add: b) linarith
  qed
qed

lemma powi2_less_iff: "(2::rat) powi m < 2 powi n \<longleftrightarrow> m < n"
proof
  assume "(2::rat) powi m < 2 powi n"
  then show "m < n" using power_int_increasing [of n m "2::rat"] by linarith
qed (simp add: power_int_strict_increasing)

lemma flog2_bounds:
  assumes "0 < x"
  shows "2 powi (flog2 x) \<le> x \<and> x < 2 powi (flog2 x + 1)"
proof -
  obtain n d where q: "quotient_of x = (n, d)" by fastforce
  have d: "0 < d" and x: "x = of_int n / of_int d"
    using q quotient_of_denom_pos quotient_of_div by blast+
  with assms have n: "0 < n" by (simp add: zero_less_divide_iff)
  define bn where "bn = bits (nat n)"
  define bd where "bd = bits (nat d)"
  define k where "k = int bn - int bd"
  have bn: "2 ^ (bn - 1) \<le> nat n" "nat n < 2 ^ bn" "0 < bn"
    using bits_bounds [of "nat n"] n by (auto simp: bn_def)
  have bd: "2 ^ (bd - 1) \<le> nat d" "nat d < 2 ^ bd" "0 < bd"
    using bits_bounds [of "nat d"] d by (auto simp: bd_def)
  have rn: "of_int n = (of_nat (nat n) :: rat)" "of_int d = (of_nat (nat d) :: rat)" using n d by auto
  obtain m where m: "bn = Suc m" using bn(3) gr0_implies_Suc by blast
  obtain l where l: "bd = Suc l" using bd(3) gr0_implies_Suc by blast
  have nat2: "of_nat (2 ^ j) = (2::rat) ^ j" for j :: nat by simp
  have n1: "(2::rat) ^ m \<le> of_int n" and n2: "of_int n < (2::rat) ^ bn"
    using bn(1,2) unfolding rn(1) nat2 [symmetric] of_nat_le_iff of_nat_less_iff m by simp_all
  have d1: "(2::rat) ^ l \<le> of_int d" and d2: "of_int d < (2::rat) ^ bd"
    using bd(1,2) unfolding rn(2) nat2 [symmetric] of_nat_le_iff of_nat_less_iff l by simp_all
  have split: "(2::rat) powi (int i - int j) = 2 ^ i / 2 ^ j" for i j
    by (simp add: power_int_diff)
  have "k - 1 = int m - int bd" "k + 1 = int bn - int l" by (simp_all add: k_def m l)
  then have pk1: "(2::rat) powi (k - 1) = 2 ^ m / 2 ^ bd" and pk2: "(2::rat) powi (k + 1) = 2 ^ bn / 2 ^ l"
    by (simp_all only: split)
  have lo: "2 powi (k - 1) \<le> x"
    unfolding pk1 x using n1 d2 d n by (intro frac_le) auto
  have hi: "x < 2 powi (k + 1)"
    unfolding pk2 x using n2 d1 d n by (intro frac_less) auto
  have "flog2 x = (if 2 powi k \<le> x then k else k - 1)"
    by (simp add: flog2_def q k_def bn_def bd_def)
  with lo hi show ?thesis by auto
qed

lemma flog2_mono:
  assumes "0 < x" "x \<le> y"
  shows "flog2 x \<le> flog2 y"
proof -
  have "(2::rat) powi flog2 x < 2 powi (flog2 y + 1)"
    using assms flog2_bounds [of x] flog2_bounds [of y] by linarith
  then have "flog2 x < flog2 y + 1" by (simp add: powi2_less_iff)
  then show ?thesis by simp
qed

lemma flog2_eqI:
  assumes "0 < x" "2 powi k \<le> x" "x < 2 powi (k + 1)"
  shows "flog2 x = k"
proof -
  have "(2::rat) powi flog2 x < 2 powi (k + 1)" "(2::rat) powi k < 2 powi (flog2 x + 1)"
    using assms flog2_bounds [of x] by linarith+
  then show ?thesis by (simp add: powi2_less_iff)
qed

lemma round_even_bounds: "\<lfloor>x\<rfloor> \<le> round_even x \<and> round_even x \<le> \<lfloor>x\<rfloor> + 1"
  by (auto simp: round_even_def Let_def)

lemma round_even_of_int [simp]: "round_even (of_int n) = n"
  by (simp add: round_even_def Let_def)

lemma round_even_mono:
  assumes "x \<le> y"
  shows "round_even x \<le> round_even y"
proof (cases "\<lfloor>x\<rfloor> = \<lfloor>y\<rfloor>")
  case True
  with assms show ?thesis by (auto simp: round_even_def Let_def)
next
  case False
  with floor_mono [OF assms] have "\<lfloor>x\<rfloor> + 1 \<le> \<lfloor>y\<rfloor>" by linarith
  with round_even_bounds [of x] round_even_bounds [of y] show ?thesis by linarith
qed

lemma round_even_of_int_le: "x \<le> of_int n \<Longrightarrow> round_even x \<le> n"
  using round_even_mono [of x "of_int n"] by simp

lemma round_even_of_int_ge: "of_int n \<le> x \<Longrightarrow> n \<le> round_even x"
  using round_even_mono [of "of_int n" x] by simp

lemma fl_pos: "0 < x \<Longrightarrow> fl x = of_int (round_even (x / 2 powi (flog2 x - 52))) * 2 powi (flog2 x - 52)"
  by (simp add: fl_def Let_def)

lemma fl_between:
  assumes "0 < x"
  shows "2 powi (flog2 x) \<le> fl x \<and> fl x \<le> 2 powi (flog2 x + 1)"
proof -
  let ?e = "flog2 x - 52"
  have p: "(0::rat) < 2 powi ?e" by simp
  have lo: "2 powi (flog2 x) = (of_int (2 ^ 52) :: rat) * 2 powi ?e"
    by (simp add: power_int_diff)
  have hi: "2 powi (flog2 x + 1) = (of_int (2 ^ 53) :: rat) * 2 powi ?e"
    by (simp add: power_int_diff power_int_add)
  have "of_int (2 ^ 52) \<le> x / 2 powi ?e" "x / 2 powi ?e \<le> of_int (2 ^ 53)"
    using flog2_bounds [OF assms] p unfolding lo hi by (simp_all add: field_simps)
  then have "2 ^ 52 \<le> round_even (x / 2 powi ?e)" "round_even (x / 2 powi ?e) \<le> 2 ^ 53"
    by (auto intro: round_even_of_int_ge round_even_of_int_le simp del: of_int_power)
  then have "(of_int (2 ^ 52) :: rat) \<le> of_int (round_even (x / 2 powi ?e))"
    "(of_int (round_even (x / 2 powi ?e)) :: rat) \<le> of_int (2 ^ 53)"
    by (simp_all only: of_int_le_iff)
  then show ?thesis
    unfolding lo hi fl_pos [OF assms] using p by (simp add: mult_right_mono)
qed

lemma fl_nonneg: "0 \<le> x \<Longrightarrow> 0 \<le> fl x"
  using fl_between [of x] by (cases "x = 0") (auto simp: fl_def intro: order_trans [rotated])

lemma fl_mono:
  assumes "0 \<le> x" "x \<le> y"
  shows "fl x \<le> fl y"
proof (cases "x = 0")
  case True
  with assms fl_nonneg [of y] show ?thesis by (simp add: fl_def)
next
  case False
  with assms have x: "0 < x" and y: "0 < y" by auto
  show ?thesis
  proof (cases "flog2 x = flog2 y")
    case True
    let ?p = "(2::rat) powi (flog2 y - 52)"
    have p: "0 < ?p" by simp
    have "x / ?p \<le> y / ?p" by (rule divide_right_mono [OF assms(2) less_imp_le [OF p]])
    then have "round_even (x / ?p) \<le> round_even (y / ?p)" by (rule round_even_mono)
    then have "of_int (round_even (x / ?p)) * ?p \<le> of_int (round_even (y / ?p)) * ?p"
      by (intro mult_right_mono [OF _ less_imp_le [OF p]]) (simp only: of_int_le_iff)
    then show ?thesis unfolding fl_pos [OF x] fl_pos [OF y] True .
  next
    case False
    with flog2_mono [OF x assms(2)] have "flog2 x + 1 \<le> flog2 y" by linarith
    then have "(2::rat) powi (flog2 x + 1) \<le> 2 powi flog2 y"
      using powi2_less_iff [of "flog2 y" "flog2 x + 1"] by linarith
    then show ?thesis
      using fl_between [OF x] fl_between [OF y] by (meson order_trans)
  qed
qed

lemma fl_of_int:
  assumes "0 \<le> n" "n < 2 ^ 53"
  shows "fl (of_int n) = of_int n"
proof (cases "n = 0")
  case False
  with assms have x: "(0::rat) < of_int n" by simp
  define e where "e = flog2 (of_int n) - 52"
  have "(2::rat) powi flog2 (of_int n) \<le> of_int n" using flog2_bounds [OF x] by simp
  also have "\<dots> < of_int (2 ^ 53)" using assms(2) by (simp only: of_int_less_iff)
  also have "\<dots> = (2::rat) powi 53" by simp
  finally have "flog2 (of_int n) < 53" by (simp only: powi2_less_iff)
  then have "e \<le> 0" unfolding e_def by linarith
  then obtain k where "e = - int k" by (metis nonpos_int_cases)
  then have p: "(2::rat) powi e = inverse (2 ^ k)" by (simp add: power_int_minus)
  have "of_int n / (2::rat) powi e = of_int (n * 2 ^ k)" unfolding p by (simp add: divide_inverse)
  then have "round_even (of_int n / 2 powi e) = n * 2 ^ k" by (simp only: round_even_of_int)
  then have "fl (of_int n) = of_int (n * 2 ^ k) * inverse (2 ^ k)"
    unfolding fl_pos [OF x] e_def [symmetric] p [symmetric] by (rule arg_cong)
  then show ?thesis by simp
qed (simp add: fl_def)

section \<open>The contract the percentages rely on\<close>

locale rounding =
  fixes rnd :: "rat \<Rightarrow> rat"
  assumes rnd_mono: "0 \<le> x \<Longrightarrow> x \<le> y \<Longrightarrow> rnd x \<le> rnd y"
    and rnd_int: "0 \<le> n \<Longrightarrow> n < 2 ^ 53 \<Longrightarrow> rnd (of_int n) = of_int n"
begin

lemma rnd_0: "rnd 0 = 0" and rnd_1: "rnd 1 = 1"
  using rnd_int [of 0] rnd_int [of 1] by simp_all

lemma rnd_nonneg: "0 \<le> x \<Longrightarrow> 0 \<le> rnd x"
  using rnd_mono [of 0 x] by (simp add: rnd_0)

lemma ratio_mono:
  assumes "0 \<le> a" "a \<le> b" "0 < t" "0 \<le> s"
  shows "Math_round (rnd (rnd (of_int a / of_int t) * of_int s)) \<le>
         Math_round (rnd (rnd (of_int b / of_int t) * of_int s))"
proof -
  have "(of_int a :: rat) / of_int t \<le> of_int b / of_int t"
    using assms by (intro divide_right_mono) auto
  moreover have "0 \<le> (of_int a :: rat) / of_int t" using assms by simp
  ultimately have "rnd (of_int a / of_int t) * of_int s \<le> rnd (of_int b / of_int t) * of_int s"
    "0 \<le> rnd (of_int a / of_int t) * of_int s"
    using rnd_mono rnd_nonneg assms(4) by (auto intro!: mult_right_mono mult_nonneg_nonneg)
  then have "rnd (rnd (of_int a / of_int t) * of_int s) \<le> rnd (rnd (of_int b / of_int t) * of_int s)"
    by (intro rnd_mono)
  then show ?thesis by (simp add: Math_round_def floor_mono)
qed

lemma ratio_full:
  assumes "0 < t" "0 \<le> s" "s < 2 ^ 53"
  shows "Math_round (rnd (rnd (of_int t / of_int t) * of_int s)) = s"
proof -
  have "floor (of_int s + 1 / 2 :: rat) = s" by (simp add: floor_eq_iff)
  with assms show ?thesis by (simp add: rnd_1 rnd_int Math_round_def)
qed

lemma ratio_none: "Math_round (rnd (rnd (of_int 0 / of_int t) * of_int s)) = 0"
  using floor_divide_of_int_eq [of 1 2, where ?'a = rat] by (simp add: rnd_0 Math_round_def)

end

interpretation fl: rounding fl
  by unfold_locales (erule (1) fl_mono, erule (1) fl_of_int)

lemma scaled_ratio_mono:
  "0 \<le> a \<Longrightarrow> a \<le> b \<Longrightarrow> 0 < t \<Longrightarrow> 0 \<le> s \<Longrightarrow> scaled_ratio a t s \<le> scaled_ratio b t s"
  unfolding scaled_ratio_def by (rule fl.ratio_mono)

lemma scaled_ratio_full: "0 < t \<Longrightarrow> 0 \<le> s \<Longrightarrow> s < 2 ^ 53 \<Longrightarrow> scaled_ratio t t s = s"
  unfolding scaled_ratio_def by (rule fl.ratio_full)

lemma scaled_ratio_none [simp]: "scaled_ratio 0 t s = 0"
  unfolding scaled_ratio_def by (rule fl.ratio_none)

lemma scaled_ratio_bounds:
  assumes "0 \<le> a" "a \<le> t" "0 < t" "0 \<le> s" "s < 2 ^ 53"
  shows "0 \<le> scaled_ratio a t s \<and> scaled_ratio a t s \<le> s"
  using scaled_ratio_mono [of 0 a t s] scaled_ratio_mono [of a t t s] scaled_ratio_full [of t s] assms
  by simp

end
