(* ===== verification/Multipart.thy ===== *)
theory Multipart
  imports Prelude Doubles
begin

text \<open>
  The web client's uploads to S3, \<^verbatim>\<open>web/src/lib/uploadToS3.ts\<close>: splitting a file into parts
  (\<open>buildParts\<close>), the bounded retry of one part (\<open>uploadPartWithRetry\<close>), the settlement of the
  underlying XMLHttpRequest, and \<open>uploadMultipartToS3\<close> as a step machine in which up to three
  workers drain a shared cursor while abort, progress and completion events interleave.
  The lemmas show that the parts tile the file, that the retry stops after four attempts, that the
  pool hands every part to exactly one worker, and that the progress shown never goes back.
\<close>

section \<open>Parts\<close>

record part =
  part_number :: nat
  part_start :: nat
  part_end :: nat

record upload_progress =
  percent :: int
  loaded :: int
  total_bytes :: int

record multipart_upload_part =
  mup_part_number :: nat
  mup_etag :: string

datatype js_error = Error string | NonError

definition MULTIPART_UPLOAD_THRESHOLD :: nat where
  "MULTIPART_UPLOAD_THRESHOLD = 100 * 1024 * 1024"

definition MULTIPART_PART_SIZE :: nat where
  "MULTIPART_PART_SIZE = 16 * 1024 * 1024"

definition MULTIPART_CONCURRENCY :: nat where
  "MULTIPART_CONCURRENCY = 3"

definition MULTIPART_MAX_ATTEMPTS :: nat where
  "MULTIPART_MAX_ATTEMPTS = 4"

lemma part_size_pos [simp]: "0 < MULTIPART_PART_SIZE"
  by (simp add: MULTIPART_PART_SIZE_def)

text \<open>The \<open>for\<close> loop of \<open>buildParts\<close>: \<open>start\<close> and \<open>number\<close> are its loop variables.\<close>

function buildParts_loop :: "nat \<Rightarrow> nat \<Rightarrow> nat \<Rightarrow> part list" where
  "buildParts_loop sz start number =
     (if start < sz
      then \<lparr>part_number = number, part_start = start, part_end = min (start + MULTIPART_PART_SIZE) sz\<rparr>
           # buildParts_loop sz (start + MULTIPART_PART_SIZE) (number + 1)
      else [])"
  by pat_completeness auto
termination
  by (relation "measure (\<lambda>(sz, start, number). sz - start)") (auto simp: MULTIPART_PART_SIZE_def)

declare buildParts_loop.simps [simp del]

definition buildParts :: "nat \<Rightarrow> part list" where
  "buildParts sz = buildParts_loop sz 0 1"

text \<open>The reference description of the parts: part \<open>i\<close> is the \<open>i\<close>-th block of the file.\<close>

definition nth_part :: "nat \<Rightarrow> nat \<Rightarrow> part" where
  "nth_part sz i =
     \<lparr>part_number = Suc i, part_start = i * MULTIPART_PART_SIZE,
      part_end = min (Suc i * MULTIPART_PART_SIZE) sz\<rparr>"

definition part_count :: "nat \<Rightarrow> nat" where
  "part_count sz = (sz + MULTIPART_PART_SIZE - 1) div MULTIPART_PART_SIZE"

lemma less_part_count: "i < part_count sz \<longleftrightarrow> i * MULTIPART_PART_SIZE < sz"
proof -
  have "i < part_count sz \<longleftrightarrow> Suc i * MULTIPART_PART_SIZE \<le> sz + MULTIPART_PART_SIZE - 1"
    unfolding part_count_def using part_size_pos by (simp add: less_eq_div_iff_mult_less_eq Suc_le_eq [symmetric] del: mult_Suc)
  also have "\<dots> \<longleftrightarrow> i * MULTIPART_PART_SIZE < sz"
    using part_size_pos by (simp only: mult_Suc) linarith
  finally show ?thesis .
qed

lemma buildParts_loop_eq:
  "buildParts_loop sz (i * MULTIPART_PART_SIZE) (Suc i) = map (nth_part sz) [i..<part_count sz]"
proof (induction "part_count sz - i" arbitrary: i)
  case 0
  then have "\<not> i < part_count sz" by simp
  with 0 show ?case
    by (subst buildParts_loop.simps) (simp add: less_part_count [symmetric])
next
  case (Suc n)
  then have i: "i < part_count sz" by simp
  have "buildParts_loop sz (Suc i * MULTIPART_PART_SIZE) (Suc (Suc i)) =
      map (nth_part sz) [Suc i..<part_count sz]"
    using Suc by (intro Suc.hyps) simp
  with i show ?case
    by (subst buildParts_loop.simps)
      (simp add: less_part_count [symmetric] upt_conv_Cons nth_part_def add.commute)
qed

lemma buildParts_eq: "buildParts sz = map (nth_part sz) [0..<part_count sz]"
  using buildParts_loop_eq [of sz 0] by (simp add: buildParts_def)

lemma length_buildParts [simp]: "length (buildParts sz) = part_count sz"
  by (simp add: buildParts_eq)

lemma part_numbers: "map part_number (buildParts sz) = [1..<Suc (part_count sz)]"
proof -
  have "map part_number (buildParts sz) = map Suc [0..<part_count sz]"
    by (simp add: buildParts_eq nth_part_def)
  then show ?thesis by (simp add: map_Suc_upt)
qed

lemma take_tiles:
  "i * B \<le> length xs \<Longrightarrow>
   concat (map (\<lambda>k. slice xs (k * B) (min (Suc k * B) (length xs))) [0..<i]) = take (i * B) xs"
proof (induction i)
  case (Suc i)
  then have le: "Suc i * B \<le> length xs" "i * B \<le> length xs" by simp_all
  have "take (i * B) xs @ slice xs (i * B) (min (Suc i * B) (length xs)) = take (Suc i * B) xs"
    using le by (simp add: slice_def min_def take_add [symmetric] add.commute)
  with Suc.IH [OF le(2)] show ?case by simp
qed simp

lemma tiles_all:
  assumes "0 < B" "n = (length xs + B - 1) div B"
  shows "concat (map (\<lambda>k. slice xs (k * B) (min (Suc k * B) (length xs))) [0..<n]) = xs"
proof (cases n)
  case 0
  then have "length xs + B - 1 < B" using assms by (simp add: div_eq_0_iff)
  then have "xs = []" by (cases xs) auto
  with 0 show ?thesis by simp
next
  case (Suc m)
  then have "Suc m * B \<le> length xs + B - 1" using assms by (metis div_times_less_eq_dividend)
  then have m: "m * B < length xs" using assms(1) by simp
  have "length xs + B - 1 < Suc n * B"
    using assms by (metis dividend_less_div_times mult.commute add.commute mult_Suc)
  then have le: "length xs \<le> Suc m * B" using Suc by simp
  have "concat (map (\<lambda>k. slice xs (k * B) (min (Suc k * B) (length xs))) [0..<n]) =
      take (m * B) xs @ slice xs (m * B) (min (Suc m * B) (length xs))"
    using m take_tiles [of m B xs] by (simp add: Suc)
  also have "\<dots> = xs" using le by (simp add: slice_def min_absorb2)
  finally show ?thesis .
qed

lemma buildParts_concat:
  "concat (map (\<lambda>p. slice bytes (part_start p) (part_end p)) (buildParts (length bytes))) = bytes"
  using tiles_all [of MULTIPART_PART_SIZE "part_count (length bytes)" bytes]
  by (simp add: buildParts_eq nth_part_def o_def part_count_def)

lemma buildParts_sizes:
  assumes "p \<in> set (buildParts sz)"
  shows "part_start p < part_end p \<and> part_end p \<le> sz \<and> part_end p - part_start p \<le> MULTIPART_PART_SIZE"
proof -
  obtain i where "i < part_count sz" and p: "p = nth_part sz i"
    using assms by (auto simp: buildParts_eq)
  then have "i * MULTIPART_PART_SIZE < sz" by (simp add: less_part_count)
  then show ?thesis by (auto simp: p nth_part_def min_def)
qed

section \<open>One request\<close>

text \<open>
  How an XMLHttpRequest ends: a response with its status and \<open>ETag\<close> header, a network error, or an
  abort. \<open>uploadPart\<close> and \<open>uploadToS3\<close> settle their promises from these events.
\<close>

datatype xhr_end = Load int "string option" | Network_error | Aborted

definition msg_cancelled :: string where
  "msg_cancelled = ''Upload cancelled''"

definition msg_no_etag :: string where
  "msg_no_etag = ''Upload part completed but S3 did not expose an ETag header. Check the bucket CORS exposed headers.''"

definition msg_interrupted :: string where
  "msg_interrupted = ''Network interrupted while uploading a video chunk. Retrying...''"

fun uploadPart :: "xhr_end \<Rightarrow> js_error + string" where
  "uploadPart (Load status etag) =
     (if 200 \<le> status \<and> status < 300
      then (case etag of
              Some e \<Rightarrow> if e \<noteq> [] then Inr e else Inl (Error msg_no_etag)
            | None \<Rightarrow> Inl (Error msg_no_etag))
      else Inl (Error (''Upload part failed with status '' @ show_int status)))"
| "uploadPart Network_error = Inl (Error msg_interrupted)"
| "uploadPart Aborted = Inl (Error msg_cancelled)"

text \<open>
  The single-request upload. \<open>parse_error\<close> stands for the browser's XML parser on the response body:
  the text of the \<open>Code\<close> and \<open>Message\<close> elements, or \<open>None\<close> when parsing throws. The dash in
  the network message is U+2014 in the source, outside the character range, and written as a hyphen.
\<close>

definition s3_error_detail :: "(string option \<times> string option) option \<Rightarrow> string" where
  "s3_error_detail parsed =
     (case parsed of
        None \<Rightarrow> []
      | Some (code, message) \<Rightarrow>
          if (code \<noteq> None \<and> code \<noteq> Some []) \<or> (message \<noteq> None \<and> message \<noteq> Some [])
          then '' ('' @ (case code of None \<Rightarrow> ''undefined'' | Some c \<Rightarrow> c) @ '': '' @
               (case message of None \<Rightarrow> ''undefined'' | Some m \<Rightarrow> m) @ '')''
          else [])"

fun uploadToS3 :: "(string option \<times> string option) option \<Rightarrow> xhr_end \<Rightarrow> js_error + unit" where
  "uploadToS3 parsed (Load status _) =
     (if 200 \<le> status \<and> status < 300 then Inr ()
      else Inl (Error (''Upload failed with status '' @ show_int status @ s3_error_detail parsed)))"
| "uploadToS3 parsed Network_error =
     Inl (Error ''Upload failed - the file could not be sent to storage. Check your connection and try again.'')"
| "uploadToS3 parsed Aborted = Inl (Error msg_cancelled)"

text \<open>The progress listener of \<open>uploadToS3\<close>.\<close>

definition uploadToS3_progress :: "bool \<Rightarrow> int \<Rightarrow> int \<Rightarrow> upload_progress option" where
  "uploadToS3_progress lengthComputable ld tot =
     (if lengthComputable then Some \<lparr>percent = scaled_ratio ld tot 100, loaded = ld, total_bytes = tot\<rparr>
      else None)"

section \<open>Bounded retry of one part\<close>

text \<open>
  What the surroundings answer during one call of \<open>uploadPartWithRetry\<close>, by attempt number: whether
  the abort signal is set when the attempt starts, when its failure is caught and during the wait
  after it; the signed URL or the error of \<open>getPartUrl\<close>; the end of the PUT request.
\<close>

record part_env =
  aborted_at_start :: "nat \<Rightarrow> bool"
  aborted_at_catch :: "nat \<Rightarrow> bool"
  aborted_in_wait :: "nat \<Rightarrow> bool"
  part_url :: "nat \<Rightarrow> js_error + string"
  part_put :: "nat \<Rightarrow> string \<Rightarrow> xhr_end"

definition retry_failed :: "nat \<Rightarrow> js_error option \<Rightarrow> js_error" where
  "retry_failed partNumber lastError =
     (case lastError of
        Some (Error m) \<Rightarrow>
          Error (''Part '' @ show_nat partNumber @ '' failed after '' @ show_nat MULTIPART_MAX_ATTEMPTS @ '' attempts: '' @ m)
      | _ \<Rightarrow> Error (''Part '' @ show_nat partNumber @ '' failed after '' @ show_nat MULTIPART_MAX_ATTEMPTS @ '' attempts''))"

definition try_part :: "part_env \<Rightarrow> nat \<Rightarrow> js_error + string" where
  "try_part env attempt =
     (if aborted_at_start env attempt then Inl (Error msg_cancelled)
      else case part_url env attempt of
             Inl e \<Rightarrow> Inl e
           | Inr url \<Rightarrow> uploadPart (part_put env attempt url))"

text \<open>The loop; the second component of the result lists the waits, in milliseconds.\<close>

function uploadPartWithRetry_loop ::
  "part_env \<Rightarrow> nat \<Rightarrow> nat \<Rightarrow> js_error option \<Rightarrow> (js_error + string) \<times> nat list" where
  "uploadPartWithRetry_loop env partNumber attempt lastError =
     (if attempt \<le> MULTIPART_MAX_ATTEMPTS
      then case try_part env attempt of
             Inr etag \<Rightarrow> (Inr etag, [])
           | Inl e \<Rightarrow>
               if aborted_at_start env attempt \<or> aborted_at_catch env attempt then (Inl e, [])
               else if attempt < MULTIPART_MAX_ATTEMPTS
               then if aborted_in_wait env attempt then (Inl (Error msg_cancelled), [750 * attempt * attempt])
                    else (let (r, ws) = uploadPartWithRetry_loop env partNumber (attempt + 1) (Some e)
                          in (r, 750 * attempt * attempt # ws))
               else uploadPartWithRetry_loop env partNumber (attempt + 1) (Some e)
      else (Inl (retry_failed partNumber lastError), []))"
  by pat_completeness auto
termination
  by (relation "measure (\<lambda>(env, n, attempt, last). Suc MULTIPART_MAX_ATTEMPTS - attempt)") auto

declare uploadPartWithRetry_loop.simps [simp del]

definition uploadPartWithRetry :: "part_env \<Rightarrow> nat \<Rightarrow> (js_error + string) \<times> nat list" where
  "uploadPartWithRetry env partNumber = uploadPartWithRetry_loop env partNumber 1 None"

definition never_aborted :: "part_env \<Rightarrow> bool" where
  "never_aborted env \<longleftrightarrow>
     (\<forall>k. \<not> aborted_at_start env k \<and> \<not> aborted_at_catch env k \<and> \<not> aborted_in_wait env k)"

text \<open>Without an abort the loop is: the first success among the remaining attempts.\<close>

lemma retry_first_success:
  assumes "never_aborted env" "k \<le> j" "j \<le> MULTIPART_MAX_ATTEMPTS"
    "try_part env j = Inr etag" "\<And>i. k \<le> i \<Longrightarrow> i < j \<Longrightarrow> \<exists>e. try_part env i = Inl e"
  shows "uploadPartWithRetry_loop env n k l = (Inr etag, map (\<lambda>i. 750 * i * i) [k..<j])"
  using assms
proof (induction "j - k" arbitrary: k l)
  case 0
  then have "k = j" by simp
  with 0 show ?case by (subst uploadPartWithRetry_loop.simps) simp
next
  case (Suc d)
  then have kj: "k < j" by simp
  with Suc.prems obtain e where e: "try_part env k = Inl e" by blast
  have "uploadPartWithRetry_loop env n (k + 1) (Some e) = (Inr etag, map (\<lambda>i. 750 * i * i) [Suc k..<j])"
    using Suc.hyps(1) [of "Suc k" "Some e"] Suc.hyps(2) Suc.prems kj by simp
  with e kj Suc.prems show ?case
    by (subst uploadPartWithRetry_loop.simps) (simp add: never_aborted_def upt_conv_Cons)
qed

lemma retry_all_fail:
  assumes "never_aborted env" "k \<le> MULTIPART_MAX_ATTEMPTS"
    "\<And>i. k \<le> i \<Longrightarrow> i \<le> MULTIPART_MAX_ATTEMPTS \<Longrightarrow> \<exists>e. try_part env i = Inl e"
    "try_part env MULTIPART_MAX_ATTEMPTS = Inl e"
  shows "uploadPartWithRetry_loop env n k l =
    (Inl (retry_failed n (Some e)), map (\<lambda>i. 750 * i * i) [k..<MULTIPART_MAX_ATTEMPTS])"
  using assms
proof (induction "MULTIPART_MAX_ATTEMPTS - k" arbitrary: k l)
  case 0
  then have k: "k = MULTIPART_MAX_ATTEMPTS" by simp
  have stop: "uploadPartWithRetry_loop env n (Suc MULTIPART_MAX_ATTEMPTS) (Some e) = (Inl (retry_failed n (Some e)), [])"
    by (subst uploadPartWithRetry_loop.simps) simp
  from 0 k stop show ?case by (subst uploadPartWithRetry_loop.simps) (simp add: never_aborted_def)
next
  case (Suc d)
  then have lt: "k < MULTIPART_MAX_ATTEMPTS" by simp
  with Suc.prems obtain e' where e': "try_part env k = Inl e'" by (meson less_imp_le order_refl)
  have "uploadPartWithRetry_loop env n (k + 1) (Some e') =
      (Inl (retry_failed n (Some e)), map (\<lambda>i. 750 * i * i) [Suc k..<MULTIPART_MAX_ATTEMPTS])"
    using Suc.hyps(1) [of "Suc k" "Some e'"] Suc.hyps(2) Suc.prems lt by simp
  with e' lt Suc.prems show ?case
    by (subst uploadPartWithRetry_loop.simps) (simp add: never_aborted_def upt_conv_Cons)
qed

section \<open>The worker pool\<close>

text \<open>
  A worker of the pool is uploading a part, has left its loop because the cursor reached the end, or
  has rejected. The promise of the whole upload goes through the phases of \<open>uploadMultipartToS3\<close>:
  waiting for \<open>initiate\<close>, for the workers, for \<open>complete\<close>, resolved; or waiting for \<open>abort\<close> with the
  error that will be rethrown, rejected.
\<close>

datatype worker = Busy part | Exited | Broken part js_error

datatype phase = Initiating | Uploading | Completing | Finished | Aborting js_error | Rejected js_error

record upload_state =
  us_size :: nat
  cursor :: nat
  workers :: "worker list"
  loadedByPart :: "(nat \<times> nat) list"
  completedParts :: "multipart_upload_part list"
  aborted :: bool
  phase :: phase
  reports :: "upload_progress list"

definition upload_init :: "nat \<Rightarrow> upload_state" where
  "upload_init sz =
     \<lparr>us_size = sz, cursor = 0, workers = [], loadedByPart = [], completedParts = [],
      aborted = False, phase = Initiating, reports = []\<rparr>"

definition us_parts :: "upload_state \<Rightarrow> part list" where
  "us_parts s = buildParts (us_size s)"

definition reportProgress :: "upload_state \<Rightarrow> upload_state" where
  "reportProgress s =
     (let ld = int (sum_list (map snd (loadedByPart s)))
      in s\<lparr>reports := reports s @
             [\<lparr>percent = min 99 (scaled_ratio ld (int (us_size s)) 100), loaded = ld, total_bytes = int (us_size s)\<rparr>]\<rparr>)"

text \<open>The head of the worker's \<open>while\<close> loop: take the part under the cursor or leave.\<close>

definition next_part :: "upload_state \<Rightarrow> worker \<times> upload_state" where
  "next_part s =
     (if cursor s < length (us_parts s) then (Busy (us_parts s ! cursor s), s\<lparr>cursor := cursor s + 1\<rparr>)
      else (Exited, s))"

text \<open>\<open>Array.from(...)\<close> starts the workers one after the other; each runs up to its first \<open>await\<close>.\<close>

fun spawn :: "nat \<Rightarrow> upload_state \<Rightarrow> upload_state" where
  "spawn 0 s = s"
| "spawn (Suc n) s = (let (w, s') = next_part s in spawn n (s'\<lparr>workers := workers s' @ [w]\<rparr>))"

text \<open>The \<open>catch\<close> block: abort what is running, call the \<open>abort\<close> handler, rethrow.\<close>

definition enter_catch :: "js_error \<Rightarrow> upload_state \<Rightarrow> upload_state" where
  "enter_catch e s = s\<lparr>aborted := True, phase := Aborting e\<rparr>"

datatype upload_event =
    Initiate_done
  | Initiate_failed js_error
  | Part_progress nat nat
  | Part_done nat string
  | Part_failed nat js_error
  | Pool_done
  | Complete_done
  | Complete_failed js_error
  | Abort_settled
  | External_abort

definition part_progress :: "nat \<Rightarrow> nat \<Rightarrow> upload_state \<Rightarrow> upload_state" where
  "part_progress number ld s =
     reportProgress (s\<lparr>loadedByPart :=
       jmap_set number (max (case jmap_get (loadedByPart s) number of None \<Rightarrow> 0 | Some u \<Rightarrow> u) ld) (loadedByPart s)\<rparr>)"

definition part_done :: "part \<Rightarrow> string \<Rightarrow> upload_state \<Rightarrow> upload_state" where
  "part_done p etag s =
     reportProgress (s\<lparr>loadedByPart := jmap_set (part_number p) (part_end p - part_start p) (loadedByPart s),
       completedParts := completedParts s @ [\<lparr>mup_part_number = part_number p, mup_etag = etag\<rparr>]\<rparr>)"

text \<open>
  One step of \<open>uploadMultipartToS3\<close>. The workers go on after the first failure (their promises are
  no longer awaited), so part events are possible in the later phases too. A progress event reports
  at most the size of the blob being sent.
\<close>

fun uploadMultipartToS3 :: "upload_event \<Rightarrow> upload_state \<Rightarrow> upload_state option" where
  "uploadMultipartToS3 Initiate_done s =
     (if phase s = Initiating
      then Some (spawn (min MULTIPART_CONCURRENCY (length (us_parts s))) (s\<lparr>phase := Uploading\<rparr>))
      else None)"
| "uploadMultipartToS3 (Initiate_failed e) s =
     (if phase s = Initiating then Some (enter_catch e s) else None)"
| "uploadMultipartToS3 (Part_progress w ld) s =
     (if w < length (workers s)
      then case workers s ! w of
             Busy p \<Rightarrow> if ld \<le> part_end p - part_start p then Some (part_progress (part_number p) ld s) else None
           | _ \<Rightarrow> None
      else None)"
| "uploadMultipartToS3 (Part_done w etag) s =
     (if w < length (workers s)
      then case workers s ! w of
             Busy p \<Rightarrow> (let (w', s') = next_part (part_done p etag s)
                        in Some (s'\<lparr>workers := (workers s')[w := w']\<rparr>))
           | _ \<Rightarrow> None
      else None)"
| "uploadMultipartToS3 (Part_failed w e) s =
     (if w < length (workers s)
      then case workers s ! w of
             Busy p \<Rightarrow> (let s' = s\<lparr>workers := (workers s)[w := Broken p e]\<rparr>
                        in Some (if phase s = Uploading then enter_catch e s' else s'))
           | _ \<Rightarrow> None
      else None)"
| "uploadMultipartToS3 Pool_done s =
     (if phase s = Uploading \<and> list_all (\<lambda>w. w = Exited) (workers s)
      then Some (if aborted s then enter_catch (Error msg_cancelled) s else s\<lparr>phase := Completing\<rparr>)
      else None)"
| "uploadMultipartToS3 Complete_done s =
     (if phase s = Completing
      then Some (s\<lparr>phase := Finished,
                   reports := reports s @ [\<lparr>percent = 100, loaded = int (us_size s), total_bytes = int (us_size s)\<rparr>]\<rparr>)
      else None)"
| "uploadMultipartToS3 (Complete_failed e) s =
     (if phase s = Completing then Some (enter_catch e s) else None)"
| "uploadMultipartToS3 Abort_settled s =
     (case phase s of Aborting e \<Rightarrow> Some (s\<lparr>phase := Rejected e\<rparr>) | _ \<Rightarrow> None)"
| "uploadMultipartToS3 External_abort s =
     (case phase s of
        Finished \<Rightarrow> None
      | Rejected e \<Rightarrow> None
      | _ \<Rightarrow> Some (s\<lparr>aborted := True\<rparr>))"

subsection \<open>Every part goes to one worker\<close>

fun held :: "worker \<Rightarrow> nat list" where
  "held (Busy p) = [part_number p]"
| "held (Broken p e) = [part_number p]"
| "held Exited = []"

fun broken :: "worker \<Rightarrow> bool" where
  "broken (Broken p e) = True"
| "broken _ = False"

definition assigned :: "upload_state \<Rightarrow> nat multiset" where
  "assigned s = mset (concat (map held (workers s))) + mset (map mup_part_number (completedParts s))"

definition pool_inv :: "nat \<Rightarrow> upload_state \<Rightarrow> bool" where
  "pool_inv sz s \<longleftrightarrow>
     us_size s = sz \<and>
     assigned s = mset [1..<Suc (cursor s)] \<and>
     cursor s \<le> part_count sz \<and>
     (Exited \<in> set (workers s) \<longrightarrow> cursor s = part_count sz) \<and>
     (\<forall>p. Busy p \<in> set (workers s) \<longrightarrow> p \<in> set (buildParts sz)) \<and>
     length (workers s) \<le> MULTIPART_CONCURRENCY \<and>
     (phase s = Initiating \<longrightarrow> workers s = [] \<and> cursor s = 0) \<and>
     (phase s \<in> {Uploading, Completing, Finished} \<longrightarrow>
        length (workers s) = min MULTIPART_CONCURRENCY (part_count sz) \<and> (\<forall>w \<in> set (workers s). \<not> broken w)) \<and>
     (phase s \<in> {Completing, Finished} \<longrightarrow> (\<forall>w \<in> set (workers s). w = Exited))"

lemma pool_inv_init: "pool_inv sz (upload_init sz)"
  by (simp add: pool_inv_def upload_init_def assigned_def)

lemma part_number_nth: "i < part_count sz \<Longrightarrow> part_number (buildParts sz ! i) = Suc i"
  by (simp add: buildParts_eq nth_part_def)

text \<open>What both callers of \<open>next_part\<close> need: the new worker holds the next number.\<close>

lemma next_part_props:
  assumes "next_part s = (w, s')" "us_size s = sz" "cursor s \<le> part_count sz"
  shows "\<exists>c. s' = s\<lparr>cursor := c\<rparr> \<and> c \<le> part_count sz \<and> cursor s \<le> c \<and> \<not> broken w \<and>
    mset [1..<Suc c] = mset [1..<Suc (cursor s)] + mset (held w) \<and>
    (w = Exited \<longrightarrow> c = part_count sz) \<and> (\<forall>p. w = Busy p \<longrightarrow> p \<in> set (buildParts sz))"
proof (cases "cursor s < part_count sz")
  case True
  with assms show ?thesis
    by (intro exI [of _ "Suc (cursor s)"]) (auto simp: next_part_def us_parts_def part_number_nth)
next
  case False
  with assms show ?thesis
    by (intro exI [of _ "cursor s"]) (auto simp: next_part_def us_parts_def)
qed

lemma spawn_inv:
  assumes "pool_inv sz (s\<lparr>phase := Aborting e\<rparr>)" "phase s = Uploading" "\<forall>w \<in> set (workers s). \<not> broken w"
    "length (workers s) + n = min MULTIPART_CONCURRENCY (part_count sz)"
  shows "pool_inv sz (spawn n s)"
  using assms
proof (induction n arbitrary: s)
  case 0
  then show ?case by (simp add: pool_inv_def assigned_def)
next
  case (Suc n)
  obtain w s' where w: "next_part s = (w, s')" by fastforce
  have pre: "us_size s = sz" "cursor s \<le> part_count sz" using Suc.prems by (auto simp: pool_inv_def)
  obtain c where c: "s' = s\<lparr>cursor := c\<rparr>" "c \<le> part_count sz" "cursor s \<le> c" "\<not> broken w"
      "mset [1..<Suc c] = mset [1..<Suc (cursor s)] + mset (held w)"
      "w = Exited \<longrightarrow> c = part_count sz" "\<forall>p. w = Busy p \<longrightarrow> p \<in> set (buildParts sz)"
    using next_part_props [OF w pre] by blast
  have "pool_inv sz (s'\<lparr>workers := workers s' @ [w], phase := Aborting e\<rparr>)"
    using Suc.prems c unfolding pool_inv_def assigned_def by (auto simp: ac_simps)
  then have "pool_inv sz (spawn n (s'\<lparr>workers := workers s' @ [w]\<rparr>))"
    using Suc.prems c by (intro Suc.IH) auto
  then show ?case by (simp add: w)
qed

lemma part_done_inv:
  assumes inv: "pool_inv sz s" and w: "w < length (workers s)" "workers s ! w = Busy p"
    and n: "next_part (part_done p etag s) = (w', s')"
  shows "pool_inv sz (s'\<lparr>workers := (workers s')[w := w']\<rparr>)"
proof -
  let ?t = "part_done p etag s"
  have t: "us_size ?t = us_size s" "cursor ?t = cursor s" "workers ?t = workers s" "phase ?t = phase s"
    "completedParts ?t = completedParts s @ [\<lparr>mup_part_number = part_number p, mup_etag = etag\<rparr>]"
    by (simp_all add: part_done_def reportProgress_def Let_def)
  obtain c where c: "s' = ?t\<lparr>cursor := c\<rparr>" "c \<le> part_count sz" "cursor s \<le> c" "\<not> broken w'"
      "mset [1..<Suc c] = mset [1..<Suc (cursor s)] + mset (held w')"
      "w' = Exited \<longrightarrow> c = part_count sz" "\<forall>p. w' = Busy p \<longrightarrow> p \<in> set (buildParts sz)"
    using next_part_props [OF n, of sz] inv by (auto simp: t pool_inv_def)
  have busy: "Busy p \<in> set (workers s)" using w nth_mem by metis
  have upd: "mset (concat (map held ((workers s)[w := w']))) + {#part_number p#} =
      mset (concat (map held (workers s))) + mset (held w')"
    using mset_concat_update [OF w(1), of held w'] w(2) by simp
  have busy_ph: "phase s \<noteq> Initiating" "phase s \<notin> {Completing, Finished}"
    using inv busy by (force simp: pool_inv_def)+
  have as: "assigned s = mset [1..<Suc (cursor s)]" "us_size s = sz" "length (workers s) \<le> MULTIPART_CONCURRENCY"
      "\<forall>q. Busy q \<in> set (workers s) \<longrightarrow> q \<in> set (buildParts sz)" "Exited \<in> set (workers s) \<longrightarrow> cursor s = part_count sz"
      "phase s = Uploading \<longrightarrow> length (workers s) = min MULTIPART_CONCURRENCY (part_count sz) \<and> (\<forall>v \<in> set (workers s). \<not> broken v)"
    using inv unfolding pool_inv_def by blast+
  have "assigned (s'\<lparr>workers := (workers s')[w := w']\<rparr>) = assigned s + mset (held w')"
    using upd by (simp add: assigned_def c(1) t)
  then have a: "assigned (s'\<lparr>workers := (workers s')[w := w']\<rparr>) = mset [1..<Suc c]" by (simp only: c(5) as(1))
  have sub: "v = w' \<or> v \<in> set (workers s)" if "v \<in> set ((workers s)[w := w'])" for v
    using that set_update_subset_insert by fastforce
  have "Exited \<in> set ((workers s)[w := w']) \<longrightarrow> c = part_count sz" using sub as(5) c(2,3,6) by fastforce
  moreover have "\<forall>q. Busy q \<in> set ((workers s)[w := w']) \<longrightarrow> q \<in> set (buildParts sz)" using sub as(4) c(7) by metis
  moreover have "phase s = Uploading \<longrightarrow> (\<forall>v \<in> set ((workers s)[w := w']). \<not> broken v)" using sub as(6) c(4) by metis
  ultimately show ?thesis
    using busy_ph as(2,3,6) c(2) unfolding pool_inv_def a by (simp add: c(1) t)
qed

lemma part_failed_inv:
  assumes inv: "pool_inv sz s" and w: "w < length (workers s)" "workers s ! w = Busy p"
  shows "pool_inv sz (if phase s = Uploading then enter_catch e (s\<lparr>workers := (workers s)[w := Broken p e]\<rparr>)
    else s\<lparr>workers := (workers s)[w := Broken p e]\<rparr>)"
proof -
  have busy: "Busy p \<in> set (workers s)" using w nth_mem by metis
  have "mset (concat (map held ((workers s)[w := Broken p e]))) = mset (concat (map held (workers s)))"
    using mset_concat_update [OF w(1), of held "Broken p e"] w(2) by simp
  moreover have "set ((workers s)[w := Broken p e]) \<subseteq> insert (Broken p e) (set (workers s))"
    by (rule set_update_subset_insert)
  moreover have "phase s \<noteq> Initiating" "phase s \<notin> {Completing, Finished}"
    using inv busy by (force simp: pool_inv_def)+
  ultimately show ?thesis
    using inv by (auto simp: pool_inv_def assigned_def enter_catch_def)
qed

lemma pool_inv_frame:
  assumes "pool_inv sz s" "us_size t = us_size s" "cursor t = cursor s" "workers t = workers s"
    "completedParts t = completedParts s"
    "phase t = phase s \<or> phase t = Aborting e \<or> phase t = Rejected e \<or> phase s = Completing \<and> phase t = Finished"
  shows "pool_inv sz t"
  using assms(6,1-5) unfolding pool_inv_def assigned_def by (elim disjE conjE) simp_all

lemma pool_inv_step:
  assumes inv: "pool_inv sz s" and step: "uploadMultipartToS3 ev s = Some s'"
  shows "pool_inv sz s'"
proof (cases ev)
  case Initiate_done
  with step have s': "phase s = Initiating"
      "s' = spawn (min MULTIPART_CONCURRENCY (length (us_parts s))) (s\<lparr>phase := Uploading\<rparr>)"
    by (auto split: if_splits)
  then have i: "workers s = []" "cursor s = 0" "us_size s = sz" "assigned s = {#}"
    using inv by (simp_all add: pool_inv_def)
  have "pool_inv sz (s\<lparr>phase := Uploading, phase := Aborting NonError\<rparr>)"
    using i by (simp add: pool_inv_def assigned_def)
  then show ?thesis
    unfolding s'(2) by (rule spawn_inv) (simp_all add: us_parts_def i)
next
  case (Part_progress w ld)
  with step obtain number where "s' = part_progress number ld s"
    by (auto split: if_splits worker.splits)
  then show ?thesis
    using inv by (simp add: pool_inv_def assigned_def part_progress_def reportProgress_def Let_def)
next
  case (Part_done w etag)
  with step obtain p where w: "w < length (workers s)" "workers s ! w = Busy p"
      and "(case next_part (part_done p etag s) of (w', t) \<Rightarrow> Some (t\<lparr>workers := (workers t)[w := w']\<rparr>)) = Some s'"
    by (auto split: if_splits worker.splits)
  then show ?thesis using part_done_inv [OF inv w] by (auto split: prod.splits)
next
  case (Part_failed w e)
  with step obtain p where w: "w < length (workers s)" "workers s ! w = Busy p"
      and "s' = (if phase s = Uploading then enter_catch e (s\<lparr>workers := (workers s)[w := Broken p e]\<rparr>)
        else s\<lparr>workers := (workers s)[w := Broken p e]\<rparr>)"
    by (auto simp: Let_def split: if_splits worker.splits)
  then show ?thesis using part_failed_inv [OF inv w] by simp
next
  case Pool_done
  with step have "list_all (\<lambda>w. w = Exited) (workers s)" "phase s = Uploading"
      and s': "s' = (if aborted s then enter_catch (Error msg_cancelled) s else s\<lparr>phase := Completing\<rparr>)"
    by (simp_all split: if_split_asm)
  then have w: "\<forall>w \<in> set (workers s). w = Exited" "phase s = Uploading" by (simp_all add: list_all_iff)
  have "pool_inv sz (s\<lparr>phase := Completing\<rparr>)" "pool_inv sz (enter_catch (Error msg_cancelled) s)"
    using inv w by (simp_all add: pool_inv_def assigned_def enter_catch_def)
  then show ?thesis by (simp add: s')
qed (use step in \<open>simp_all add: enter_catch_def pool_inv_frame [OF inv] split: if_split_asm phase.split_asm,
  auto intro: pool_inv_frame [OF inv]\<close>)

interpretation pool: safe_machine uploadMultipartToS3 "\<lambda>s. s = upload_init sz" "pool_inv sz" for sz
  by unfold_locales (auto intro: pool_inv_init pool_inv_step)

lemma pool_complete_numbers:
  assumes "pool_inv sz s" "phase s \<in> {Completing, Finished}"
  shows "mset (map mup_part_number (completedParts s)) = mset [1..<Suc (part_count sz)]"
proof -
  have all: "\<forall>w \<in> set (workers s). w = Exited" and len: "length (workers s) = min MULTIPART_CONCURRENCY (part_count sz)"
    using assms by (auto simp: pool_inv_def)
  have none: "concat (map held (workers s)) = []" using all by auto
  have "assigned s = mset [1..<Suc (cursor s)]" using assms(1) by (simp only: pool_inv_def)
  then have a: "mset (map mup_part_number (completedParts s)) = mset [1..<Suc (cursor s)]"
    by (simp only: assigned_def none mset.simps add_0)
  have "cursor s = part_count sz"
  proof (cases "workers s")
    case Nil
    with len have "part_count sz = 0" by (simp add: MULTIPART_CONCURRENCY_def min_def split: if_splits)
    with assms(1) show ?thesis by (simp add: pool_inv_def)
  next
    case (Cons w ws)
    with all assms(1) show ?thesis by (auto simp: pool_inv_def)
  qed
  with a show ?thesis by simp
qed

subsection \<open>Progress never goes back\<close>

definition part_len :: "part \<Rightarrow> nat" where
  "part_len p = part_end p - part_start p"

definition cur_loaded :: "upload_state \<Rightarrow> nat" where
  "cur_loaded s = sum_list (map snd (loadedByPart s))"

definition pct :: "nat \<Rightarrow> nat \<Rightarrow> int" where
  "pct sz ld = min 99 (scaled_ratio (int ld) (int sz) 100)"

definition report_le :: "upload_progress \<Rightarrow> upload_progress \<Rightarrow> bool" where
  "report_le r r' \<longleftrightarrow> percent r \<le> percent r' \<and> loaded r \<le> loaded r'"

definition progress_inv :: "nat \<Rightarrow> upload_state \<Rightarrow> bool" where
  "progress_inv sz s \<longleftrightarrow>
     distinct (map fst (loadedByPart s)) \<and>
     (\<forall>(k, v) \<in> set (loadedByPart s). \<exists>p \<in> set (buildParts sz). part_number p = k \<and> v \<le> part_len p) \<and>
     sorted_wrt report_le (reports s) \<and>
     (\<forall>r \<in> set (reports s). if phase s = Finished then percent r \<le> 100 \<and> loaded r \<le> int sz
        else percent r \<le> pct sz (cur_loaded s) \<and> loaded r \<le> int (cur_loaded s))"

lemma sum_part_len: "sum_list (map part_len (buildParts sz)) = sz"
proof -
  let ?bytes = "replicate sz ()"
  have "sz = length (concat (map (\<lambda>p. slice ?bytes (part_start p) (part_end p)) (buildParts sz)))"
    using buildParts_concat [of ?bytes] by simp
  also have "\<dots> = sum_list (map (\<lambda>p. length (slice ?bytes (part_start p) (part_end p))) (buildParts sz))"
    by (simp add: length_concat o_def)
  also have "\<dots> = sum_list (map part_len (buildParts sz))"
    using buildParts_sizes [of _ sz]
    by (intro arg_cong [where f = sum_list] map_cong) (auto simp: slice_def part_len_def min_absorb1 diff_le_mono)
  finally show ?thesis ..
qed

lemma part_number_inj: "inj_on part_number (set (buildParts sz))"
  using part_numbers [of sz] by (metis distinct_map distinct_upt)

lemma sum_loaded_le:
  assumes "distinct (map fst m)"
    "\<forall>(k, v) \<in> set m. \<exists>p \<in> set (buildParts sz). part_number p = k \<and> v \<le> part_len p"
  shows "sum_list (map snd m) \<le> sz"
proof -
  define P where "P = {p \<in> set (buildParts sz). part_number p \<in> fst ` set m}"
  have sub: "P \<subseteq> set (buildParts sz)" and fin: "finite P" by (auto simp: P_def)
  have keys: "fst ` set m = part_number ` P"
    using assms(2) by (force simp: P_def)
  have inj: "inj_on part_number P" by (rule inj_on_subset [OF part_number_inj sub])
  have le: "the (jmap_get m (part_number p)) \<le> part_len p" if "p \<in> P" for p
  proof -
    have "jmap_get m (part_number p) \<noteq> None"
      using that by (simp add: P_def map_of_eq_None_iff)
    then obtain v where v: "jmap_get m (part_number p) = Some v" by blast
    then obtain q where "q \<in> set (buildParts sz)" "part_number q = part_number p" "v \<le> part_len q"
      using assms(2) map_of_SomeD by fastforce
    then show ?thesis using v that part_number_inj sub by (metis inj_onD option.sel subsetD)
  qed
  have "sum_list (map snd m) = (\<Sum>p \<in> P. the (jmap_get m (part_number p)))"
    unfolding sum_list_jmap [OF assms(1)] keys by (simp add: sum.reindex [OF inj])
  also have "\<dots> \<le> (\<Sum>p \<in> P. part_len p)" by (rule sum_mono) (rule le)
  also have "\<dots> \<le> (\<Sum>p \<in> set (buildParts sz). part_len p)" by (rule sum_mono2) (auto simp: sub)
  also have "\<dots> = sum_list (map part_len (buildParts sz))"
    using part_numbers [of sz] by (metis distinct_map distinct_upt sum.distinct_set_conv_list)
  finally show ?thesis by (simp add: sum_part_len)
qed

lemma pct_mono: "0 < sz \<Longrightarrow> a \<le> b \<Longrightarrow> pct sz a \<le> pct sz b"
  unfolding pct_def using scaled_ratio_mono [of "int a" "int b" "int sz" 100] by simp

lemma report_step:
  assumes "progress_inv sz s" "phase s \<noteq> Finished" "0 < sz" "us_size s = sz"
    and p: "p \<in> set (buildParts sz)" "part_number p = k" "v \<le> part_len p"
    and old: "\<And>u. jmap_get (loadedByPart s) k = Some u \<Longrightarrow> u \<le> v"
    and t: "t = reportProgress (s'\<lparr>loadedByPart := jmap_set k v (loadedByPart s)\<rparr>)"
    and frame: "reports s' = reports s" "us_size s' = us_size s" "phase s' = phase s"
  shows "progress_inv sz t"
proof -
  let ?m = "jmap_set k v (loadedByPart s)"
  have cur: "cur_loaded t = sum_list (map snd ?m)"
    by (simp add: t reportProgress_def cur_loaded_def Let_def)
  have grow: "cur_loaded s \<le> cur_loaded t"
    using sum_jmap_set [of k v "loadedByPart s"] old unfolding cur
    by (auto simp: cur_loaded_def split: option.splits)
  have reps: "reports t = reports s @
      [\<lparr>percent = pct sz (cur_loaded t), loaded = int (cur_loaded t), total_bytes = int sz\<rparr>]"
    unfolding cur by (simp add: t reportProgress_def Let_def frame assms(4) pct_def)
  have below: "percent r \<le> pct sz (cur_loaded t) \<and> loaded r \<le> int (cur_loaded t)" if "r \<in> set (reports s)" for r
    using assms(1,2) that grow pct_mono [OF assms(3) grow] unfolding progress_inv_def by fastforce
  have "\<forall>(k', v') \<in> set ?m. \<exists>p \<in> set (buildParts sz). part_number p = k' \<and> v' \<le> part_len p"
  proof (clarify)
    fix k' v' assume "(k', v') \<in> set ?m"
    moreover have "distinct (map fst ?m)"
      using assms(1) by (auto simp: progress_inv_def intro: distinct_jmap_set)
    ultimately have "jmap_get ?m k' = Some v'" by (rule map_of_is_SomeI [rotated])
    then have "k' = k \<and> v' = v \<or> (k', v') \<in> set (loadedByPart s)"
      by (auto split: if_splits dest: map_of_SomeD)
    then show "\<exists>p \<in> set (buildParts sz). part_number p = k' \<and> v' \<le> part_len p"
      using p assms(1) unfolding progress_inv_def by blast
  qed
  moreover have "sorted_wrt report_le (reports t)"
    using assms(1) below by (auto simp: reps sorted_wrt_append progress_inv_def report_le_def)
  moreover have "loadedByPart t = ?m" "phase t = phase s"
    by (simp_all add: t reportProgress_def Let_def frame)
  ultimately show ?thesis
    using assms(1,2) below unfolding progress_inv_def
    by (auto simp: reps intro: distinct_jmap_set)
qed

lemma progress_inv_cong:
  "progress_inv sz s \<Longrightarrow> loadedByPart s' = loadedByPart s \<Longrightarrow> reports s' = reports s \<Longrightarrow>
   (phase s' = Finished \<longleftrightarrow> phase s = Finished) \<Longrightarrow> progress_inv sz s'"
  unfolding progress_inv_def cur_loaded_def by simp

lemma spawn_frame [simp]:
  "loadedByPart (spawn n s) = loadedByPart s" "reports (spawn n s) = reports s" "phase (spawn n s) = phase s"
  by (induction n arbitrary: s) (auto simp: next_part_def split: prod.splits)

lemma next_part_snd [simp]:
  "loadedByPart (snd (next_part s)) = loadedByPart s" "reports (snd (next_part s)) = reports s"
  "phase (snd (next_part s)) = phase s" "aborted (snd (next_part s)) = aborted s"
  by (simp_all add: next_part_def)

lemma next_part_frame:
  assumes "next_part s = (w, s')"
  shows "loadedByPart s' = loadedByPart s" "reports s' = reports s" "phase s' = phase s"
  using next_part_snd [of s] by (simp_all add: assms)

lemma busy_part:
  assumes "pool_inv sz s" "w < length (workers s)" "workers s ! w = Busy p"
  shows "p \<in> set (buildParts sz) \<and> 0 < sz \<and> phase s \<noteq> Finished \<and> us_size s = sz"
proof -
  have b: "Busy p \<in> set (workers s)" using assms nth_mem by metis
  then have p: "p \<in> set (buildParts sz)" using assms(1) by (auto simp: pool_inv_def)
  moreover have "0 < sz" using buildParts_sizes [OF p] by simp
  moreover have "phase s \<noteq> Finished" using assms(1) b by (auto simp: pool_inv_def)
  ultimately show ?thesis using assms(1) by (auto simp: pool_inv_def)
qed

lemma loaded_bound:
  assumes "progress_inv sz s" "p \<in> set (buildParts sz)" "jmap_get (loadedByPart s) (part_number p) = Some u"
  shows "u \<le> part_len p"
proof -
  have "(part_number p, u) \<in> set (loadedByPart s)" using assms(3) by (rule map_of_SomeD)
  then obtain q where "q \<in> set (buildParts sz)" "part_number q = part_number p" "u \<le> part_len q"
    using assms(1) unfolding progress_inv_def by blast
  then show ?thesis using part_number_inj assms(2) by (metis inj_onD)
qed

lemma loaded_completed_swap:
  "(s :: upload_state)\<lparr>loadedByPart := m, completedParts := c\<rparr> = s\<lparr>completedParts := c, loadedByPart := m\<rparr>"
  by simp

lemma quiet_step:
  assumes "uploadMultipartToS3 ev s = Some s'" "ev \<noteq> Complete_done" "\<And>w ld. ev \<noteq> Part_progress w ld"
    "\<And>w etag. ev \<noteq> Part_done w etag"
  shows "loadedByPart s' = loadedByPart s \<and> reports s' = reports s \<and> (phase s' = Finished \<longleftrightarrow> phase s = Finished)"
  using assms by (cases ev) (auto simp: enter_catch_def Let_def split: if_splits worker.splits phase.splits)

lemma progress_inv_step:
  assumes inv: "pool_inv sz s" "progress_inv sz s" and step: "uploadMultipartToS3 ev s = Some s'"
  shows "progress_inv sz s'"
proof (cases ev)
  case (Part_progress w ld)
  with step obtain p where w: "w < length (workers s)" "workers s ! w = Busy p"
      and ld: "ld \<le> part_len p" and s': "s' = part_progress (part_number p) ld s"
    by (auto simp: part_len_def split: if_splits worker.splits)
  note b = busy_part [OF inv(1) w]
  show ?thesis
    by (rule report_step [OF inv(2), where s' = s and p = p])
      (use b ld loaded_bound [OF inv(2)] in \<open>auto simp: s' part_progress_def split: option.splits\<close>)
next
  case (Part_done w etag)
  with step obtain p w' t where w: "w < length (workers s)" "workers s ! w = Busy p"
      and n: "next_part (part_done p etag s) = (w', t)" and s': "s' = t\<lparr>workers := (workers t)[w := w']\<rparr>"
    by (auto split: if_splits worker.splits prod.splits)
  note b = busy_part [OF inv(1) w]
  have "progress_inv sz (part_done p etag s)"
    by (rule report_step [OF inv(2), where p = p and v = "part_len p" and k = "part_number p" and
          s' = "s\<lparr>completedParts := completedParts s @ [\<lparr>mup_part_number = part_number p, mup_etag = etag\<rparr>]\<rparr>"])
      (use b loaded_bound [OF inv(2)] in \<open>auto simp: part_done_def part_len_def loaded_completed_swap\<close>)
  then show ?thesis by (rule progress_inv_cong) (simp_all add: s' next_part_frame [OF n])
next
  case Complete_done
  then have ph: "phase s \<noteq> Finished" and s': "s' = s\<lparr>phase := Finished, reports := reports s @
      [\<lparr>percent = 100, loaded = int (us_size s), total_bytes = int (us_size s)\<rparr>]\<rparr>"
    using step by (auto split: if_splits)
  have "us_size s = sz" using inv(1) by (simp add: pool_inv_def)
  moreover have "cur_loaded s \<le> sz"
    using inv(2) sum_loaded_le unfolding progress_inv_def cur_loaded_def by blast
  moreover have "pct sz (cur_loaded s) \<le> 100" by (simp add: pct_def)
  ultimately have all: "\<forall>r \<in> set (reports s). percent r \<le> 100 \<and> loaded r \<le> int sz"
    using inv(2) ph unfolding progress_inv_def by fastforce
  then show ?thesis
    using inv(2) \<open>us_size s = sz\<close> unfolding progress_inv_def s'
    by (auto simp: sorted_wrt_append report_le_def)
qed (rule progress_inv_cong [OF inv(2)]; use quiet_step [OF step] in simp)+

interpretation progress: safe_machine uploadMultipartToS3 "\<lambda>s. s = upload_init sz"
  "\<lambda>s. pool_inv sz s \<and> progress_inv sz s" for sz
  by unfold_locales
    (auto intro: pool_inv_step progress_inv_step simp: pool_inv_init,
     auto simp: progress_inv_def upload_init_def)

subsection \<open>The upload can always finish\<close>

fun busy :: "worker \<Rightarrow> bool" where
  "busy (Busy p) = True"
| "busy _ = False"

definition remaining :: "nat \<Rightarrow> upload_state \<Rightarrow> nat" where
  "remaining sz s = (part_count sz - cursor s) + length (filter busy (workers s))"

lemma count_update:
  "i < length ws \<Longrightarrow> busy (ws ! i) \<Longrightarrow>
   length (filter busy (ws[i := w])) + 1 = length (filter busy ws) + (if busy w then 1 else 0)"
proof (induction ws arbitrary: i)
  case (Cons v ws)
  then show ?case by (cases i) auto
qed simp

lemma finish_one:
  assumes inv: "pool_inv sz s" and ph: "phase s = Uploading" "\<not> aborted s"
    and w: "w < length (workers s)" "workers s ! w = Busy p"
  shows "\<exists>s'. uploadMultipartToS3 (Part_done w etag) s = Some s' \<and> phase s' = Uploading \<and> \<not> aborted s' \<and>
    remaining sz s' < remaining sz s"
proof -
  obtain w' t where n: "next_part (part_done p etag s) = (w', t)" by fastforce
  let ?s' = "t\<lparr>workers := (workers t)[w := w']\<rparr>"
  have d: "cursor (part_done p etag s) = cursor s" "workers (part_done p etag s) = workers s"
    "aborted (part_done p etag s) = aborted s" "phase (part_done p etag s) = phase s"
    "us_size (part_done p etag s) = sz"
    using inv by (simp_all add: part_done_def reportProgress_def Let_def pool_inv_def)
  have c: "cursor s \<le> part_count sz" using inv by (simp add: pool_inv_def)
  have lt: "length (filter busy ((workers s)[w := w'])) + 1 = length (filter busy (workers s)) + (if busy w' then 1 else 0)"
    by (rule count_update) (simp_all add: w)
  have np: "next_part (part_done p etag s) =
      (if cursor s < part_count sz then (Busy (buildParts sz ! cursor s), (part_done p etag s)\<lparr>cursor := cursor s + 1\<rparr>)
       else (Exited, part_done p etag s))"
    unfolding next_part_def us_parts_def d length_buildParts ..
  have t: "workers t = workers s \<and> phase t = Uploading \<and> \<not> aborted t \<and>
      (if busy w' then cursor t = cursor s + 1 \<and> cursor s < part_count sz else cursor t = cursor s)"
  proof (cases "cursor s < part_count sz")
    case True
    then have "w' = Busy (buildParts sz ! cursor s)" "t = (part_done p etag s)\<lparr>cursor := cursor s + 1\<rparr>"
      using n unfolding np by simp_all
    then show ?thesis using True d ph by simp
  next
    case False
    then have "w' = Exited" "t = part_done p etag s" using n unfolding np by simp_all
    then show ?thesis using d ph by simp
  qed
  have "remaining sz ?s' < remaining sz s"
    using lt t by (cases "busy w'") (simp_all add: remaining_def, linarith)
  moreover have "phase ?s' = Uploading" "\<not> aborted ?s'" using t by simp_all
  moreover have "uploadMultipartToS3 (Part_done w etag) s = Some ?s'" using w n by simp
  ultimately show ?thesis by blast
qed

lemma finish_all:
  assumes "pool_inv sz s" "phase s = Uploading" "\<not> aborted s"
  shows "\<exists>es s'. run uploadMultipartToS3 s es = Some s' \<and> phase s' = Finished"
  using assms
proof (induction "remaining sz s" arbitrary: s rule: less_induct)
  case less
  show ?case
  proof (cases "\<exists>w < length (workers s). busy (workers s ! w)")
    case True
    then obtain w p where w: "w < length (workers s)" "workers s ! w = Busy p"
      by (metis busy.elims(2))
    obtain s1 where s1: "uploadMultipartToS3 (Part_done w []) s = Some s1" "phase s1 = Uploading"
        "\<not> aborted s1" "remaining sz s1 < remaining sz s"
      using finish_one [OF less.prems w] by blast
    obtain es s' where "run uploadMultipartToS3 s1 es = Some s'" "phase s' = Finished"
      using less.hyps [OF s1(4) pool_inv_step [OF less.prems(1) s1(1)] s1(2,3)] by blast
    with s1(1) have "run uploadMultipartToS3 s (Part_done w [] # es) = Some s' \<and> phase s' = Finished" by simp
    then show ?thesis by blast
  next
    case False
    have nb: "\<forall>v \<in> set (workers s). \<not> broken v" using less.prems by (simp add: pool_inv_def)
    have nf: "\<forall>v \<in> set (workers s). \<not> busy v" using False by (auto simp: in_set_conv_nth)
    have "v = Exited" if "v \<in> set (workers s)" for v
      using nb [rule_format, OF that] nf [rule_format, OF that] by (cases v) simp_all
    then have "list_all (\<lambda>v. v = Exited) (workers s)" by (simp add: list_all_iff)
    with less.prems have "\<exists>s'. run uploadMultipartToS3 s [Pool_done, Complete_done] = Some s' \<and> phase s' = Finished"
      by simp
    then show ?thesis by blast
  qed
qed

lemma part_frame:
  "phase (part_progress n ld s) = phase s" "aborted (part_progress n ld s) = aborted s"
  "phase (part_done p etag s) = phase s" "aborted (part_done p etag s) = aborted s"
  by (simp_all add: part_progress_def part_done_def reportProgress_def Let_def)

lemma catch_sticks:
  assumes "phase s \<in> {Aborting e, Rejected e}" "aborted s" "uploadMultipartToS3 ev s = Some s'"
  shows "phase s' \<in> {Aborting e, Rejected e} \<and> aborted s'"
proof (cases ev)
  case (Part_progress w ld)
  with assms(3) have "phase s' = phase s \<and> aborted s' = aborted s"
    by (auto simp: part_frame split: if_splits worker.splits)
  with assms(1,2) show ?thesis by simp
next
  case (Part_done w etag)
  with assms(3) have "phase s' = phase s \<and> aborted s' = aborted s"
    by (auto simp: Let_def split_def next_part_snd part_frame split: if_splits worker.splits)
  with assms(1,2) show ?thesis by simp
next
  case (Part_failed w e')
  with assms(1,3) have "phase s' = phase s \<and> aborted s' = aborted s"
    by (auto simp: Let_def split: if_splits worker.splits)
  with assms(1,2) show ?thesis by simp
qed (use assms in \<open>auto split: if_splits phase.splits\<close>)

interpretation catch: safe_machine uploadMultipartToS3
  "\<lambda>s. phase s = Aborting e \<and> aborted s" "\<lambda>s. phase s \<in> {Aborting e, Rejected e} \<and> aborted s" for e
proof
  show "phase s' \<in> {Aborting e, Rejected e} \<and> aborted s'"
    if "phase s \<in> {Aborting e, Rejected e} \<and> aborted s" "uploadMultipartToS3 ev s = Some s'" for s ev s'
    using catch_sticks that by blast
qed simp

section \<open>Properties\<close>

text \<open>
  C3: the parts of a file tile it. Sliced at the bounds of \<open>buildParts\<close>, the pieces concatenate to the
  file again; they are numbered 1, 2, \<dots> without gaps, none is empty and none exceeds 16 MiB.
\<close>

theorem buildParts_tiles_file:
  "concat (map (\<lambda>p. slice bytes (part_start p) (part_end p)) (buildParts (length bytes))) = bytes \<and>
   map part_number (buildParts (length bytes)) = [1..<Suc (length (buildParts (length bytes)))] \<and>
   list_all (\<lambda>p. part_start p < part_end p \<and> part_end p - part_start p \<le> 16 * 1024 * 1024)
     (buildParts (length bytes))"
proof -
  have "list_all (\<lambda>p. part_start p < part_end p \<and> part_end p - part_start p \<le> MULTIPART_PART_SIZE)
      (buildParts (length bytes))"
    using buildParts_sizes by (auto simp: list_all_iff)
  then show ?thesis
    by (simp add: buildParts_concat part_numbers MULTIPART_PART_SIZE_def)
qed

text \<open>
  C4: without an abort, \<open>uploadPartWithRetry\<close> is "the first success among four attempts": it returns
  the ETag of the earliest successful attempt after waiting \<open>750 * i * i\<close> ms after each failed
  attempt \<open>i\<close>, and rejects with the error of the fourth attempt when all four fail.
\<close>

theorem uploadPartWithRetry_first_success:
  assumes "never_aborted env"
  shows "uploadPartWithRetry env n =
    (case filter (\<lambda>k. isl (try_part env k) = False) [1, 2, 3, 4] of
       k # _ \<Rightarrow> (try_part env k, map (\<lambda>i. 750 * i * i) [1..<k])
     | [] \<Rightarrow> (Inl (retry_failed n (Some (projl (try_part env 4)))), [750, 3000, 6750]))"
proof (cases "filter (\<lambda>k. isl (try_part env k) = False) [1, 2, 3, 4]")
  case Nil
  then have f: "isl (try_part env 1)" "isl (try_part env 2)" "isl (try_part env 3)" "isl (try_part env 4)"
    by (auto split: if_splits)
  have "\<exists>e. try_part env i = Inl e" if "1 \<le> i" "i \<le> MULTIPART_MAX_ATTEMPTS" for i
  proof -
    have "i \<in> {1, 2, 3, 4}" using that by (auto simp: MULTIPART_MAX_ATTEMPTS_def)
    with f show ?thesis by (auto simp: isl_def)
  qed
  moreover have "try_part env MULTIPART_MAX_ATTEMPTS = Inl (projl (try_part env 4))"
    using f(4) by (auto simp: MULTIPART_MAX_ATTEMPTS_def isl_def)
  ultimately have "uploadPartWithRetry env n =
      (Inl (retry_failed n (Some (projl (try_part env 4)))), map (\<lambda>i. 750 * i * i) [1..<MULTIPART_MAX_ATTEMPTS])"
    unfolding uploadPartWithRetry_def by (intro retry_all_fail assms) (auto simp: MULTIPART_MAX_ATTEMPTS_def)
  then show ?thesis unfolding Nil by (simp add: MULTIPART_MAX_ATTEMPTS_def upt_rec)
next
  case (Cons k ks)
  then have k: "k \<in> {1, 2, 3, 4}" "\<not> isl (try_part env k)" "\<And>i. 1 \<le> i \<Longrightarrow> i < k \<Longrightarrow> isl (try_part env i)"
    by (auto split: if_splits simp: less_Suc_eq numeral_eq_Suc)
  obtain etag where e: "try_part env k = Inr etag" using k(2) by (cases "try_part env k") auto
  have "uploadPartWithRetry env n = (Inr etag, map (\<lambda>i. 750 * i * i) [1..<k])"
    unfolding uploadPartWithRetry_def
    by (rule retry_first_success) (use assms k e in \<open>auto simp: MULTIPART_MAX_ATTEMPTS_def isl_def\<close>)
  then show ?thesis unfolding Cons by (simp add: e)
qed

lemma spawn_two:
  "spawn 2 s = (let (w, s1) = next_part s; (v, s2) = next_part (s1\<lparr>workers := workers s1 @ [w]\<rparr>)
    in s2\<lparr>workers := workers s2 @ [v]\<rparr>)"
  by (simp only: numeral_2_eq_2 spawn.simps Let_def split_def)

definition flaky_env :: part_env where
  "flaky_env =
     \<lparr>aborted_at_start = (\<lambda>_. False), aborted_at_catch = (\<lambda>_. False), aborted_in_wait = (\<lambda>_. False),
      part_url = (\<lambda>_. Inr ''u''), part_put = (\<lambda>k _. if k < 3 then Network_error else Load 200 (Some ''tag''))\<rparr>"

theorem uploadPartWithRetry_first_success_witness:
  "never_aborted flaky_env \<and> uploadPartWithRetry flaky_env 7 = (Inr ''tag'', [750, 3000])"
proof -
  have na: "never_aborted flaky_env" by (simp add: never_aborted_def flaky_env_def)
  from uploadPartWithRetry_first_success [OF na, of 7] na show ?thesis
    by (simp add: flaky_env_def try_part_def upt_rec)
qed

text \<open>
  C1: when the pool is done and \<open>complete\<close> is called (and from then on), the list of completed parts
  holds every part of the file exactly once, whatever the interleaving of the workers; and at no
  time are more than three workers running.
\<close>

theorem multipart_complete_has_every_part_once:
  assumes "run uploadMultipartToS3 (upload_init sz) es = Some s"
  shows "length (filter busy (workers s)) \<le> 3 \<and>
    (phase s \<in> {Completing, Finished} \<longrightarrow>
      mset (map mup_part_number (completedParts s)) = mset (map part_number (buildParts sz)))"
proof -
  have inv: "pool_inv sz s" using pool.run_inv [OF assms] by simp
  then have "length (workers s) \<le> 3" by (simp add: pool_inv_def MULTIPART_CONCURRENCY_def)
  then have "length (filter busy (workers s)) \<le> 3" using length_filter_le order_trans by blast
  with pool_complete_numbers [OF inv] show ?thesis by (simp only: part_numbers) blast
qed

theorem multipart_complete_has_every_part_once_witness:
  "\<exists>s. run uploadMultipartToS3 (upload_init 20000000)
      [Initiate_done, Part_done 1 ''b'', Part_done 0 ''a'', Pool_done] = Some s \<and>
    phase s = Completing \<and> map mup_part_number (completedParts s) = [2, 1] \<and>
    mset (map mup_part_number (completedParts s)) = mset (map part_number (buildParts 20000000))"
proof -
  let ?es = "[Initiate_done, Part_done 1 ''b'', Part_done 0 ''a'', Pool_done]"
  have pc: "part_count 20000000 = 2" by (simp add: part_count_def MULTIPART_PART_SIZE_def)
  then have parts: "buildParts 20000000 = [nth_part 20000000 0, nth_part 20000000 1]"
    by (simp add: buildParts_eq upt_rec)
  have "case run uploadMultipartToS3 (upload_init 20000000) ?es of None \<Rightarrow> False
      | Some s \<Rightarrow> phase s = Completing \<and> map mup_part_number (completedParts s) = [2, 1]"
    by (simp add: upload_init_def us_parts_def parts MULTIPART_CONCURRENCY_def next_part_def
        part_done_def reportProgress_def nth_part_def spawn_two Let_def pc)
  then obtain s where s: "run uploadMultipartToS3 (upload_init 20000000) ?es = Some s"
      "phase s = Completing \<and> map mup_part_number (completedParts s) = [2, 1]" by (rule case_someE)
  have "mset (map mup_part_number (completedParts s)) = mset (map part_number (buildParts 20000000))"
    using multipart_complete_has_every_part_once [OF s(1)] conjunct1 [OF s(2)]
    by (metis (no_types, lifting) insertI1)
  with s show ?thesis by (intro exI [of _ s] conjI) (simp_all only:)
qed

text \<open>
  C2: the progress shown to the user only grows, in bytes and in percent. It stays within the size
  of the file, at most 99 % until the server has assembled the object, and 100 % only after.
\<close>

theorem multipart_progress_monotone:
  assumes "run uploadMultipartToS3 (upload_init sz) es = Some s"
  shows "sorted_wrt report_le (reports s) \<and>
    list_all (\<lambda>r. loaded r \<le> int sz \<and> percent r \<le> (if phase s = Finished then 100 else 99)) (reports s)"
proof -
  have inv: "pool_inv sz s" "progress_inv sz s" using progress.run_inv [OF assms] by simp_all
  have c: "cur_loaded s \<le> sz"
    using inv(2) sum_loaded_le unfolding progress_inv_def cur_loaded_def by blast
  have sorted: "sorted_wrt report_le (reports s)" and
    bnd: "\<forall>r \<in> set (reports s). if phase s = Finished then percent r \<le> 100 \<and> loaded r \<le> int sz
        else percent r \<le> pct sz (cur_loaded s) \<and> loaded r \<le> int (cur_loaded s)"
    using inv(2) unfolding progress_inv_def by argo+
  have p: "pct sz (cur_loaded s) \<le> 99" by (simp add: pct_def)
  have "loaded r \<le> int sz \<and> percent r \<le> (if phase s = Finished then 100 else 99)" if "r \<in> set (reports s)" for r
    using bnd [rule_format, OF that] c p by (cases "phase s = Finished") simp_all
  with sorted show ?thesis by (simp add: list_all_iff)
qed

theorem multipart_progress_monotone_witness:
  "\<exists>s. run uploadMultipartToS3 (upload_init 200)
      [Initiate_done, Part_progress 0 100, Part_progress 0 40, Part_done 0 ''a'', Pool_done, Complete_done] = Some s \<and>
    map percent (reports s) = [50, 50, 99, 100] \<and> sorted_wrt report_le (reports s)"
proof -
  let ?es = "[Initiate_done, Part_progress 0 100, Part_progress 0 40, Part_done 0 ''a'', Pool_done, Complete_done]"
  have "part_count 200 = 1" by (simp add: part_count_def MULTIPART_PART_SIZE_def)
  then have parts: "buildParts 200 = [nth_part 200 0]" by (simp add: buildParts_eq)
  have pcts: "scaled_ratio 100 200 100 = 50" "scaled_ratio 200 200 100 = 100" by code_simp+
  have "case run uploadMultipartToS3 (upload_init 200) ?es of None \<Rightarrow> False
      | Some s \<Rightarrow> map percent (reports s) = [50, 50, 99, 100]"
    by (simp add: upload_init_def us_parts_def parts MULTIPART_CONCURRENCY_def next_part_def part_progress_def
        part_done_def reportProgress_def nth_part_def MULTIPART_PART_SIZE_def pcts)
  then obtain s where s: "run uploadMultipartToS3 (upload_init 200) ?es = Some s"
      "map percent (reports s) = [50, 50, 99, 100]" by (rule case_someE)
  moreover have "sorted_wrt report_le (reports s)" using multipart_progress_monotone [OF s(1)] by (rule conjunct1)
  ultimately show ?thesis by (intro exI conjI)
qed

text \<open>
  C5: no deadlock. From every state that an upload can reach while its workers run and nobody has
  aborted it, some continuation finishes the upload.
\<close>

theorem multipart_can_finish:
  assumes "run uploadMultipartToS3 (upload_init sz) es = Some s" "phase s = Uploading" "\<not> aborted s"
  shows "\<exists>fs s'. run uploadMultipartToS3 (upload_init sz) (es @ fs) = Some s' \<and> phase s' = Finished"
proof -
  have "pool_inv sz s" using pool.run_inv [OF assms(1)] by simp
  from finish_all [OF this assms(2,3)] obtain fs s' where
    "run uploadMultipartToS3 s fs = Some s'" "phase s' = Finished" by blast
  then have "run uploadMultipartToS3 (upload_init sz) (es @ fs) = Some s' \<and> phase s' = Finished"
    by (simp add: run_append assms(1))
  then show ?thesis by blast
qed

theorem multipart_can_finish_witness:
  "\<exists>s. run uploadMultipartToS3 (upload_init 0) [Initiate_done] = Some s \<and>
    (\<exists>fs s'. run uploadMultipartToS3 (upload_init 0) ([Initiate_done] @ fs) = Some s' \<and> phase s' = Finished)"
proof -
  have e: "buildParts 0 = []" by (simp add: buildParts_eq part_count_def)
  obtain s where s: "run uploadMultipartToS3 (upload_init 0) [Initiate_done] = Some s" "phase s = Uploading" "\<not> aborted s"
    by (simp add: upload_init_def us_parts_def e)
  with multipart_can_finish [OF s] show ?thesis by blast
qed

text \<open>
  C6: a part that fails for good ends the upload. The error of the first failed part is the one the
  caller sees, the other requests are told to abort, and \<open>complete\<close> is never reached afterwards.
\<close>

theorem multipart_part_failure_rejects:
  assumes "phase s = Uploading" "uploadMultipartToS3 (Part_failed w e) s = Some s1"
    "run uploadMultipartToS3 s1 es = Some s2"
  shows "phase s2 \<in> {Aborting e, Rejected e} \<and> aborted s2"
proof -
  have "phase s1 = Aborting e \<and> aborted s1"
    using assms(1,2) by (auto simp: enter_catch_def split: if_splits worker.splits)
  then show ?thesis using catch.run_inv [OF assms(3)] by blast
qed

theorem multipart_part_failure_rejects_witness:
  "\<exists>s s1 s2. run uploadMultipartToS3 (upload_init 200) [Initiate_done] = Some s \<and>
    uploadMultipartToS3 (Part_failed 0 (Error ''x'')) s = Some s1 \<and>
    run uploadMultipartToS3 s1 [Abort_settled] = Some s2 \<and> phase s2 \<in> {Aborting (Error ''x''), Rejected (Error ''x'')}"
proof -
  have "part_count 200 = 1" by (simp add: part_count_def MULTIPART_PART_SIZE_def)
  then have parts: "buildParts 200 = [nth_part 200 0]" by (simp add: buildParts_eq)
  have "case run uploadMultipartToS3 (upload_init 200) [Initiate_done] of None \<Rightarrow> False
      | Some s \<Rightarrow> phase s = Uploading \<and> workers s = [Busy (nth_part 200 0)]"
    by (simp add: upload_init_def us_parts_def parts MULTIPART_CONCURRENCY_def next_part_def)
  then obtain s where s: "run uploadMultipartToS3 (upload_init 200) [Initiate_done] = Some s"
      "phase s = Uploading" "workers s = [Busy (nth_part 200 0)]" by (rule case_someE) blast
  have "case uploadMultipartToS3 (Part_failed 0 (Error ''x'')) s of None \<Rightarrow> False
      | Some s1 \<Rightarrow> phase s1 = Aborting (Error ''x'')"
    using s(2,3) by (simp add: enter_catch_def)
  then obtain s1 where s1: "uploadMultipartToS3 (Part_failed 0 (Error ''x'')) s = Some s1"
      "phase s1 = Aborting (Error ''x'')" by (rule case_someE)
  obtain s2 where s2: "run uploadMultipartToS3 s1 [Abort_settled] = Some s2" using s1(2) by simp
  have "phase s2 \<in> {Aborting (Error ''x''), Rejected (Error ''x'')}"
    using multipart_part_failure_rejects [OF s(2) s1(1) s2] by (rule conjunct1)
  with s(1) s1(1) s2 show ?thesis by (intro exI conjI)
qed

end
