(* ===== verification/Uploads.thy ===== *)
theory Uploads
  imports Multipart
begin

text \<open>
  The upload provider of the web application, \<^verbatim>\<open>web/src/contexts/UploadContext.tsx\<close>: the list of uploads on screen, the background job
  of each upload, cancelling, attaching an upload to a content block and the clean-up of stored objects. The provider is a step machine
  over the user's actions, the answers of the service and the events of the requests; a large file runs the machine of \<open>Multipart\<close> inside
  its job. React renders later than the state changes: \<^verbatim>\<open>uploadsRef.current\<close> is the list of the last rendering, which is a step of its own.
\<close>

section \<open>Data\<close>

datatype upload_status = St_presigning | St_uploading | St_waiting | St_saving | St_done | St_error

record cohort_recording =
  cr_cohortId :: int
  cr_title :: string
  cr_description :: "string option"
  cr_recordedDate :: "string option"

record ActiveUpload =
  au_id :: string
  fileName :: string
  fileSize :: nat
  contentType :: string
  progress :: int
  status :: upload_status
  au_error :: "string option"
  s3Key :: "string option"
  contentBlockId :: "int option"
  deferPersistence :: "bool option"
  cohortRecording :: "cohort_recording option"
  linkTo :: "string option"
  linkLabel :: "string option"

record UploadStartOpts =
  o_contentBlockId :: "int option"
  o_deferPersistence :: "bool option"
  o_cohortRecording :: "cohort_recording option"
  o_linkTo :: "string option"
  o_linkLabel :: "string option"

record video_file =
  vf_name :: string
  vf_size :: nat
  vf_type :: string

text \<open>A field of a patch that is there may have the value \<^verbatim>\<open>undefined\<close>.\<close>

record upload_patch =
  p_contentBlockId :: "int option option"
  p_linkTo :: "string option option"
  p_linkLabel :: "string option option"

datatype save_target = Save_block int | Save_recording cohort_recording

record saved_row =
  row_target :: save_target
  row_key :: string
  row_type :: string
  row_size :: nat

text \<open>
  The point a job has reached: waiting for the signed address, sending the file in one request (and whether that request was aborted),
  the multipart upload, waiting for the answer to the save, or ended with its result.
\<close>

datatype task =
    Task_presign
  | Task_post bool
  | Task_multipart upload_state
  | Task_save save_target
  | Task_ended "string option"

record job =
  jb_id :: string
  jb_file :: video_file
  jb_type :: string
  jb_opts :: UploadStartOpts
  jb_key :: "string option"
  jb_uploaded :: "string option"
  jb_task :: task

record attach_task =
  at_id :: string
  at_row :: saved_row

text \<open>
  The provider and what it has done to the world: the keys the service issued, the objects known to be in the bucket, the rows the service
  confirmed and the keys it was told to abandon.
\<close>

record provider =
  uploads :: "ActiveUpload list"
  uploadsRef :: "ActiveUpload list"
  jobs :: "job list"
  aborted_ids :: "string list"
  attaches :: "attach_task list"
  removals :: "string list"
  issued :: "string list"
  bucket :: "string list"
  rows :: "saved_row list"
  abandoned :: "string list"

section \<open>Operations on the list of uploads\<close>

definition updateUpload :: "string \<Rightarrow> (ActiveUpload \<Rightarrow> ActiveUpload) \<Rightarrow> provider \<Rightarrow> provider" where
  "updateUpload i patch s = s\<lparr>uploads := map (\<lambda>u. if au_id u = i then patch u else u) (uploads s)\<rparr>"

definition removeUpload :: "string \<Rightarrow> provider \<Rightarrow> provider" where
  "removeUpload i s = s\<lparr>uploads := filter (\<lambda>u. au_id u \<noteq> i) (uploads s)\<rparr>"

definition set_status :: "upload_status \<Rightarrow> ActiveUpload \<Rightarrow> ActiveUpload" where
  "set_status st u = u\<lparr>status := st\<rparr>"

definition completeUpload :: "string \<Rightarrow> provider \<Rightarrow> provider" where
  "completeUpload i s = (let s1 = updateUpload i (set_status St_done) s in s1\<lparr>removals := removals s1 @ [i]\<rparr>)"

definition hasActiveUploads :: "provider \<Rightarrow> bool" where
  "hasActiveUploads s \<longleftrightarrow> list_ex (\<lambda>u. status u \<in> {St_presigning, St_uploading, St_saving, St_waiting}) (uploads s)"

definition find_upload :: "string \<Rightarrow> ActiveUpload list \<Rightarrow> ActiveUpload option" where
  "find_upload i us = find (\<lambda>u. au_id u = i) us"

definition abandonUpload :: "string \<Rightarrow> provider \<Rightarrow> provider" where
  "abandonUpload key s = s\<lparr>abandoned := abandoned s @ [key]\<rparr>"

section \<open>Saving what was uploaded\<close>

definition coalesce :: "'a option \<Rightarrow> 'a option \<Rightarrow> 'a option" where
  "coalesce a b = (case a of Some x \<Rightarrow> Some x | None \<Rightarrow> b)"

text \<open>Where an object is to be saved; \<open>None\<close> when \<^verbatim>\<open>persistUploadTarget\<close> returns false.\<close>

definition persist_target :: "ActiveUpload option \<Rightarrow> UploadStartOpts \<Rightarrow> save_target option" where
  "persist_target liveUpload fallbackOpts =
     (let block = coalesce (Option.bind liveUpload contentBlockId) (o_contentBlockId fallbackOpts);
          defer = coalesce (Option.bind liveUpload deferPersistence) (o_deferPersistence fallbackOpts);
          recording = coalesce (Option.bind liveUpload cohortRecording) (o_cohortRecording fallbackOpts)
      in if block \<notin> {None, Some 0} then (if defer = Some True then None else Some (Save_block (the block)))
         else map_option Save_recording recording)"

definition persistUploadTarget :: "string \<Rightarrow> UploadStartOpts \<Rightarrow> provider \<Rightarrow> save_target option \<times> provider" where
  "persistUploadTarget i fallbackOpts s =
     (case persist_target (find_upload i (uploadsRef s)) fallbackOpts of
        None \<Rightarrow> (None, s)
      | Some t \<Rightarrow> (Some t, updateUpload i (set_status St_saving) s))"

section \<open>The job of an upload\<close>

definition find_job :: "string \<Rightarrow> provider \<Rightarrow> job option" where
  "find_job i s = find (\<lambda>j. jb_id j = i) (jobs s)"

definition update_job :: "string \<Rightarrow> (job \<Rightarrow> job) \<Rightarrow> provider \<Rightarrow> provider" where
  "update_job i f s = s\<lparr>jobs := map (\<lambda>j. if jb_id j = i then f j else j) (jobs s)\<rparr>"

definition set_task :: "task \<Rightarrow> job \<Rightarrow> job" where
  "set_task t j = j\<lparr>jb_task := t\<rparr>"

definition startVideoUpload :: "string \<Rightarrow> video_file \<Rightarrow> UploadStartOpts \<Rightarrow> provider \<Rightarrow> provider" where
  "startVideoUpload i file opts s =
     (let ctype = (if vf_type file = [] then ''video/mp4'' else vf_type file);
          upload = \<lparr>au_id = i, fileName = vf_name file, fileSize = vf_size file, contentType = ctype, progress = 0, status = St_presigning,
                    au_error = None, s3Key = None, contentBlockId = o_contentBlockId opts, deferPersistence = o_deferPersistence opts,
                    cohortRecording = o_cohortRecording opts, linkTo = o_linkTo opts, linkLabel = o_linkLabel opts\<rparr>;
          t = (if MULTIPART_UPLOAD_THRESHOLD \<le> vf_size file then Task_multipart (upload_init (vf_size file)) else Task_presign)
      in s\<lparr>uploads := uploads s @ [upload],
           jobs := jobs s @ [\<lparr>jb_id = i, jb_file = file, jb_type = ctype, jb_opts = opts, jb_key = None, jb_uploaded = None, jb_task = t\<rparr>]\<rparr>)"

definition error_text :: "js_error \<Rightarrow> string" where
  "error_text e = (case e of Error m \<Rightarrow> m | NonError \<Rightarrow> ''Upload failed'')"

text \<open>The \<^verbatim>\<open>catch\<close> block of the job.\<close>

definition upload_failed :: "job \<Rightarrow> js_error \<Rightarrow> provider \<Rightarrow> provider" where
  "upload_failed j e s =
     (let s1 = (case jb_uploaded j of Some key \<Rightarrow> if key \<noteq> [] then abandonUpload key s else s | None \<Rightarrow> s);
          s2 = update_job (jb_id j) (set_task (Task_ended None)) s1
      in if jb_id j \<in> set (aborted_ids s) then removeUpload (jb_id j) s2
         else updateUpload (jb_id j) (\<lambda>u. u\<lparr>status := St_error, au_error := Some (error_text e)\<rparr>) s2)"

text \<open>The part of the job after the file is in the bucket.\<close>

definition upload_stored :: "job \<Rightarrow> string \<Rightarrow> provider \<Rightarrow> provider" where
  "upload_stored j key s0 =
     (let s = s0\<lparr>bucket := bucket s0 @ [key]\<rparr>; (persisted, s1) = persistUploadTarget (jb_id j) (jb_opts j) s
      in case persisted of
           Some t \<Rightarrow> update_job (jb_id j) (\<lambda>j. j\<lparr>jb_uploaded := Some key, jb_task := Task_save t\<rparr>) s1
         | None \<Rightarrow> updateUpload (jb_id j) (\<lambda>u. u\<lparr>status := St_waiting, progress := 100\<rparr>)
                     (update_job (jb_id j) (\<lambda>j. j\<lparr>jb_uploaded := Some key, jb_task := Task_ended (Some key)\<rparr>) s1))"

definition job_row :: "job \<Rightarrow> save_target \<Rightarrow> string \<Rightarrow> saved_row" where
  "job_row j t key = \<lparr>row_target = t, row_key = key, row_type = jb_type j, row_size = vf_size (jb_file j)\<rparr>"

text \<open>An empty error text counts as no error.\<close>

definition save_reply :: "job \<Rightarrow> save_target \<Rightarrow> string \<Rightarrow> string \<Rightarrow> provider \<Rightarrow> provider" where
  "save_reply j t key err s =
     (if err \<noteq> [] then upload_failed j (Error err) s
      else completeUpload (jb_id j) (update_job (jb_id j) (set_task (Task_ended (Some key))) (s\<lparr>rows := rows s @ [job_row j t key]\<rparr>)))"

definition issue_key :: "job \<Rightarrow> string \<Rightarrow> task \<Rightarrow> provider \<Rightarrow> provider" where
  "issue_key j key t s =
     updateUpload (jb_id j) (\<lambda>u. u\<lparr>status := St_uploading, s3Key := Some key\<rparr>)
       (update_job (jb_id j) (\<lambda>j. j\<lparr>jb_key := Some key, jb_task := t\<rparr>) (s\<lparr>issued := issued s @ [key]\<rparr>))"

definition reply_error :: "string \<Rightarrow> string \<Rightarrow> js_error" where
  "reply_error err fallback = Error (if err = [] then fallback else err)"

text \<open>A step of the multipart upload: its progress is shown, and its end is the end of the upload.\<close>

definition multipart_next :: "job \<Rightarrow> upload_state \<Rightarrow> upload_state \<Rightarrow> provider \<Rightarrow> provider" where
  "multipart_next j us us' s0 =
     (let s = (if reports us' = reports us then s0
               else updateUpload (jb_id j) (\<lambda>u. u\<lparr>progress := percent (last (reports us'))\<rparr>) s0)
      in case phase us' of
           Finished \<Rightarrow> (case jb_key j of
                         Some key \<Rightarrow> upload_stored j key s
                       | None \<Rightarrow> upload_failed j (Error ''Multipart upload did not return an S3 key'') s)
         | Rejected e \<Rightarrow> upload_failed j e s
         | _ \<Rightarrow> update_job (jb_id j) (set_task (Task_multipart us')) s)"

section \<open>Cancelling and attaching\<close>

text \<open>The abort reaches the request that is running; a request that has not started yet does not see it.\<close>

definition abort_task :: "task \<Rightarrow> task" where
  "abort_task t =
     (case t of
        Task_post x \<Rightarrow> Task_post True
      | Task_multipart us \<Rightarrow> (case uploadMultipartToS3 External_abort us of Some us' \<Rightarrow> Task_multipart us' | None \<Rightarrow> t)
      | _ \<Rightarrow> t)"

definition cancelUpload :: "string \<Rightarrow> provider \<Rightarrow> provider" where
  "cancelUpload i s =
     (case find_upload i (uploadsRef s) of
        None \<Rightarrow> removeUpload i s
      | Some u \<Rightarrow>
          (let s1 = update_job i (\<lambda>j. set_task (abort_task (jb_task j)) j) (s\<lparr>aborted_ids := aborted_ids s @ [i]\<rparr>);
               s2 = (case s3Key u of
                       Some key \<Rightarrow> if status u = St_waiting \<and> key \<noteq> [] then abandonUpload key s1 else s1
                     | None \<Rightarrow> s1)
           in removeUpload i s2))"

definition apply_patch :: "upload_patch \<Rightarrow> ActiveUpload \<Rightarrow> ActiveUpload" where
  "apply_patch p u =
     u\<lparr>contentBlockId := (case p_contentBlockId p of Some v \<Rightarrow> v | None \<Rightarrow> contentBlockId u),
       linkTo := (case p_linkTo p of Some v \<Rightarrow> v | None \<Rightarrow> linkTo u),
       linkLabel := (case p_linkLabel p of Some v \<Rightarrow> v | None \<Rightarrow> linkLabel u)\<rparr>"

definition attachUpload :: "string \<Rightarrow> upload_patch \<Rightarrow> provider \<Rightarrow> provider" where
  "attachUpload i patch s0 =
     (let s = updateUpload i (apply_patch patch) s0
      in case map_option (apply_patch patch) (find_upload i (uploadsRef s0)) of
           None \<Rightarrow> s
         | Some nxt \<Rightarrow>
             if contentBlockId nxt \<notin> {None, Some 0} \<and> s3Key nxt \<notin> {None, Some []} \<and> status nxt = St_waiting then
               (let fallback = \<lparr>o_contentBlockId = contentBlockId nxt, o_deferPersistence = None, o_cohortRecording = None,
                                o_linkTo = linkTo nxt, o_linkLabel = linkLabel nxt\<rparr>
                in case persistUploadTarget i fallback s of
                     (Some t, s1) \<Rightarrow>
                       s1\<lparr>attaches := attaches s1 @
                            [\<lparr>at_id = i, at_row = \<lparr>row_target = t, row_key = the (s3Key nxt), row_type = contentType nxt, row_size = fileSize nxt\<rparr>\<rparr>]\<rparr>
                   | (None, s1) \<Rightarrow> s1)
             else s)"

definition attach_reply :: "attach_task \<Rightarrow> string \<Rightarrow> provider \<Rightarrow> provider" where
  "attach_reply a err s =
     (if err = [] then completeUpload (at_id a) (s\<lparr>rows := rows s @ [at_row a]\<rparr>)
      else updateUpload (at_id a) (\<lambda>u. u\<lparr>status := St_error, au_error := Some err\<rparr>) (abandonUpload (row_key (at_row a)) s))"

section \<open>The provider as a step machine\<close>

datatype provider_event =
    Start string video_file UploadStartOpts
  | Presign_reply string "string + string"
  | Initiate_reply string "string + string"
  | Multipart_event string upload_event
  | Post_progress string int
  | Post_end string "(string option \<times> string option) option" xhr_end
  | Save_reply string string
  | Attach_reply nat string
  | Cancel string
  | Attach string upload_patch
  | Complete_deferred string
  | Dismiss string
  | Removal_timer string
  | Render

text \<open>
  The service issues a key once and never the empty one, and \<^verbatim>\<open>crypto.randomUUID\<close> an identity once. The abort event of a request comes
  when it was aborted, its other ends when it was not. The indicator offers to dismiss an upload that is shown as done or failed.
\<close>

definition new_key :: "string \<Rightarrow> provider \<Rightarrow> bool" where
  "new_key key s \<longleftrightarrow> key \<noteq> [] \<and> key \<notin> set (issued s)"

definition presign_reply :: "job \<Rightarrow> string + string \<Rightarrow> provider \<Rightarrow> provider option" where
  "presign_reply j reply s =
     (if jb_task j \<noteq> Task_presign then None
      else case reply of
             Inl err \<Rightarrow> Some (upload_failed j (reply_error err ''Failed to get upload URL'') s)
           | Inr key \<Rightarrow> if new_key key s then Some (issue_key j key (Task_post False) s) else None)"

definition initiate_reply :: "job \<Rightarrow> string + string \<Rightarrow> provider \<Rightarrow> provider option" where
  "initiate_reply j reply s =
     (case jb_task j of
        Task_multipart us \<Rightarrow>
          (case reply of
             Inl err \<Rightarrow> map_option (\<lambda>us'. multipart_next j us us' s)
               (uploadMultipartToS3 (Initiate_failed (reply_error err ''Failed to start multipart upload'')) us)
           | Inr key \<Rightarrow> if new_key key s
               then map_option (\<lambda>us'. issue_key j key (Task_multipart us') s) (uploadMultipartToS3 Initiate_done us) else None)
      | _ \<Rightarrow> None)"

fun inner_event :: "upload_event \<Rightarrow> bool" where
  "inner_event Initiate_done = False"
| "inner_event (Initiate_failed e) = False"
| "inner_event External_abort = False"
| "inner_event _ = True"

definition multipart_event :: "job \<Rightarrow> upload_event \<Rightarrow> provider \<Rightarrow> provider option" where
  "multipart_event j ev s =
     (case jb_task j of
        Task_multipart us \<Rightarrow> if inner_event ev then map_option (\<lambda>us'. multipart_next j us us' s) (uploadMultipartToS3 ev us) else None
      | _ \<Rightarrow> None)"

definition post_end :: "job \<Rightarrow> (string option \<times> string option) option \<Rightarrow> xhr_end \<Rightarrow> provider \<Rightarrow> provider option" where
  "post_end j parsed e s =
     (case jb_task j of
        Task_post x \<Rightarrow>
          if (e = Aborted) \<noteq> x then None
          else (case uploadToS3 parsed e of
                  Inr _ \<Rightarrow> map_option (\<lambda>key. upload_stored j key s) (jb_key j)
                | Inl err \<Rightarrow> Some (upload_failed j err s))
      | _ \<Rightarrow> None)"

definition job_event :: "provider_event \<Rightarrow> string option" where
  "job_event e =
     (case e of
        Presign_reply i _ \<Rightarrow> Some i | Initiate_reply i _ \<Rightarrow> Some i | Multipart_event i _ \<Rightarrow> Some i | Post_progress i _ \<Rightarrow> Some i
      | Post_end i _ _ \<Rightarrow> Some i | Save_reply i _ \<Rightarrow> Some i | _ \<Rightarrow> None)"

definition job_step :: "provider_event \<Rightarrow> job \<Rightarrow> provider \<Rightarrow> provider option" where
  "job_step e j s =
     (case e of
        Presign_reply i reply \<Rightarrow> presign_reply j reply s
      | Initiate_reply i reply \<Rightarrow> initiate_reply j reply s
      | Multipart_event i ev \<Rightarrow> multipart_event j ev s
      | Post_progress i p \<Rightarrow> (case jb_task j of Task_post x \<Rightarrow> Some (updateUpload i (\<lambda>u. u\<lparr>progress := p\<rparr>) s) | _ \<Rightarrow> None)
      | Post_end i parsed end \<Rightarrow> post_end j parsed end s
      | Save_reply i err \<Rightarrow>
          (case jb_task j of Task_save t \<Rightarrow> map_option (\<lambda>key. save_reply j t key err s) (jb_uploaded j) | _ \<Rightarrow> None)
      | _ \<Rightarrow> None)"

definition provider_step :: "provider_event \<Rightarrow> provider \<Rightarrow> provider option" where
  "provider_step e s =
     (case e of
        Start i file opts \<Rightarrow> if find_job i s = None then Some (startVideoUpload i file opts s) else None
      | Attach_reply n err \<Rightarrow>
          if n < length (attaches s)
          then Some (attach_reply (attaches s ! n) err (s\<lparr>attaches := take n (attaches s) @ drop (Suc n) (attaches s)\<rparr>)) else None
      | Cancel i \<Rightarrow> Some (cancelUpload i s)
      | Attach i patch \<Rightarrow> Some (attachUpload i patch s)
      | Complete_deferred i \<Rightarrow> Some (completeUpload i s)
      | Dismiss i \<Rightarrow>
          (case find_upload i (uploadsRef s) of
             Some u \<Rightarrow> if status u \<in> {St_done, St_error} then Some (removeUpload i s) else None
           | None \<Rightarrow> None)
      | Removal_timer i \<Rightarrow> if i \<in> set (removals s) then Some (removeUpload i (s\<lparr>removals := remove1 i (removals s)\<rparr>)) else None
      | Render \<Rightarrow> Some (s\<lparr>uploadsRef := uploads s\<rparr>)
      | _ \<Rightarrow> Option.bind (Option.bind (job_event e) (\<lambda>i. find_job i s)) (\<lambda>j. job_step e j s))"

definition provider_start :: provider where
  "provider_start =
     \<lparr>uploads = [], uploadsRef = [], jobs = [], aborted_ids = [], attaches = [], removals = [], issued = [], bucket = [], rows = [],
      abandoned = []\<rparr>"

end
