(* ===== verification/Upload_Inv.thy ===== *)
theory Upload_Inv
  imports Uploads
begin

text \<open>
  The invariant of the upload provider: what holds of every job and its stored object, and that the steps of a job keep it.
\<close>

section \<open>Every stored object is accounted for\<close>

text \<open>
  A run is \<open>orderly\<close> when the user acts on what the last rendering shows and cancels an upload only while there is a request to abort or
  nothing left to abort: not while the address is being signed and not while the parts are being put together. Handing an upload over to
  the page that saves it (\<^verbatim>\<open>completeDeferredUpload\<close>) is outside.
\<close>

definition stoppable :: "task \<Rightarrow> bool" where
  "stoppable t \<longleftrightarrow> (case t of Task_presign \<Rightarrow> False | Task_multipart us \<Rightarrow> phase us \<noteq> Completing | _ \<Rightarrow> True)"

definition orderly :: "provider_event \<Rightarrow> provider \<Rightarrow> bool" where
  "orderly e s \<longleftrightarrow>
     (case e of
        Cancel i \<Rightarrow> uploadsRef s = uploads s \<and> (\<forall>j \<in> set (jobs s). jb_id j = i \<longrightarrow> stoppable (jb_task j))
      | Attach i p \<Rightarrow> uploadsRef s = uploads s
      | Dismiss i \<Rightarrow> uploadsRef s = uploads s
      | Complete_deferred i \<Rightarrow> False
      | _ \<Rightarrow> True)"

definition orderly_step :: "provider_event \<Rightarrow> provider \<Rightarrow> provider option" where
  "orderly_step e s = (if orderly e s then provider_step e s else None)"

text \<open>What the provider knows about a job: its upload, its attaching tasks, its removal, and whether its object is saved or abandoned.\<close>

record job_facts =
  jf_upload :: "ActiveUpload option"
  jf_attaches :: "attach_task list"
  jf_removal :: bool
  jf_saved :: bool
  jf_abandoned :: bool

definition saved_key :: "provider \<Rightarrow> string \<Rightarrow> bool" where
  "saved_key s k \<longleftrightarrow> k \<in> row_key ` set (rows s)"

definition abandoned_key :: "provider \<Rightarrow> string \<Rightarrow> bool" where
  "abandoned_key s k \<longleftrightarrow> k \<in> set (abandoned s)"

definition facts :: "provider \<Rightarrow> job \<Rightarrow> job_facts" where
  "facts s j =
     \<lparr>jf_upload = find_upload (jb_id j) (uploads s), jf_attaches = filter (\<lambda>a. at_id a = jb_id j) (attaches s),
      jf_removal = (jb_id j \<in> set (removals s)),
      jf_saved = (jb_key j \<noteq> None \<and> saved_key s (the (jb_key j))),
      jf_abandoned = (jb_key j \<noteq> None \<and> abandoned_key s (the (jb_key j)))\<rparr>"

definition on_screen :: "job_facts \<Rightarrow> upload_status set \<Rightarrow> bool" where
  "on_screen f sts \<longleftrightarrow> (case jf_upload f of None \<Rightarrow> True | Some u \<Rightarrow> status u \<in> sts)"

definition fresh :: "job_facts \<Rightarrow> bool" where
  "fresh f \<longleftrightarrow> jf_attaches f = [] \<and> \<not> jf_saved f \<and> \<not> jf_abandoned f"

definition sending_ok :: "job \<Rightarrow> job_facts \<Rightarrow> bool" where
  "sending_ok j f \<longleftrightarrow> fresh f \<and>
     (case jb_task j of
        Task_presign \<Rightarrow> jb_key j = None \<and> jf_upload f \<noteq> None \<and> on_screen f {St_presigning}
      | Task_post x \<Rightarrow> jb_key j \<noteq> None \<and> (jf_upload f = None \<longleftrightarrow> x) \<and> on_screen f {St_uploading}
      | Task_multipart us \<Rightarrow>
          (phase us = Initiating \<longrightarrow> jb_key j = None) \<and> (phase us \<in> {Uploading, Completing} \<longrightarrow> jb_key j \<noteq> None) \<and>
          phase us \<noteq> Finished \<and> (\<forall>e. phase us \<noteq> Rejected e) \<and> on_screen f {St_presigning, St_uploading} \<and>
          (jf_upload f = None \<longrightarrow> Multipart.aborted us \<and> phase us \<noteq> Completing)
      | Task_save t \<Rightarrow> False
      | Task_ended r \<Rightarrow> on_screen f {St_error})"

definition stored_ok :: "job \<Rightarrow> string \<Rightarrow> job_facts \<Rightarrow> bool" where
  "stored_ok j k f \<longleftrightarrow> jb_key j = Some k \<and>
     (case jb_task j of
        Task_save t \<Rightarrow> fresh f \<and> on_screen f {St_saving}
      | Task_ended r \<Rightarrow>
          fresh f \<and> jf_upload f \<noteq> None \<and> on_screen f {St_waiting} \<or>
          (\<exists>a. jf_attaches f = [a] \<and> row_key (at_row a) = k \<and> \<not> jf_saved f \<and> \<not> jf_abandoned f \<and> on_screen f {St_saving}) \<or>
          jf_attaches f = [] \<and> jf_saved f \<and> \<not> jf_abandoned f \<and> on_screen f {St_done} \<or>
          jf_attaches f = [] \<and> \<not> jf_saved f \<and> jf_abandoned f \<and> on_screen f {St_error}
      | _ \<Rightarrow> False)"

definition job_ok :: "job \<Rightarrow> job_facts \<Rightarrow> bool" where
  "job_ok j f \<longleftrightarrow> jb_key j \<noteq> Some [] \<and> (jf_removal f \<longrightarrow> on_screen f {St_done}) \<and>
     (case jf_upload f of None \<Rightarrow> True | Some u \<Rightarrow> s3Key u = jb_key j) \<and>
     (case jb_uploaded j of None \<Rightarrow> sending_ok j f | Some k \<Rightarrow> stored_ok j k f)"

definition ids :: "provider \<Rightarrow> string set" where
  "ids s = jb_id ` set (jobs s)"

definition provider_wf :: "provider \<Rightarrow> bool" where
  "provider_wf s \<longleftrightarrow>
     distinct (map jb_id (jobs s)) \<and> au_id ` set (uploads s) \<subseteq> ids s \<and> at_id ` set (attaches s) \<subseteq> ids s \<and> set (removals s) \<subseteq> ids s \<and>
     (\<forall>j \<in> set (jobs s). \<forall>k. jb_key j = Some k \<longrightarrow> k \<in> set (issued s)) \<and>
     (\<forall>j \<in> set (jobs s). \<forall>j' \<in> set (jobs s). jb_key j = jb_key j' \<longrightarrow> jb_key j = None \<or> jb_id j = jb_id j') \<and>
     row_key ` set (rows s) \<subseteq> set (issued s) \<and> set (abandoned s) \<subseteq> set (issued s) \<and>
     (\<forall>k \<in> set (bucket s). \<exists>j \<in> set (jobs s). jb_uploaded j = Some k)"

definition provider_inv :: "provider \<Rightarrow> bool" where
  "provider_inv s \<longleftrightarrow> provider_wf s \<and> (\<forall>j \<in> set (jobs s). job_ok j (facts s j))"

subsection \<open>Effects of the operations\<close>

lemma find_upload_update:
  "(\<And>u. au_id (f u) = au_id u) \<Longrightarrow>
   find_upload i (map (\<lambda>u. if au_id u = i' then f u else u) us) = (if i = i' then map_option f (find_upload i us) else find_upload i us)"
  by (induction us) (auto simp: find_upload_def)

lemma find_upload_remove: "find_upload i (filter (\<lambda>u. au_id u \<noteq> i') us) = (if i = i' then None else find_upload i us)"
  by (induction us) (auto simp: find_upload_def)

lemma find_upload_append: "find_upload i (us @ vs) = (case find_upload i us of Some u \<Rightarrow> Some u | None \<Rightarrow> find_upload i vs)"
  by (induction us) (auto simp: find_upload_def)

lemma find_upload_SomeD: "find_upload i us = Some u \<Longrightarrow> u \<in> set us \<and> au_id u = i"
  by (auto simp: find_upload_def find_Some_iff)

lemma find_upload_None_iff: "find_upload i us = None \<longleftrightarrow> i \<notin> au_id ` set us"
  by (auto simp: find_upload_def find_None_iff)

lemma find_job_SomeD: "find_job i s = Some j \<Longrightarrow> j \<in> set (jobs s) \<and> jb_id j = i"
  by (auto simp: find_job_def find_Some_iff)

lemma find_job_None_iff: "find_job i s = None \<longleftrightarrow> i \<notin> ids s"
  by (auto simp: find_job_def find_None_iff ids_def)

lemma job_unique: "provider_wf s \<Longrightarrow> j \<in> set (jobs s) \<Longrightarrow> j' \<in> set (jobs s) \<Longrightarrow> jb_id j = jb_id j' \<Longrightarrow> j = j'"
  by (auto simp: provider_wf_def distinct_map inj_on_def)

lemma other_key:
  assumes "provider_wf s" "j \<in> set (jobs s)" "x \<in> set (jobs s)" "jb_id x \<noteq> jb_id j" "jb_key j = Some k"
  shows "jb_key x \<noteq> Some k"
  using assms unfolding provider_wf_def by (metis option.distinct(1))

lemma one_job_map:
  assumes "provider_wf s" "j \<in> set (jobs s)"
  shows "map (\<lambda>x. if jb_id x = jb_id j then f x else x) (jobs s) = map (\<lambda>x. if jb_id x = jb_id j then f j else x) (jobs s)"
  using assms job_unique by (intro map_cong) auto

text \<open>
  \<open>touches i k s s'\<close>: between two states nothing changed that concerns another identity than \<open>i\<close> or another key than \<open>k\<close>.
\<close>

definition touches :: "string \<Rightarrow> string option \<Rightarrow> provider \<Rightarrow> provider \<Rightarrow> bool" where
  "touches i k s s' \<longleftrightarrow>
     (\<forall>i'. i' \<noteq> i \<longrightarrow> find_upload i' (uploads s') = find_upload i' (uploads s) \<and>
        filter (\<lambda>a. at_id a = i') (attaches s') = filter (\<lambda>a. at_id a = i') (attaches s) \<and>
        (i' \<in> set (removals s') \<longleftrightarrow> i' \<in> set (removals s))) \<and>
     (\<forall>k'. Some k' \<noteq> k \<longrightarrow> (saved_key s' k' \<longleftrightarrow> saved_key s k') \<and> (abandoned_key s' k' \<longleftrightarrow> abandoned_key s k'))"

lemma touches_refl [intro]: "touches i k s s"
  by (simp add: touches_def)

lemma touches_trans: "touches i k s s1 \<Longrightarrow> touches i k s1 s2 \<Longrightarrow> touches i k s s2"
  by (simp add: touches_def)

lemma touches_simps [simp]:
  "(\<And>u. au_id (f u) = au_id u) \<Longrightarrow> touches i k s (updateUpload i f s') \<longleftrightarrow> touches i k s s'"
  "touches i k s (removeUpload i s') \<longleftrightarrow> touches i k s s'"
  "touches i k s (update_job i' g s') \<longleftrightarrow> touches i k s s'"
  "touches i k s (completeUpload i s') \<longleftrightarrow> touches i k s s'"
  "touches i (Some k1) s (abandonUpload k1 s') \<longleftrightarrow> touches i (Some k1) s s'"
  "touches i k s (s'\<lparr>issued := a\<rparr>) \<longleftrightarrow> touches i k s s'"
  "touches i k s (s'\<lparr>bucket := b\<rparr>) \<longleftrightarrow> touches i k s s'"
  "touches i k s (s'\<lparr>aborted_ids := c\<rparr>) \<longleftrightarrow> touches i k s s'"
  "touches i (Some (row_key r)) s (s'\<lparr>rows := rows s' @ [r]\<rparr>) \<longleftrightarrow> touches i (Some (row_key r)) s s'"
  by (auto simp: touches_def updateUpload_def removeUpload_def update_job_def completeUpload_def abandonUpload_def saved_key_def
      abandoned_key_def find_upload_update find_upload_remove set_status_def Let_def)

lemma facts_other:
  assumes "provider_wf s" "j \<in> set (jobs s)" "x \<in> set (jobs s)" "jb_id x \<noteq> jb_id j"
    and t: "touches (jb_id j) k s s'" and k: "k = jb_key j \<or> (\<exists>k1. k = Some k1 \<and> k1 \<notin> set (issued s))"
  shows "facts s' x = facts s x"
proof -
  have "jb_key x \<noteq> k" if "jb_key x \<noteq> None"
    using k that other_key [OF assms(1-4)] assms(1,3) by (auto simp: provider_wf_def)
  then show ?thesis using t assms(4) by (auto simp: facts_def touches_def split: option.splits)
qed

text \<open>A step of one job: the others keep what holds of them.\<close>

lemma one_job:
  assumes inv: "provider_inv s" and j: "j \<in> set (jobs s)" and id: "jb_id j' = jb_id j"
    and jobs: "jobs s' = map (\<lambda>x. if jb_id x = jb_id j then j' else x) (jobs s)"
    and t: "touches (jb_id j) (jb_key j') s s'"
    and key: "jb_key j' = jb_key j \<or> (\<exists>k. jb_key j' = Some k \<and> k \<notin> set (issued s) \<and> k \<in> set (issued s'))"
    and ok: "job_ok j' (facts s' j')"
    and sub: "au_id ` set (uploads s') \<subseteq> ids s" "at_id ` set (attaches s') \<subseteq> ids s" "set (removals s') \<subseteq> ids s"
      "set (issued s) \<subseteq> set (issued s')" "row_key ` set (rows s') \<subseteq> set (issued s')" "set (abandoned s') \<subseteq> set (issued s')"
    and bucket: "set (bucket s') \<subseteq> set (bucket s) \<union> {k. jb_uploaded j' = Some k}" "jb_uploaded j \<noteq> None \<longrightarrow> jb_uploaded j' = jb_uploaded j"
  shows "provider_inv s'"
proof -
  have wf: "provider_wf s" using inv by (simp add: provider_inv_def)
  have i: "map jb_id (jobs s') = map jb_id (jobs s)" using id by (simp add: jobs)
  then have ids: "ids s' = ids s" by (metis ids_def set_map)
  have mem: "x = j' \<or> x \<in> set (jobs s) \<and> jb_id x \<noteq> jb_id j" if "x \<in> set (jobs s')" for x using that by (auto simp: jobs)
  have j': "j' \<in> set (jobs s')" using j by (auto simp: jobs)
  have new: "jb_key x \<noteq> jb_key j' \<or> jb_key x = None" if "x \<in> set (jobs s)" "jb_id x \<noteq> jb_id j" for x
    using key other_key [OF wf j that] that(1) wf by (cases "jb_key x"; cases "jb_key j") (auto simp: provider_wf_def)
  have b: "\<exists>x \<in> set (jobs s'). jb_uploaded x = Some k" if kb: "k \<in> set (bucket s)" for k
  proof -
    obtain x where x: "x \<in> set (jobs s)" "jb_uploaded x = Some k" using kb wf unfolding provider_wf_def by meson
    show ?thesis
    proof (cases "jb_id x = jb_id j")
      case True
      then have "x = j" using job_unique [OF wf x(1) j] by simp
      then show ?thesis using x(2) bucket(2) j' by (intro bexI [of _ j']) auto
    qed (use x in \<open>auto simp: jobs image_iff intro!: bexI [of _ x]\<close>)
  qed
  have "provider_wf s'"
    unfolding provider_wf_def i ids
  proof (intro conjI ballI allI impI)
    show "distinct (map jb_id (jobs s))" using wf by (simp add: provider_wf_def)
    show "k \<in> set (issued s')" if "x \<in> set (jobs s')" "jb_key x = Some k" for x k
      using mem [OF that(1)] that(2) key sub(4) wf j unfolding provider_wf_def by (metis option.inject subsetD)
    show "jb_key x = None \<or> jb_id x = jb_id y" if "x \<in> set (jobs s')" "y \<in> set (jobs s')" "jb_key x = jb_key y" for x y
      using mem [OF that(1)] mem [OF that(2)] that(3) new [of x] new [of y] wf unfolding provider_wf_def by metis
    show "\<exists>x \<in> set (jobs s'). jb_uploaded x = Some k" if "k \<in> set (bucket s')" for k
      using that bucket(1) b [of k] j' by auto
  qed (use sub in auto)
  moreover have "job_ok x (facts s' x)" if "x \<in> set (jobs s')" for x
    using mem [OF that] ok facts_other [OF wf j _ _ t, of x] key inv by (auto simp: provider_inv_def)
  ultimately show ?thesis by (simp add: provider_inv_def)
qed

lemma updateUpload_fields [simp]:
  "saved_key (updateUpload i f s) = saved_key s" "abandoned_key (updateUpload i f s) = abandoned_key s"
  "jobs (updateUpload i f s) = jobs s" "attaches (updateUpload i f s) = attaches s" "removals (updateUpload i f s) = removals s"
  "issued (updateUpload i f s) = issued s" "bucket (updateUpload i f s) = bucket s" "rows (updateUpload i f s) = rows s"
  "abandoned (updateUpload i f s) = abandoned s" "aborted_ids (updateUpload i f s) = aborted_ids s"
  "uploadsRef (updateUpload i f s) = uploadsRef s"
  by (simp_all add: updateUpload_def saved_key_def abandoned_key_def fun_eq_iff)

lemma removeUpload_fields [simp]:
  "saved_key (removeUpload i s) = saved_key s" "abandoned_key (removeUpload i s) = abandoned_key s"
  "jobs (removeUpload i s) = jobs s" "attaches (removeUpload i s) = attaches s" "removals (removeUpload i s) = removals s"
  "issued (removeUpload i s) = issued s" "bucket (removeUpload i s) = bucket s" "rows (removeUpload i s) = rows s"
  "abandoned (removeUpload i s) = abandoned s"
  by (simp_all add: removeUpload_def saved_key_def abandoned_key_def fun_eq_iff)

lemma update_job_fields [simp]:
  "saved_key (update_job i f s) = saved_key s" "abandoned_key (update_job i f s) = abandoned_key s"
  "uploads (update_job i f s) = uploads s" "attaches (update_job i f s) = attaches s" "removals (update_job i f s) = removals s"
  "issued (update_job i f s) = issued s" "bucket (update_job i f s) = bucket s" "rows (update_job i f s) = rows s"
  "abandoned (update_job i f s) = abandoned s" "uploadsRef (update_job i f s) = uploadsRef s"
  by (simp_all add: update_job_def saved_key_def abandoned_key_def fun_eq_iff)

lemma upload_ids [simp]:
  assumes "\<And>u. au_id (f u) = au_id u"
  shows "au_id ` set (uploads (updateUpload i f s)) = au_id ` set (uploads s)"
proof -
  have "map au_id (uploads (updateUpload i f s)) = map au_id (uploads s)" using assms by (simp add: updateUpload_def)
  then show ?thesis by (metis set_map)
qed

lemma upload_ids_remove: "au_id ` set (uploads (removeUpload i s)) \<subseteq> au_id ` set (uploads s)"
  by (auto simp: removeUpload_def)

lemma find_upload_uploads [simp]:
  "(\<And>u. au_id (f u) = au_id u) \<Longrightarrow> find_upload i (uploads (updateUpload i f s)) = map_option f (find_upload i (uploads s))"
  "find_upload i (uploads (removeUpload i s)) = None"
  by (simp_all add: updateUpload_def removeUpload_def find_upload_update find_upload_remove)

lemma inv_parts:
  assumes "provider_inv s"
  shows "provider_wf s" "au_id ` set (uploads s) \<subseteq> ids s" "at_id ` set (attaches s) \<subseteq> ids s" "set (removals s) \<subseteq> ids s"
    "row_key ` set (rows s) \<subseteq> set (issued s)" "set (abandoned s) \<subseteq> set (issued s)"
  using assms by (simp_all add: provider_inv_def provider_wf_def)

lemma inv_key: "provider_inv s \<Longrightarrow> j \<in> set (jobs s) \<Longrightarrow> jb_key j = Some k \<Longrightarrow> k \<in> set (issued s)"
  by (auto simp: provider_inv_def provider_wf_def)

lemma inv_job: "provider_inv s \<Longrightarrow> j \<in> set (jobs s) \<Longrightarrow> job_ok j (facts s j)"
  by (simp add: provider_inv_def)

lemmas ok_defs = job_ok_def sending_ok_def stored_ok_def fresh_def on_screen_def facts_def

lemma same_jobs: "j \<in> set (jobs s) \<Longrightarrow> provider_wf s \<Longrightarrow> map (\<lambda>x. if jb_id x = jb_id j then j else x) (jobs s) = jobs s"
  by (auto intro!: map_idI dest: job_unique)

lemma one_job_same:
  assumes "provider_inv s" "jobs s' = jobs s" "j \<in> set (jobs s)" "touches (jb_id j) (jb_key j) s s'" "job_ok j (facts s' j)"
    "au_id ` set (uploads s') \<subseteq> ids s" "at_id ` set (attaches s') \<subseteq> ids s" "set (removals s') \<subseteq> ids s" "issued s' = issued s"
    "row_key ` set (rows s') \<subseteq> set (issued s')" "set (abandoned s') \<subseteq> set (issued s')" "bucket s' = bucket s"
  shows "provider_inv s'"
  using assms same_jobs [OF assms(3) inv_parts(1) [OF assms(1)]] by (intro one_job [of s j j s']) auto

text \<open>A change of an upload that is not about its status or its key, such as its progress.\<close>

lemma facts_updateUpload_other: "(\<And>u. au_id (f u) = au_id u) \<Longrightarrow> jb_id j \<noteq> i \<Longrightarrow> facts (updateUpload i f s) j = facts s j"
  by (simp add: facts_def) (simp add: updateUpload_def find_upload_update)

lemma patch_inv:
  assumes "provider_inv s" "\<And>u. au_id (f u) = au_id u" "\<And>u. status (f u) = status u" "\<And>u. s3Key (f u) = s3Key u"
  shows "provider_inv (updateUpload i f s)"
proof -
  have "job_ok j (facts (updateUpload i f s) j) = job_ok j (facts s j)" for j
  proof (cases "jb_id j = i")
    case True
    then show ?thesis using assms(2-4) by (cases "find_upload i (uploads s)") (simp_all add: ok_defs cong: option.case_cong task.case_cong)
  qed (simp add: facts_updateUpload_other assms(2))
  then show ?thesis using assms(1,2) by (simp add: provider_inv_def provider_wf_def ids_def)
qed

lemma abandonUpload_fields [simp]:
  "jobs (abandonUpload k s) = jobs s" "uploads (abandonUpload k s) = uploads s" "attaches (abandonUpload k s) = attaches s"
  "removals (abandonUpload k s) = removals s" "issued (abandonUpload k s) = issued s" "bucket (abandonUpload k s) = bucket s"
  "rows (abandonUpload k s) = rows s" "saved_key (abandonUpload k s) = saved_key s" "abandoned_key (abandonUpload k s) k"
  "set (abandoned (abandonUpload k s)) = insert k (set (abandoned s))"
  by (simp_all add: abandonUpload_def saved_key_def abandoned_key_def fun_eq_iff)

lemma completeUpload_fields [simp]:
  "jobs (completeUpload i s) = jobs s" "attaches (completeUpload i s) = attaches s" "rows (completeUpload i s) = rows s"
  "issued (completeUpload i s) = issued s" "bucket (completeUpload i s) = bucket s" "abandoned (completeUpload i s) = abandoned s"
  "saved_key (completeUpload i s) = saved_key s" "abandoned_key (completeUpload i s) = abandoned_key s"
  "uploads (completeUpload i s) = uploads (updateUpload i (set_status St_done) s)" "set (removals (completeUpload i s)) = insert i (set (removals s))"
  by (auto simp: completeUpload_def saved_key_def abandoned_key_def fun_eq_iff Let_def updateUpload_def)

lemma set_status_fields [simp]: "au_id (set_status st u) = au_id u" "status (set_status st u) = st" "s3Key (set_status st u) = s3Key u"
  by (simp_all add: set_status_def)

lemma set_task_fields [simp]:
  "jb_id (set_task t j) = jb_id j" "jb_key (set_task t j) = jb_key j" "jb_uploaded (set_task t j) = jb_uploaded j" "jb_task (set_task t j) = t"
  by (simp_all add: set_task_def)

lemma jobs_update_job: "jobs (update_job i f s) = map (\<lambda>j. if jb_id j = i then f j else j) (jobs s)"
  by (simp add: update_job_def)

lemma live_job_removal:
  assumes "job_ok j (facts s j)" "\<And>r. jb_task j \<noteq> Task_ended r" "jb_id j \<in> set (removals s)"
  shows "find_upload (jb_id j) (uploads s) = None"
proof -
  have "on_screen (facts s j) {St_done}" using assms by (simp add: job_ok_def facts_def)
  then show ?thesis using assms(1,2)
    by (auto simp: ok_defs split: option.splits task.splits)
qed

lemma upload_failed_fields [simp]:
  "attaches (upload_failed j e s) = attaches s" "removals (upload_failed j e s) = removals s" "issued (upload_failed j e s) = issued s"
  "bucket (upload_failed j e s) = bucket s" "rows (upload_failed j e s) = rows s" "saved_key (upload_failed j e s) = saved_key s"
  "jobs (upload_failed j e s) = map (\<lambda>x. if jb_id x = jb_id j then set_task (Task_ended None) x else x) (jobs s)"
  by (simp_all add: upload_failed_def Let_def jobs_update_job split: option.split)

lemma upload_failed_upload:
  "find_upload (jb_id j) (uploads (upload_failed j e s)) \<in>
     {None, map_option (\<lambda>u. u\<lparr>status := St_error, au_error := Some (error_text e)\<rparr>) (find_upload (jb_id j) (uploads s))}"
  by (simp add: upload_failed_def Let_def split: option.split)

lemma upload_failed_abandoned:
  "abandoned (upload_failed j e s) =
     (case jb_uploaded j of Some k \<Rightarrow> if k \<noteq> [] then abandoned s @ [k] else abandoned s | None \<Rightarrow> abandoned s)"
  by (simp add: upload_failed_def Let_def abandonUpload_def split: option.split)

lemma upload_failed_touches:
  assumes "\<And>k. jb_uploaded j = Some k \<Longrightarrow> jb_key j = Some k"
  shows "touches (jb_id j) (jb_key j) s (upload_failed j e s)"
proof -
  define s1 where "s1 = (case jb_uploaded j of Some key \<Rightarrow> if key \<noteq> [] then abandonUpload key s else s | None \<Rightarrow> s)"
  have "touches (jb_id j) (jb_key j) s s1"
  proof (cases "jb_uploaded j")
    case (Some k)
    then show ?thesis using assms [of k] by (simp add: s1_def touches_refl)
  qed (simp add: s1_def touches_refl)
  then show ?thesis unfolding upload_failed_def s1_def [symmetric] Let_def by simp
qed

lemma failed_job_ok:
  assumes ok: "job_ok j (facts s j)" and live: "\<And>r. jb_task j \<noteq> Task_ended r"
    and up: "jf_upload f \<in> {None, map_option g (jf_upload (facts s j))}" "\<And>u. status (g u) = St_error" "\<And>u. s3Key (g u) = s3Key u"
    and rest: "jf_attaches f = jf_attaches (facts s j)" "jf_removal f = jf_removal (facts s j)" "jf_saved f = jf_saved (facts s j)"
      "jf_abandoned f = (jf_abandoned (facts s j) \<or> jb_uploaded j \<noteq> None)"
  shows "job_ok (set_task (Task_ended None) j) f"
proof (cases "jf_upload f")
  case None
  show ?thesis
  proof (cases "jb_uploaded j")
    case (Some k)
    then show ?thesis using ok live rest None by (cases "jb_task j") (auto simp: job_ok_def stored_ok_def fresh_def on_screen_def)
  qed (use ok rest None in \<open>simp add: job_ok_def sending_ok_def fresh_def on_screen_def\<close>)
next
  case (Some v)
  then obtain u where u: "jf_upload (facts s j) = Some u" "v = g u" using up(1) by (cases "jf_upload (facts s j)") auto
  then have "\<not> jf_removal f" using live_job_removal [OF ok live] rest(2) by (auto simp: facts_def)
  then show ?thesis
  proof (cases "jb_uploaded j")
    case (Some k)
    then show ?thesis using ok live rest \<open>jf_upload f = Some v\<close> u up \<open>\<not> jf_removal f\<close>
      by (cases "jb_task j") (auto simp: job_ok_def stored_ok_def fresh_def on_screen_def)
  qed (use ok rest u up \<open>jf_upload f = Some v\<close> in \<open>simp add: job_ok_def sending_ok_def fresh_def on_screen_def\<close>)
qed

lemma upload_failed_inv:
  assumes inv: "provider_inv s" and j: "j \<in> set (jobs s)" and live: "\<And>r. jb_task j \<noteq> Task_ended r"
  shows "provider_inv (upload_failed j e s)"
proof -
  note ok = inv_job [OF inv j] and parts = inv_parts [OF inv]
  have up: "jb_key j = Some k" "k \<noteq> []" if "jb_uploaded j = Some k" for k using ok that by (auto simp: job_ok_def stored_ok_def)
  let ?j = "set_task (Task_ended None) j" and ?s = "upload_failed j e s"
  show ?thesis
  proof (rule one_job [OF inv j, of ?j])
    show "jobs ?s = map (\<lambda>x. if jb_id x = jb_id j then ?j else x) (jobs s)"
      using one_job_map [OF parts(1) j] by simp
    show "touches (jb_id j) (jb_key ?j) s ?s" using upload_failed_touches [OF up(1)] by simp
    show "job_ok ?j (facts ?s ?j)"
    proof (rule failed_job_ok [OF ok live])
      show "jf_upload (facts ?s ?j) \<in> {None, map_option (\<lambda>u. u\<lparr>status := St_error, au_error := Some (error_text e)\<rparr>) (jf_upload (facts s j))}"
        using upload_failed_upload [of j e s] by (simp add: facts_def)
      show "jf_abandoned (facts ?s ?j) = (jf_abandoned (facts s j) \<or> jb_uploaded j \<noteq> None)"
        using up by (auto simp: facts_def abandoned_key_def upload_failed_abandoned split: option.split)
    qed (simp_all add: facts_def)
    show "au_id ` set (uploads ?s) \<subseteq> ids s"
      using parts(2) upload_ids_remove [of "jb_id j"] unfolding upload_failed_def Let_def
      by (auto simp: removeUpload_def updateUpload_def split: option.splits)
    show "set (abandoned ?s) \<subseteq> set (issued ?s)"
      using parts(6) up(1) inv_key [OF inv j] by (auto simp: upload_failed_abandoned split: option.split)
  qed (use parts in simp_all)
qed

lemma field_updates [simp]:
  "saved_key (s\<lparr>issued := a\<rparr>) = saved_key s" "abandoned_key (s\<lparr>issued := a\<rparr>) = abandoned_key s"
  "saved_key (s\<lparr>bucket := b\<rparr>) = saved_key s" "abandoned_key (s\<lparr>bucket := b\<rparr>) = abandoned_key s"
  "saved_key (s\<lparr>attaches := c\<rparr>) = saved_key s" "abandoned_key (s\<lparr>attaches := c\<rparr>) = abandoned_key s"
  "saved_key (s\<lparr>aborted_ids := d\<rparr>) = saved_key s" "abandoned_key (s\<lparr>aborted_ids := d\<rparr>) = abandoned_key s"
  "saved_key (s\<lparr>rows := rows s @ [r]\<rparr>) k \<longleftrightarrow> saved_key s k \<or> k = row_key r" "abandoned_key (s\<lparr>rows := e\<rparr>) = abandoned_key s"
  "uploads (updateUpload i f (s\<lparr>issued := a\<rparr>)) = uploads (updateUpload i f s)"
  "uploads (updateUpload i f (update_job i' g s)) = uploads (updateUpload i f s)"
  by (auto simp: saved_key_def abandoned_key_def fun_eq_iff updateUpload_def)

lemma unissued:
  assumes "provider_inv s" "k \<notin> set (issued s)"
  shows "\<not> saved_key s k" "\<not> abandoned_key s k"
  using inv_parts(5,6) [OF assms(1)] assms(2) by (auto simp: saved_key_def abandoned_key_def)

lemma issue_key_inv:
  assumes inv: "provider_inv s" and j: "j \<in> set (jobs s)" and key: "new_key key s" "jb_key j = None" "jb_uploaded j = None"
    and live: "\<And>r. jb_task j \<noteq> Task_ended r"
    and task: "t = Task_post False \<and> find_upload (jb_id j) (uploads s) \<noteq> None \<or>
      (\<exists>us. t = Task_multipart us \<and> phase us = Uploading \<and> (find_upload (jb_id j) (uploads s) = None \<longrightarrow> Multipart.aborted us))"
  shows "provider_inv (issue_key j key t s)"
proof -
  note ok = inv_job [OF inv j] and parts = inv_parts [OF inv]
  let ?j = "j\<lparr>jb_key := Some key, jb_task := t\<rparr>" and ?s = "issue_key j key t s"
  have s: "jobs ?s = map (\<lambda>x. if jb_id x = jb_id j then x\<lparr>jb_key := Some key, jb_task := t\<rparr> else x) (jobs s)"
    "set (issued ?s) = insert key (set (issued s))" "attaches ?s = attaches s" "removals ?s = removals s" "rows ?s = rows s"
    "abandoned ?s = abandoned s" "bucket ?s = bucket s" "saved_key ?s = saved_key s" "abandoned_key ?s = abandoned_key s"
    "find_upload (jb_id j) (uploads ?s) = map_option (\<lambda>u. u\<lparr>status := St_uploading, s3Key := Some key\<rparr>) (find_upload (jb_id j) (uploads s))"
    "au_id ` set (uploads ?s) = au_id ` set (uploads s)"
    by (simp_all add: issue_key_def jobs_update_job)
  have f: "fresh (facts s j)" "jb_id j \<in> set (removals s) \<Longrightarrow> find_upload (jb_id j) (uploads s) = None"
    using ok key(3) live_job_removal [OF ok live] by (simp_all add: job_ok_def sending_ok_def)
  show ?thesis
  proof (rule one_job [OF inv j, of ?j])
    show "jobs ?s = map (\<lambda>x. if jb_id x = jb_id j then ?j else x) (jobs s)" unfolding s by (rule one_job_map [OF parts(1) j])
    show "touches (jb_id j) (jb_key ?j) s ?s" by (simp add: issue_key_def touches_refl)
    show "job_ok ?j (facts ?s ?j)"
      using f task key unissued [OF inv, of key]
      by (cases "find_upload (jb_id j) (uploads s)")
        (auto simp: job_ok_def sending_ok_def fresh_def on_screen_def facts_def s new_key_def)
  qed (use parts key in \<open>auto simp: s new_key_def\<close>)
qed

lemma upload_stored_fields:
  fixes k :: string
  assumes "persist_target (find_upload (jb_id j) (uploadsRef s)) (jb_opts j) = p"
  defines "t \<equiv> (case p of Some x \<Rightarrow> Task_save x | None \<Rightarrow> Task_ended (Some k))"
  shows "jobs (upload_stored j k s) = map (\<lambda>x. if jb_id x = jb_id j then x\<lparr>jb_uploaded := Some k, jb_task := t\<rparr> else x) (jobs s)"
    "attaches (upload_stored j k s) = attaches s" "removals (upload_stored j k s) = removals s" "issued (upload_stored j k s) = issued s"
    "rows (upload_stored j k s) = rows s" "abandoned (upload_stored j k s) = abandoned s" "bucket (upload_stored j k s) = bucket s @ [k]"
    "touches (jb_id j) (Some k) s (upload_stored j k s)"
    "au_id ` set (uploads (upload_stored j k s)) = au_id ` set (uploads s)"
    "map_option (\<lambda>u. (status u, s3Key u)) (find_upload (jb_id j) (uploads (upload_stored j k s))) =
      map_option (\<lambda>u. (if p = None then St_waiting else St_saving, s3Key u)) (find_upload (jb_id j) (uploads s))"
  using assms
  by (auto simp: upload_stored_def persistUploadTarget_def Let_def jobs_update_job touches_refl option.map_comp comp_def
      split: option.splits)

lemma upload_stored_inv:
  assumes inv: "provider_inv s" and j: "j \<in> set (jobs s)" and key: "jb_key j = Some k" "jb_uploaded j = None"
    and live: "\<And>r. jb_task j \<noteq> Task_ended r" and up: "find_upload (jb_id j) (uploads s) \<noteq> None"
  shows "provider_inv (upload_stored j k s)"
proof -
  note ok = inv_job [OF inv j] and parts = inv_parts [OF inv]
  obtain p where p: "persist_target (find_upload (jb_id j) (uploadsRef s)) (jb_opts j) = p" by simp
  let ?t = "case p of Some x \<Rightarrow> Task_save x | None \<Rightarrow> Task_ended (Some k)"
  let ?j = "j\<lparr>jb_uploaded := Some k, jb_task := ?t\<rparr>" and ?s = "upload_stored j k s"
  note s = upload_stored_fields [OF p, where k = k]
  obtain u where u: "find_upload (jb_id j) (uploads s) = Some u" using up by blast
  then obtain v where v: "find_upload (jb_id j) (uploads ?s) = Some v" "status v = (if p = None then St_waiting else St_saving)" "s3Key v = s3Key u"
    using s(10) by (cases "find_upload (jb_id j) (uploads ?s)") auto
  have f: "fresh (facts s j)" "jb_id j \<notin> set (removals s)" "s3Key u = Some k"
    using ok key live_job_removal [OF ok live] u by (auto simp: job_ok_def sending_ok_def facts_def)
  have sk: "saved_key ?s = saved_key s" "abandoned_key ?s = abandoned_key s" by (simp_all add: saved_key_def abandoned_key_def fun_eq_iff s)
  show ?thesis
  proof (rule one_job [OF inv j, of ?j])
    show "jobs ?s = map (\<lambda>x. if jb_id x = jb_id j then ?j else x) (jobs s)" unfolding s(1) by (rule one_job_map [OF parts(1) j])
    show "touches (jb_id j) (jb_key ?j) s ?s" using s(8) key by simp
    show "job_ok ?j (facts ?s ?j)"
      using f v key ok by (cases p) (auto simp: job_ok_def stored_ok_def fresh_def on_screen_def facts_def s(2,3) sk)
  qed (use parts key in \<open>auto simp: s(2-7,9)\<close>)
qed

lemma save_done_inv:
  assumes inv: "provider_inv s" and j: "j \<in> set (jobs s)" and t: "jb_task j = Task_save t" and k: "jb_uploaded j = Some k"
  shows "provider_inv (save_reply j t k [] s)"
proof -
  note ok = inv_job [OF inv j] and parts = inv_parts [OF inv]
  let ?j = "set_task (Task_ended (Some k)) j" and ?s = "save_reply j t k [] s"
  have s: "jobs ?s = map (\<lambda>x. if jb_id x = jb_id j then set_task (Task_ended (Some k)) x else x) (jobs s)" "attaches ?s = attaches s"
    "set (removals ?s) = insert (jb_id j) (set (removals s))" "issued ?s = issued s" "row_key ` set (rows ?s) = insert k (row_key ` set (rows s))"
    "abandoned ?s = abandoned s" "bucket ?s = bucket s" "au_id ` set (uploads ?s) = au_id ` set (uploads s)"
    "find_upload (jb_id j) (uploads ?s) = map_option (set_status St_done) (find_upload (jb_id j) (uploads s))"
    "saved_key ?s k" "abandoned_key ?s = abandoned_key s"
    by (simp_all add: save_reply_def jobs_update_job job_row_def)
  have f: "fresh (facts s j)" "jb_key j = Some k" "k \<noteq> []" using ok t k by (auto simp: job_ok_def stored_ok_def)
  show ?thesis
  proof (rule one_job [OF inv j, of ?j])
    show "jobs ?s = map (\<lambda>x. if jb_id x = jb_id j then ?j else x) (jobs s)" unfolding s(1) by (rule one_job_map [OF parts(1) j])
    have "row_key (job_row j t k) = k" by (simp add: job_row_def)
    then show "touches (jb_id j) (jb_key ?j) s ?s"
      using touches_simps(9) [of "jb_id j" "job_row j t k" s s] by (simp add: f save_reply_def touches_refl)
    show "job_ok ?j (facts ?s ?j)"
      using f k ok by (cases "find_upload (jb_id j) (uploads s)")
        (auto simp: job_ok_def stored_ok_def fresh_def on_screen_def facts_def s(2,3,9,10,11))
    show "set (removals ?s) \<subseteq> ids s" using parts(4) j by (auto simp: s ids_def)
    show "row_key ` set (rows ?s) \<subseteq> set (issued ?s)" using parts(5) inv_key [OF inv j f(2)] by (simp add: s)
  qed (use parts in \<open>simp_all add: s\<close>)
qed

text \<open>What a step of the multipart upload can do to its phase.\<close>

definition mp_moves :: "upload_state \<Rightarrow> upload_state \<Rightarrow> bool" where
  "mp_moves us us' \<longleftrightarrow>
     (Multipart.aborted us \<longrightarrow> Multipart.aborted us') \<and> (phase us' = Initiating \<longrightarrow> phase us = Initiating) \<and>
     (phase us' = Uploading \<longrightarrow> phase us = Uploading) \<and>
     (phase us' = Completing \<longrightarrow> phase us = Completing \<or> phase us = Uploading \<and> \<not> Multipart.aborted us) \<and>
     (phase us' = Finished \<longrightarrow> phase us \<in> {Completing, Finished})"

lemma part_fields [simp]:
  "phase (part_done p etag us) = phase us" "Multipart.aborted (part_done p etag us) = Multipart.aborted us"
  "phase (part_progress n ld us) = phase us" "Multipart.aborted (part_progress n ld us) = Multipart.aborted us"
  "phase (snd (next_part us)) = phase us" "Multipart.aborted (snd (next_part us)) = Multipart.aborted us"
  by (simp_all add: part_done_def part_progress_def reportProgress_def next_part_def Let_def)

lemma spawn_fields [simp]: "phase (spawn n us) = phase us" "Multipart.aborted (spawn n us) = Multipart.aborted us"
  by (induction n us rule: spawn.induct) (auto simp: next_part_def Let_def split: if_splits)

lemma mp_inner:
  assumes "uploadMultipartToS3 ev us = Some us'" "inner_event ev \<or> (\<exists>e. ev = Initiate_failed e)"
  shows "mp_moves us us'"
proof (cases ev)
  case (Part_done w etag)
  then obtain p w' s' where "next_part (part_done p etag us) = (w', s')" "us' = s'\<lparr>workers := (workers s')[w := w']\<rparr>"
    using assms(1) by (auto simp: Let_def split: if_splits worker.splits prod.splits)
  then have "phase us' = phase us \<and> Multipart.aborted us' = Multipart.aborted us" using part_fields(5,6) [of "part_done p etag us"] by simp
  then show ?thesis by (simp add: mp_moves_def)
qed (use assms in \<open>auto simp: mp_moves_def enter_catch_def Let_def split: if_splits worker.splits phase.splits\<close>)

lemma set_multipart_inv:
  assumes inv: "provider_inv s" and j: "j \<in> set (jobs s)" and t: "jb_task j = Task_multipart us" and m: "mp_moves us us'"
    and ph: "phase us' \<noteq> Finished" "\<And>e. phase us' \<noteq> Rejected e"
  shows "provider_inv (update_job (jb_id j) (set_task (Task_multipart us')) s)"
proof -
  note ok = inv_job [OF inv j] and parts = inv_parts [OF inv]
  let ?s = "update_job (jb_id j) (set_task (Task_multipart us')) s" and ?j = "set_task (Task_multipart us') j"
  have u: "jb_uploaded j = None" using ok t by (cases "jb_uploaded j") (auto simp: job_ok_def stored_ok_def)
  have f: "facts ?s ?j = facts s j" by (simp add: facts_def)
  show ?thesis
  proof (rule one_job [OF inv j, of ?j])
    show "jobs ?s = map (\<lambda>x. if jb_id x = jb_id j then ?j else x) (jobs s)" unfolding jobs_update_job by (rule one_job_map [OF parts(1) j])
    show "job_ok ?j (facts ?s ?j)"
    proof -
      have "sending_ok j (facts s j)" using ok u by (simp add: job_ok_def)
      then have "sending_ok ?j (facts s j)"
        using t m ph unfolding sending_ok_def mp_moves_def by (cases "phase us'"; simp) (metis not_None_eq)
      then show ?thesis unfolding f using ok u by (simp add: job_ok_def cong: option.case_cong)
    qed
  qed (use parts in \<open>auto simp: touches_refl\<close>)
qed

lemma multipart_next_inv:
  assumes inv: "provider_inv s" and j: "j \<in> set (jobs s)" and t: "jb_task j = Task_multipart us" and m: "mp_moves us us'"
  shows "provider_inv (multipart_next j us us' s)"
proof -
  define s1 where "s1 = (if reports us' = reports us then s else updateUpload (jb_id j) (\<lambda>u. u\<lparr>progress := percent (last (reports us'))\<rparr>) s)"
  have i1: "provider_inv s1" using patch_inv [OF inv] inv by (simp add: s1_def)
  have j1: "j \<in> set (jobs s1)" using j by (simp add: s1_def)
  note ok = inv_job [OF i1 j1]
  have live: "\<And>r. jb_task j \<noteq> Task_ended r" using t by simp
  have u: "jb_uploaded j = None" using ok t by (cases "jb_uploaded j") (auto simp: job_ok_def stored_ok_def)
  show ?thesis
  proof (cases "phase us'")
    case Finished
    then have "phase us = Completing" using ok t u m by (simp add: job_ok_def sending_ok_def mp_moves_def)
    then obtain k where "jb_key j = Some k" "find_upload (jb_id j) (uploads s1) \<noteq> None"
      using ok t u by (auto simp: job_ok_def sending_ok_def facts_def)
    then show ?thesis
      using upload_stored_inv [OF i1 j1 _ u live] Finished by (simp add: multipart_next_def s1_def [symmetric] Let_def)
  next
    case (Rejected e)
    then show ?thesis
      using upload_failed_inv [OF i1 j1 live] by (simp add: multipart_next_def s1_def [symmetric] Let_def)
  qed (use set_multipart_inv [OF i1 j1 t m] in \<open>simp_all add: multipart_next_def s1_def [symmetric] Let_def\<close>)
qed

lemma unstored: "job_ok j (facts s j) \<Longrightarrow> (\<And>t. jb_task j \<noteq> Task_save t) \<Longrightarrow> (\<And>r. jb_task j \<noteq> Task_ended r) \<Longrightarrow> jb_uploaded j = None"
  by (cases "jb_uploaded j"; cases "jb_task j") (auto simp: job_ok_def stored_ok_def)

lemma presign_reply_inv:
  assumes inv: "provider_inv s" and j: "j \<in> set (jobs s)" and st: "presign_reply j reply s = Some s'"
  shows "provider_inv s'"
proof -
  have t: "jb_task j = Task_presign" using st by (auto simp: presign_reply_def split: if_splits)
  note ok = inv_job [OF inv j]
  have u: "jb_uploaded j = None" using unstored [OF ok] t by simp
  have "jb_key j = None" "find_upload (jb_id j) (uploads s) \<noteq> None"
    using ok t u by (simp_all add: job_ok_def sending_ok_def facts_def)
  then show ?thesis
    using st t u upload_failed_inv [OF inv j] issue_key_inv [OF inv j]
    by (auto simp: presign_reply_def split: sum.splits if_splits)
qed

lemma initiate_reply_inv:
  assumes inv: "provider_inv s" and j: "j \<in> set (jobs s)" and st: "initiate_reply j reply s = Some s'"
  shows "provider_inv s'"
proof -
  obtain us where t: "jb_task j = Task_multipart us" using st by (auto simp: initiate_reply_def split: task.splits)
  note ok = inv_job [OF inv j]
  have u: "jb_uploaded j = None" using unstored [OF ok] t by simp
  show ?thesis
  proof (cases reply)
    case (Inl e)
    then obtain us' where "uploadMultipartToS3 (Initiate_failed (reply_error e ''Failed to start multipart upload'')) us = Some us'"
      "s' = multipart_next j us us' s"
      using st t by (auto simp: initiate_reply_def split: option.splits)
    then show ?thesis using multipart_next_inv [OF inv j t] mp_inner by blast
  next
    case (Inr key)
    then obtain us' where us': "new_key key s" "uploadMultipartToS3 Initiate_done us = Some us'" "s' = issue_key j key (Task_multipart us') s"
      using st t by (auto simp: initiate_reply_def split: option.splits if_splits)
    then have p: "phase us = Initiating" "phase us' = Uploading" "Multipart.aborted us' = Multipart.aborted us" by (auto split: if_splits)
    have "jb_key j = None" "find_upload (jb_id j) (uploads s) = None \<longrightarrow> Multipart.aborted us"
      using ok t u p(1) by (simp_all add: job_ok_def sending_ok_def facts_def)
    then show ?thesis using us' p t u by (auto intro!: issue_key_inv [OF inv j])
  qed
qed

lemma multipart_event_inv:
  assumes inv: "provider_inv s" and j: "j \<in> set (jobs s)" and st: "multipart_event j ev s = Some s'"
  shows "provider_inv s'"
proof -
  obtain us where t: "jb_task j = Task_multipart us" using st by (auto simp: multipart_event_def split: task.splits)
  obtain us' where "uploadMultipartToS3 ev us = Some us'" "inner_event ev" "s' = multipart_next j us us' s"
    using st t by (auto simp: multipart_event_def split: if_splits)
  then show ?thesis using multipart_next_inv [OF inv j t] mp_inner by blast
qed

lemma post_end_inv:
  assumes inv: "provider_inv s" and j: "j \<in> set (jobs s)" and st: "post_end j parsed e s = Some s'"
  shows "provider_inv s'"
proof -
  obtain x where t: "jb_task j = Task_post x" and x: "(e = Aborted) = x"
    using st by (auto simp: post_end_def split: task.splits if_splits)
  note ok = inv_job [OF inv j]
  have u: "jb_uploaded j = None" using unstored [OF ok] t by simp
  show ?thesis
  proof (cases "uploadToS3 parsed e")
    case (Inl err)
    then show ?thesis using st t x upload_failed_inv [OF inv j] by (auto simp: post_end_def)
  next
    case (Inr y)
    then have "\<not> x" using x by auto
    then have "find_upload (jb_id j) (uploads s) \<noteq> None" using ok t u by (simp add: job_ok_def sending_ok_def facts_def)
    then show ?thesis using st t x u Inr upload_stored_inv [OF inv j] by (auto simp: post_end_def)
  qed
qed

lemma job_step_inv:
  assumes "provider_inv s" "j \<in> set (jobs s)" "job_step e j s = Some s'"
  shows "provider_inv s'"
proof (cases e)
  case (Post_progress i p)
  then show ?thesis using assms by (auto simp: job_step_def intro!: patch_inv split: task.splits)
next
  case (Save_reply i err)
  then obtain t k where "jb_task j = Task_save t" "jb_uploaded j = Some k" "s' = save_reply j t k err s"
    using assms(3) by (auto simp: job_step_def split: task.splits)
  then show ?thesis
    using save_done_inv [OF assms(1,2)] upload_failed_inv [OF assms(1,2)] by (cases "err = []") (auto simp: save_reply_def)
qed (use assms(3) in \<open>auto simp: job_step_def intro: presign_reply_inv [OF assms(1,2)] initiate_reply_inv [OF assms(1,2)]
    multipart_event_inv [OF assms(1,2)] post_end_inv [OF assms(1,2)]\<close>)

end
