(* ===== verification/Upload_Safety.thy ===== *)
theory Upload_Safety
  imports Upload_Inv
begin

text \<open>
  What the upload provider does with stored objects: the actions of the user keep the invariant, and the properties that rest on it.
\<close>

subsection \<open>What the user does\<close>

lemma uploads_removed: "find_upload i (uploads s) = None \<Longrightarrow> removeUpload i s = s"
  by (auto simp: find_upload_None_iff removeUpload_def intro!: provider.equality filter_True)

lemma job_of_upload:
  assumes "provider_inv s" "find_upload i (uploads s) = Some u"
  obtains j where "j \<in> set (jobs s)" "jb_id j = i"
  using inv_parts(2) [OF assms(1)] find_upload_SomeD [OF assms(2)] by (auto simp: ids_def image_iff subset_iff)

lemma removed_ok:
  assumes "job_ok j f" "jf_upload f = Some u" "status u \<in> {St_done, St_error}"
  shows "job_ok j (f\<lparr>jf_upload := None, jf_removal := r\<rparr>)"
proof (cases "jb_uploaded j")
  case None
  then show ?thesis
    using assms by (cases "jb_task j") (auto simp: job_ok_def sending_ok_def fresh_def on_screen_def)
next
  case (Some k)
  then show ?thesis
    using assms by (cases "jb_task j") (auto simp: job_ok_def stored_ok_def fresh_def on_screen_def)
qed

lemma removal_irrelevant [simp]:
  "sending_ok j (f\<lparr>jf_removal := r\<rparr>) = sending_ok j f" "stored_ok j k (f\<lparr>jf_removal := r\<rparr>) = stored_ok j k f"
  by (cases "jb_task j"; simp add: sending_ok_def stored_ok_def fresh_def on_screen_def)+

lemma unlisted_ok:
  assumes "job_ok j f" "jf_upload f = None"
  shows "job_ok j (f\<lparr>jf_upload := None, jf_removal := r\<rparr>)"
proof -
  have f: "f\<lparr>jf_upload := None, jf_removal := r\<rparr> = f\<lparr>jf_removal := r\<rparr>" using assms(2) by (cases f) simp
  show ?thesis unfolding f using assms by (cases "jb_uploaded j") (simp_all add: job_ok_def on_screen_def)
qed

lemma remove_inv:
  assumes inv: "provider_inv s" and st: "\<And>u. find_upload i (uploads s) = Some u \<Longrightarrow> status u \<in> {St_done, St_error}"
    and rs: "set rs \<subseteq> set (removals s)" "\<And>i'. i' \<noteq> i \<Longrightarrow> i' \<in> set rs \<longleftrightarrow> i' \<in> set (removals s)"
  shows "provider_inv (removeUpload i (s\<lparr>removals := rs\<rparr>))"
proof (cases "i \<in> ids s")
  case True
  then obtain j where j: "j \<in> set (jobs s)" "jb_id j = i" by (auto simp: ids_def)
  let ?s = "removeUpload i (s\<lparr>removals := rs\<rparr>)"
  note ok = inv_job [OF inv j(1)] and parts = inv_parts [OF inv]
  have f: "facts ?s j = (facts s j)\<lparr>jf_upload := None, jf_removal := i \<in> set rs\<rparr>"
    by (simp add: facts_def j(2)) (simp add: saved_key_def abandoned_key_def)
  have "job_ok j ((facts s j)\<lparr>jf_upload := None, jf_removal := i \<in> set rs\<rparr>)"
  proof (cases "find_upload i (uploads s)")
    case None
    then show ?thesis using unlisted_ok [OF ok] by (simp add: facts_def j(2))
  next
    case (Some u)
    then show ?thesis using removed_ok [OF ok _ st] by (simp add: facts_def j(2))
  qed
  then have ok': "job_ok j (facts ?s j)" by (simp only: f)
  show ?thesis
  proof (rule one_job_same [OF inv _ j(1) _ ok'])
    show "touches (jb_id j) (jb_key j) s ?s" using rs(2) j(2) by (simp add: touches_def removeUpload_def find_upload_remove saved_key_def abandoned_key_def)
    show "au_id ` set (uploads ?s) \<subseteq> ids s" using parts(2) by (auto simp: removeUpload_def)
    show "set (removals ?s) \<subseteq> ids s" using rs(1) parts(4) by simp
  qed (use parts in simp_all)
next
  case False
  have "find_upload i (uploads s) = None" using False inv_parts(2) [OF inv] by (auto simp: find_upload_None_iff)
  then have r: "removeUpload i (s\<lparr>removals := rs\<rparr>) = s\<lparr>removals := rs\<rparr>" by (intro uploads_removed) simp
  have "i \<notin> set (removals s)" using False inv_parts(4) [OF inv] by auto
  then have m: "set rs = set (removals s)" using rs by (intro set_eqI) (metis subsetD)
  have "facts (s\<lparr>removals := rs\<rparr>) j = facts s j" for j by (simp add: facts_def saved_key_def abandoned_key_def m)
  then show ?thesis using inv by (simp add: r provider_inv_def provider_wf_def ids_def m)
qed

lemma cancelled_ok:
  assumes "job_ok j f" "jf_upload f = Some v" "stoppable (jb_task j)"
  shows "job_ok (set_task (abort_task (jb_task j)) j) (f\<lparr>jf_upload := None, jf_abandoned := jf_abandoned f \<or> status v = St_waiting\<rparr>)"
proof (cases "jb_uploaded j")
  case None
  show ?thesis
  proof (cases "jb_task j")
    case (Task_multipart us)
    then have "phase us \<notin> {Completing, Finished}" "\<And>e. phase us \<noteq> Rejected e" "status v \<noteq> St_waiting"
      using assms None by (auto simp: job_ok_def sending_ok_def stoppable_def on_screen_def)
    then have "abort_task (jb_task j) = Task_multipart (us\<lparr>Multipart.aborted := True\<rparr>)"
      using Task_multipart by (cases "phase us") (auto simp: abort_task_def)
    then show ?thesis
      using assms None Task_multipart \<open>phase us \<notin> _\<close> \<open>status v \<noteq> _\<close>
      by (simp add: job_ok_def sending_ok_def fresh_def on_screen_def)
  qed (use assms None in \<open>auto simp: job_ok_def sending_ok_def fresh_def on_screen_def stoppable_def abort_task_def\<close>)
next
  case (Some k)
  then show ?thesis
    using assms by (cases "jb_task j") (auto simp: job_ok_def stored_ok_def fresh_def on_screen_def abort_task_def)
qed

lemma cancel_inv:
  assumes inv: "provider_inv s" and ref: "uploadsRef s = uploads s"
    and stop: "\<And>j. j \<in> set (jobs s) \<Longrightarrow> jb_id j = i \<Longrightarrow> stoppable (jb_task j)"
  shows "provider_inv (cancelUpload i s)"
proof (cases "find_upload i (uploads s)")
  case None
  then show ?thesis using inv by (simp add: cancelUpload_def ref uploads_removed)
next
  case (Some v)
  then obtain j where j: "j \<in> set (jobs s)" "jb_id j = i" using job_of_upload [OF inv] by blast
  note ok = inv_job [OF inv j(1)] and parts = inv_parts [OF inv]
  let ?j = "set_task (abort_task (jb_task j)) j" and ?s = "cancelUpload i s"
  have key: "s3Key v = jb_key j" "s3Key v \<noteq> Some []" using ok Some by (auto simp: job_ok_def facts_def j(2))
  have wk: "s3Key v \<noteq> None" if "status v = St_waiting"
    using ok Some that by (cases "jb_uploaded j"; cases "jb_task j") (auto simp: job_ok_def sending_ok_def stored_ok_def on_screen_def facts_def j(2))
  have s: "jobs ?s = map (\<lambda>x. if jb_id x = jb_id j then set_task (abort_task (jb_task x)) x else x) (jobs s)"
    "attaches ?s = attaches s" "removals ?s = removals s" "issued ?s = issued s" "bucket ?s = bucket s" "rows ?s = rows s"
    "abandoned ?s = abandoned s @ (if status v = St_waiting then [the (s3Key v)] else [])" "find_upload i (uploads ?s) = None"
    "au_id ` set (uploads ?s) \<subseteq> au_id ` set (uploads s)"
    using Some key wk
    by (auto simp: cancelUpload_def ref Let_def jobs_update_job j(2) abandonUpload_def removeUpload_def find_upload_remove split: option.split)
  have t: "touches (jb_id j) (jb_key j) s ?s"
  proof (cases "s3Key v")
    case None
    then show ?thesis using Some j(2) wk by (simp add: cancelUpload_def ref Let_def touches_refl)
  next
    case (Some k)
    then show ?thesis using \<open>find_upload i (uploads s) = Some v\<close> j(2) key by (auto simp: cancelUpload_def ref Let_def)
  qed
  have f: "facts ?s ?j = (facts s j)\<lparr>jf_upload := None, jf_abandoned := jf_abandoned (facts s j) \<or> status v = St_waiting\<rparr>"
    using wk key by (auto simp: facts_def j(2) s(2,3,7,8) saved_key_def s(6) abandoned_key_def)
  show ?thesis
  proof (rule one_job [OF inv j(1), of ?j])
    show "jobs ?s = map (\<lambda>x. if jb_id x = jb_id j then ?j else x) (jobs s)" unfolding s(1) by (rule one_job_map [OF parts(1) j(1)])
    show "job_ok ?j (facts ?s ?j)" unfolding f by (rule cancelled_ok [OF ok _ stop [OF j]]) (simp add: facts_def j(2) Some)
    show "au_id ` set (uploads ?s) \<subseteq> ids s" using parts(2) s(9) by blast
    show "set (abandoned ?s) \<subseteq> set (issued ?s)" using parts(6) wk key(1) inv_key [OF inv j(1)] by (auto simp: s(4,7))
  qed (use t parts in \<open>auto simp: s(2-6)\<close>)
qed

lemma apply_patch_fields [simp]:
  "au_id (apply_patch p u) = au_id u" "status (apply_patch p u) = status u" "s3Key (apply_patch p u) = s3Key u"
  by (simp_all add: apply_patch_def)

lemma waiting_job:
  assumes "job_ok j f" "jf_upload f = Some u" "status u = St_waiting"
  shows "jb_uploaded j = jb_key j" "jb_key j \<noteq> None" "\<exists>r. jb_task j = Task_ended r" "fresh f" "\<not> jf_removal f"
  using assms by (cases "jb_uploaded j"; cases "jb_task j"; simp add: job_ok_def sending_ok_def stored_ok_def on_screen_def fresh_def; auto)+

lemma attach_started_inv:
  assumes inv: "provider_inv s" and v: "find_upload i (uploads s) = Some v" "status v = St_waiting" and a: "at_id a = i" "Some (row_key (at_row a)) = s3Key v"
  shows "provider_inv ((updateUpload i (set_status St_saving) s)\<lparr>attaches := attaches s @ [a]\<rparr>)"
proof -
  obtain j where j: "j \<in> set (jobs s)" "jb_id j = i" using job_of_upload [OF inv v(1)] by blast
  note ok = inv_job [OF inv j(1)] and parts = inv_parts [OF inv]
  let ?s = "(updateUpload i (set_status St_saving) s)\<lparr>attaches := attaches s @ [a]\<rparr>"
  have u: "jf_upload (facts s j) = Some v" using v by (simp add: facts_def j(2))
  note w = waiting_job [OF ok u v(2)]
  have key: "s3Key v = jb_key j" "jb_key j \<noteq> Some []" using ok u by (simp_all add: job_ok_def)
  have f: "facts ?s j = (facts s j)\<lparr>jf_upload := Some (set_status St_saving v), jf_attaches := [a]\<rparr>"
    using w(4) v a by (simp add: facts_def j(2) fresh_def)
  have "job_ok j (facts ?s j)"
    unfolding f using w key a by (auto simp: job_ok_def stored_ok_def on_screen_def fresh_def)
  moreover have "touches (jb_id j) (jb_key j) s ?s"
    using a(1) by (simp add: touches_def updateUpload_def find_upload_update j(2) saved_key_def abandoned_key_def)
  moreover have "i \<in> ids s" using j by (auto simp: ids_def)
  ultimately show ?thesis
    using parts a(1) by (intro one_job_same [OF inv _ j(1)]) simp_all
qed

lemma attach_inv:
  assumes inv: "provider_inv s" and ref: "uploadsRef s = uploads s"
  shows "provider_inv (attachUpload i patch s)"
proof -
  define s1 where "s1 = updateUpload i (apply_patch patch) s"
  have i1: "provider_inv s1" unfolding s1_def by (intro patch_inv inv) simp_all
  show ?thesis
  proof (cases "find_upload i (uploads s)")
    case None
    then show ?thesis using i1 by (simp add: attachUpload_def ref s1_def [symmetric] Let_def)
  next
    case (Some u)
    define nxt where "nxt = apply_patch patch u"
    have n: "find_upload i (uploads s1) = Some nxt" "map_option (apply_patch patch) (find_upload i (uploadsRef s)) = Some nxt"
      using Some by (simp_all add: s1_def nxt_def ref)
    show ?thesis
    proof (cases "contentBlockId nxt \<notin> {None, Some 0} \<and> s3Key nxt \<notin> {None, Some []} \<and> status nxt = St_waiting")
      case True
      then obtain k where "s3Key nxt = Some k" by auto
      then show ?thesis
        using True i1 attach_started_inv [OF i1 n(1)]
        unfolding attachUpload_def s1_def [symmetric] Let_def n(2)
        by (simp add: persistUploadTarget_def split: option.split)
    qed (use i1 in \<open>auto simp: attachUpload_def s1_def [symmetric] Let_def n(2)\<close>)
  qed
qed

lemma filter_without_nth:
  assumes "n < length xs"
  shows "filter P xs = filter P (take n xs) @ (if P (xs ! n) then [xs ! n] else []) @ filter P (drop (Suc n) xs)"
  by (subst id_take_nth_drop [OF assms]) simp

lemma attach_reply_inv:
  assumes inv: "provider_inv s" and n: "n < length (attaches s)"
  shows "provider_inv (attach_reply (attaches s ! n) err (s\<lparr>attaches := take n (attaches s) @ drop (Suc n) (attaches s)\<rparr>))"
proof -
  define a where "a = attaches s ! n"
  define rest where "rest = take n (attaches s) @ drop (Suc n) (attaches s)"
  define s' where "s' = attach_reply a err (s\<lparr>attaches := rest\<rparr>)"
  have mem: "a \<in> set (attaches s)" using n by (simp add: a_def)
  note parts = inv_parts [OF inv]
  obtain j where j: "j \<in> set (jobs s)" "jb_id j = at_id a" using parts(3) mem by (auto simp: ids_def)
  note ok = inv_job [OF inv j(1)]
  have flt: "filter P (attaches s) = filter P (take n (attaches s)) @ (if P a then [a] else []) @ filter P (drop (Suc n) (attaches s))" for P
    unfolding a_def by (rule filter_without_nth [OF n])
  have "jf_attaches (facts s j) \<noteq> []" using flt [of "\<lambda>x. at_id x = jb_id j"] by (simp add: facts_def j(2))
  then obtain k r where k: "jb_uploaded j = Some k" "jb_task j = Task_ended r" "jf_attaches (facts s j) = [a]" "row_key (at_row a) = k"
      "\<not> jf_saved (facts s j)" "\<not> jf_abandoned (facts s j)" "on_screen (facts s j) {St_saving}" "jb_key j = Some k"
    using ok flt [of "\<lambda>x. at_id x = jb_id j"]
    by (cases "jb_uploaded j"; cases "jb_task j")
      (auto simp: job_ok_def sending_ok_def stored_ok_def fresh_def facts_def j(2) append_eq_Cons_conv)
  have none: "filter (\<lambda>x. at_id x = jb_id j) rest = []"
    using k(3) flt [of "\<lambda>x. at_id x = jb_id j"] by (auto simp: facts_def j(2) rest_def append_eq_Cons_conv Cons_eq_append_conv)
  have f: "facts s' j = \<lparr>jf_upload = map_option (if err = [] then set_status St_done else (\<lambda>u. u\<lparr>status := St_error, au_error := Some err\<rparr>)) (jf_upload (facts s j)),
      jf_attaches = [], jf_removal = (jf_removal (facts s j) \<or> err = []), jf_saved = (err = []), jf_abandoned = (err \<noteq> [])\<rparr>"
    using k none by (auto simp: facts_def s'_def attach_reply_def j(2) saved_key_def)
  have "\<not> jf_removal (facts s j)" if "jf_upload (facts s j) \<noteq> None" using ok k(7) that by (auto simp: job_ok_def on_screen_def)
  then have ok': "job_ok j (facts s' j)"
    using k ok by (cases "jf_upload (facts s j)") (auto simp: f job_ok_def stored_ok_def fresh_def on_screen_def)
  have o: "filter (\<lambda>x. at_id x = i) rest = filter (\<lambda>x. at_id x = i) (attaches s)" if "i \<noteq> at_id a" for i
    using that flt [of "\<lambda>x. at_id x = i"] by (simp add: rest_def)
  have "provider_inv s'"
  proof (rule one_job_same [OF inv _ j(1) _ ok'])
    have t: "touches (at_id a) (Some k) s (s\<lparr>attaches := rest\<rparr>)" using o by (simp add: touches_def)
    show "touches (jb_id j) (jb_key j) s s'"
      using t k(4) touches_simps(9) [of "at_id a" "at_row a" s "s\<lparr>attaches := rest\<rparr>"] by (auto simp: s'_def attach_reply_def j(2) k(8))
    show "row_key ` set (rows s') \<subseteq> set (issued s')" "set (abandoned s') \<subseteq> set (issued s')"
      using parts(5,6) inv_key [OF inv j(1) k(8)] k(4) by (auto simp: s'_def attach_reply_def)
    show "at_id ` set (attaches s') \<subseteq> ids s" "set (removals s') \<subseteq> ids s"
    proof -
      have r: "set rest \<subseteq> set (attaches s)" by (auto simp: rest_def dest: in_set_takeD in_set_dropD)
      have "at_id a \<in> ids s" using parts(3) mem by blast
      then show "at_id ` set (attaches s') \<subseteq> ids s" "set (removals s') \<subseteq> ids s"
        using parts(3,4) image_mono [OF r, of at_id] by (auto simp: s'_def attach_reply_def)
    qed
    show "au_id ` set (uploads s') \<subseteq> ids s" using parts(2) by (simp add: s'_def attach_reply_def)
  qed (simp_all add: s'_def attach_reply_def)
  then show ?thesis by (simp add: s'_def a_def rest_def)
qed

lemma find_upload_single [simp]: "find_upload i [u] = (if au_id u = i then Some u else None)"
  by (simp add: find_upload_def)

lemma start_inv:
  assumes inv: "provider_inv s" and new: "find_job i s = None"
  shows "provider_inv (startVideoUpload i file opts s)"
proof -
  let ?s = "startVideoUpload i file opts s"
  note parts = inv_parts [OF inv]
  have i: "i \<notin> ids s" using new by (simp add: find_job_None_iff)
  have fu: "find_upload i (uploads s) = None" using i parts(2) by (auto simp: find_upload_None_iff)
  have fa: "filter (\<lambda>a. at_id a = i) (attaches s) = []" using i parts(3) by (auto simp: filter_empty_conv)
  have fr: "i \<notin> set (removals s)" using i parts(4) by auto
  obtain j u where ju: "jobs ?s = jobs s @ [j]" "uploads ?s = uploads s @ [u]" "jb_id j = i" "jb_key j = None" "jb_uploaded j = None" "au_id u = i"
      "status u = St_presigning" "s3Key u = None"
      "jb_task j = Task_presign \<or> jb_task j = Task_multipart (upload_init (vf_size file))"
    by (simp add: startVideoUpload_def Let_def)
  have same: "attaches ?s = attaches s" "removals ?s = removals s" "issued ?s = issued s" "bucket ?s = bucket s" "rows ?s = rows s"
    "abandoned ?s = abandoned s" by (simp_all add: startVideoUpload_def Let_def)
  have ids: "ids ?s = insert i (ids s)" by (simp add: ids_def ju)
  have "provider_wf ?s"
    using parts i ju unfolding provider_wf_def same ids
    by (auto simp: ids_def)
  moreover have "job_ok x (facts ?s x)" if "x \<in> set (jobs s)" for x
  proof -
    have "jb_id x \<noteq> i" using that i by (auto simp: ids_def)
    then have "facts ?s x = facts s x"
      by (auto simp: facts_def ju find_upload_append same saved_key_def abandoned_key_def split: option.split)
    then show ?thesis using inv_job [OF inv that] by simp
  qed
  moreover have "job_ok j (facts ?s j)"
  proof -
    have "facts ?s j = \<lparr>jf_upload = Some u, jf_attaches = [], jf_removal = False, jf_saved = False, jf_abandoned = False\<rparr>"
      using fu fa fr ju by (simp add: facts_def same find_upload_append)
    then show ?thesis
      using ju by (auto simp: job_ok_def sending_ok_def fresh_def on_screen_def upload_init_def)
  qed
  ultimately show ?thesis by (simp add: provider_inv_def ju(1))
qed

lemma orderly_step_inv:
  assumes inv: "provider_inv s" and st: "orderly_step e s = Some s'"
  shows "provider_inv s'"
proof -
  have o: "orderly e s" and p: "provider_step e s = Some s'" using st by (auto simp: orderly_step_def split: if_splits)
  have job: ?thesis if "Option.bind (Option.bind (job_event e) (\<lambda>i. find_job i s)) (\<lambda>j. job_step e j s) = Some s'"
    using that by (auto simp: bind_eq_Some_conv dest!: find_job_SomeD intro: job_step_inv [OF inv])
  show ?thesis
  proof (cases e)
    case (Dismiss i)
    then obtain u where "find_upload i (uploads s) = Some u" "status u \<in> {St_done, St_error}" "s' = removeUpload i s"
      using o p by (auto simp: orderly_def provider_step_def split: option.splits if_splits)
    then show ?thesis using remove_inv [OF inv, of i "removals s"] by simp
  next
    case (Removal_timer i)
    then have i: "i \<in> set (removals s)" "s' = removeUpload i (s\<lparr>removals := remove1 i (removals s)\<rparr>)"
      using p by (auto simp: provider_step_def split: if_splits)
    then obtain j where "j \<in> set (jobs s)" "jb_id j = i" using inv_parts(4) [OF inv] by (auto simp: ids_def)
    then have "status u \<in> {St_done, St_error}" if "find_upload i (uploads s) = Some u" for u
      using inv_job [OF inv, of j] i(1) that by (simp add: job_ok_def facts_def on_screen_def)
    then show ?thesis
      using i(2) remove_inv [OF inv, of i "remove1 i (removals s)"] set_remove1_subset [of i "removals s"] by (simp add: in_set_remove1)
  next
    case Render
    then have "s' = s\<lparr>uploadsRef := uploads s\<rparr>" using p by (simp add: provider_step_def)
    moreover have "facts (s\<lparr>uploadsRef := uploads s\<rparr>) j = facts s j" for j by (simp add: facts_def saved_key_def abandoned_key_def)
    ultimately show ?thesis using inv by (simp add: provider_inv_def provider_wf_def ids_def)
  next
    case (Start i fl opts)
    then show ?thesis using p start_inv [OF inv] by (auto simp: provider_step_def split: if_splits)
  next
    case (Attach_reply n err)
    then show ?thesis using p attach_reply_inv [OF inv] by (auto simp: provider_step_def split: if_splits)
  next
    case (Cancel i)
    then show ?thesis using o p cancel_inv [OF inv] by (auto simp: orderly_def provider_step_def)
  next
    case (Attach i patch)
    then show ?thesis using o p attach_inv [OF inv] by (auto simp: orderly_def provider_step_def)
  next
    case (Complete_deferred i)
    then show ?thesis using o by (simp add: orderly_def)
  qed (use p job in \<open>simp_all add: provider_step_def\<close>)
qed

interpretation orderly: safe_machine orderly_step "\<lambda>s. s = provider_start" provider_inv
proof unfold_locales
  show "provider_inv s" if "s = provider_start" for s using that by (simp add: provider_inv_def provider_wf_def provider_start_def ids_def)
qed (rule orderly_step_inv)

subsection \<open>Properties\<close>

text \<open>
  C39: in every orderly run each object in the bucket is accounted for: it was saved in a row, or the service was told to abandon it, or
  its save is under way, or its upload is on screen, waiting to be attached. No object is both saved and abandoned, so no row refers to an
  object that is cleaned up.
\<close>

theorem stored_objects_accounted:
  assumes "run orderly_step provider_start es = Some s" "k \<in> set (bucket s)"
  shows "\<not> (saved_key s k \<and> abandoned_key s k) \<and>
    (saved_key s k \<or> abandoned_key s k \<or> (\<exists>j \<in> set (jobs s). \<exists>t. jb_uploaded j = Some k \<and> jb_task j = Task_save t) \<or>
     (\<exists>a \<in> set (attaches s). row_key (at_row a) = k) \<or> (\<exists>u \<in> set (uploads s). status u = St_waiting \<and> s3Key u = Some k))"
proof -
  have inv: "provider_inv s" using orderly.run_inv [OF assms(1)] by simp
  obtain j where j: "j \<in> set (jobs s)" "jb_uploaded j = Some k"
    using inv assms(2) unfolding provider_inv_def provider_wf_def by meson
  have ok: "jb_key j = Some k" "stored_ok j k (facts s j)" "\<And>u. jf_upload (facts s j) = Some u \<Longrightarrow> s3Key u = Some k"
    using inv_job [OF inv j(1)] j(2) by (auto simp: job_ok_def stored_ok_def)
  have up: "u \<in> set (uploads s)" if "jf_upload (facts s j) = Some u" for u using that find_upload_SomeD by (auto simp: facts_def)
  have at: "a \<in> set (attaches s)" if "jf_attaches (facts s j) = [a]" for a
  proof -
    have "a \<in> set (filter (\<lambda>x. at_id x = jb_id j) (attaches s))" using that by (simp add: facts_def)
    then show ?thesis by simp
  qed
  have sk: "jf_saved (facts s j) = saved_key s k" "jf_abandoned (facts s j) = abandoned_key s k" using ok(1) by (simp_all add: facts_def)
  show ?thesis
  proof (cases "jb_task j")
    case (Task_save t)
    then show ?thesis using ok(2) j sk by (auto simp: stored_ok_def fresh_def)
  next
    case (Task_ended r)
    then consider
        u where "fresh (facts s j)" "jf_upload (facts s j) = Some u" "status u = St_waiting"
      | a where "jf_attaches (facts s j) = [a]" "row_key (at_row a) = k" "\<not> jf_saved (facts s j)"
      | "jf_saved (facts s j) \<noteq> jf_abandoned (facts s j)"
      using ok(2) by (auto simp: stored_ok_def on_screen_def)
    then show ?thesis
    proof cases
      case 1
      then show ?thesis using ok(3) up sk by (auto simp: fresh_def)
    qed (use at sk in auto)
  qed (use ok(2) in \<open>simp_all add: stored_ok_def\<close>)
qed

definition sample_opts :: UploadStartOpts where
  "sample_opts = \<lparr>o_contentBlockId = Some 7, o_deferPersistence = None, o_cohortRecording = None, o_linkTo = None, o_linkLabel = None\<rparr>"

definition sample_file :: video_file where
  "sample_file = \<lparr>vf_name = ''intro.mp4'', vf_size = 10, vf_type = []\<rparr>"

definition failed_save :: "provider_event list" where
  "failed_save = [Start ''a'' sample_file sample_opts, Presign_reply ''a'' (Inr ''k''), Render, Post_end ''a'' None (Load 204 None), Render,
     Save_reply ''a'' ''no'']"

lemmas provider_defs =
  provider_start_def provider_step_def startVideoUpload_def find_job_def find_upload_def job_event_def job_step_def presign_reply_def
  new_key_def issue_key_def updateUpload_def update_job_def removeUpload_def cancelUpload_def abort_task_def set_task_def post_end_def
  upload_stored_def persistUploadTarget_def persist_target_def coalesce_def set_status_def save_reply_def upload_failed_def
  abandonUpload_def completeUpload_def job_row_def saved_key_def abandoned_key_def sample_file_def sample_opts_def MULTIPART_UPLOAD_THRESHOLD_def Let_def

theorem stored_objects_accounted_witness:
  "case run orderly_step provider_start failed_save of
     None \<Rightarrow> False
   | Some s \<Rightarrow> ''k'' \<in> set (bucket s) \<and> abandoned_key s ''k'' \<and> \<not> saved_key s ''k''"
proof -
  have "case run orderly_step provider_start failed_save of None \<Rightarrow> False | Some s \<Rightarrow> ''k'' \<in> set (bucket s) \<and> abandoned_key s ''k''"
    by (simp add: failed_save_def orderly_step_def orderly_def provider_defs)
  then show ?thesis
  proof (rule case_someE)
    fix s assume r: "run orderly_step provider_start failed_save = Some s" and k: "''k'' \<in> set (bucket s) \<and> abandoned_key s ''k''"
    have "\<not> saved_key s ''k''" using stored_objects_accounted [OF r, of "''k''"] k by blast
    then show ?thesis using k by (simp add: r)
  qed
qed


end
