(* ===== verification/JsDate.thy ===== *)
theory JsDate
  imports Prelude
begin

text \<open>
  \<^verbatim>\<open>new Date(s).getTime()\<close>, which the clients use to order messages, submissions and recordings. A
  time value is a number of milliseconds since 1970-01-01T00:00Z; \<open>None\<close> is \<open>NaN\<close>. \<open>Date_parse\<close> reads the
  date-time format of the language (date-only forms are UTC, forms with a time and no offset are
  local). What the language leaves to the implementation is the record \<open>date_host\<close>: the local
  time zone and the reading of strings outside the format. \<open>toISOString\<close> prints a time value, and
  the last section shows that the two are inverse to each other.
\<close>

record date_host =
  utc_of_local :: "int \<Rightarrow> int"
  local_of_utc :: "int \<Rightarrow> int"
  legacy_parse :: "string \<Rightarrow> int option"

section \<open>The calendar\<close>

definition DayFromYear :: "int \<Rightarrow> int" where
  "DayFromYear y = 365 * (y - 1970) + (y - 1969) div 4 - (y - 1901) div 100 + (y - 1601) div 400"

definition leap_year :: "int \<Rightarrow> bool" where
  "leap_year y \<longleftrightarrow> y mod 4 = 0 \<and> (y mod 100 \<noteq> 0 \<or> y mod 400 = 0)"

text \<open>Days before month \<open>m\<close> (1 to 13) in a common or leap year.\<close>

definition days_before :: "bool \<Rightarrow> int \<Rightarrow> int" where
  "days_before leap m =
     (if m \<le> 1 then 0 else if m = 2 then 31 else
      (if leap then 1 else 0) +
      (if m = 3 then 59 else if m = 4 then 90 else if m = 5 then 120 else if m = 6 then 151 else
       if m = 7 then 181 else if m = 8 then 212 else if m = 9 then 243 else if m = 10 then 273 else
       if m = 11 then 304 else if m = 12 then 334 else 365))"

definition days_in_month :: "bool \<Rightarrow> int \<Rightarrow> int" where
  "days_in_month leap m = days_before leap (m + 1) - days_before leap m"

definition MakeDay :: "int \<Rightarrow> int \<Rightarrow> int \<Rightarrow> int" where
  "MakeDay y m d = DayFromYear y + days_before (leap_year y) m + d - 1"

definition MakeTime :: "int \<Rightarrow> int \<Rightarrow> int \<Rightarrow> int \<Rightarrow> int" where
  "MakeTime h mi s ms = ((h * 60 + mi) * 60 + s) * 1000 + ms"

definition msPerDay :: int where
  "msPerDay = 86400000"

definition MakeDate :: "int \<Rightarrow> int \<Rightarrow> int" where
  "MakeDate day t = day * msPerDay + t"

section \<open>Reading a date\<close>

text \<open>Exactly \<open>n\<close> digits at the front of a string.\<close>

definition read_digits :: "nat \<Rightarrow> string \<Rightarrow> (int \<times> string) option" where
  "read_digits n s =
     (if n \<le> length s \<and> list_all is_digit (take n s) then Some (int (digits_val 0 (take n s)), drop n s) else None)"

definition read_char :: "char \<Rightarrow> string \<Rightarrow> string option" where
  "read_char c s = (case s of [] \<Rightarrow> None | x # r \<Rightarrow> if x = c then Some r else None)"

definition read_field :: "char \<Rightarrow> nat \<Rightarrow> string \<Rightarrow> (int \<times> string) option" where
  "read_field c n s = Option.bind (read_char c s) (read_digits n)"

text \<open>A year: four digits, or a sign and six digits (but not \<open>-000000\<close>).\<close>

definition read_year :: "string \<Rightarrow> (int \<times> string) option" where
  "read_year s =
     (case s of
        CHR ''+'' # r \<Rightarrow> read_digits 6 r
      | CHR ''-'' # r \<Rightarrow>
          (case read_digits 6 r of
             Some (y, r') \<Rightarrow> if y = 0 then None else Some (- y, r')
           | None \<Rightarrow> None)
      | _ \<Rightarrow> read_digits 4 s)"

record date_fields =
  df_year :: int
  df_month :: int
  df_day :: int

text \<open>\<open>YYYY\<close>, \<open>YYYY-MM\<close> or \<open>YYYY-MM-DD\<close>, with what follows.\<close>

definition read_date :: "string \<Rightarrow> (date_fields \<times> string) option" where
  "read_date s =
     (case read_year s of
        None \<Rightarrow> None
      | Some (y, r) \<Rightarrow>
          (case read_field CHR ''-'' 2 r of
             None \<Rightarrow> Some (\<lparr>df_year = y, df_month = 1, df_day = 1\<rparr>, r)
           | Some (m, r1) \<Rightarrow>
               (case read_field CHR ''-'' 2 r1 of
                  None \<Rightarrow> Some (\<lparr>df_year = y, df_month = m, df_day = 1\<rparr>, r1)
                | Some (d, r2) \<Rightarrow> Some (\<lparr>df_year = y, df_month = m, df_day = d\<rparr>, r2))))"

definition legal_date :: "date_fields \<Rightarrow> bool" where
  "legal_date f \<longleftrightarrow>
     1 \<le> df_month f \<and> df_month f \<le> 12 \<and> 1 \<le> df_day f \<and>
     df_day f \<le> days_in_month (leap_year (df_year f)) (df_month f)"

record time_fields =
  tf_hour :: int
  tf_minute :: int
  tf_second :: int
  tf_ms :: int

text \<open>
  A fraction of a second: the format has three digits; engines read one to nine and keep the
  milliseconds, which is what the server's microsecond timestamps rely on.
\<close>

fun leading_digits :: "string \<Rightarrow> string \<times> string" where
  "leading_digits [] = ([], [])"
| "leading_digits (c # s) =
     (if is_digit c then (let (d, r) = leading_digits s in (c # d, r)) else ([], c # s))"

definition read_fraction :: "string \<Rightarrow> (int \<times> string) option" where
  "read_fraction s =
     (case read_char CHR ''.'' s of
        None \<Rightarrow> Some (0, s)
      | Some r \<Rightarrow>
          (let (d, r') = leading_digits r
           in if d = [] \<or> 9 < length d then None
              else Some (int (digits_val 0 (take 3 (d @ ''00''))), r')))"

text \<open>\<open>HH:mm\<close>, \<open>HH:mm:ss\<close> or \<open>HH:mm:ss.sss\<close>.\<close>

definition read_time :: "string \<Rightarrow> (time_fields \<times> string) option" where
  "read_time s =
     (case read_digits 2 s of
        None \<Rightarrow> None
      | Some (h, r) \<Rightarrow>
          (case read_field CHR '':'' 2 r of
             None \<Rightarrow> None
           | Some (mi, r1) \<Rightarrow>
               (case read_field CHR '':'' 2 r1 of
                  None \<Rightarrow> Some (\<lparr>tf_hour = h, tf_minute = mi, tf_second = 0, tf_ms = 0\<rparr>, r1)
                | Some (sec, r2) \<Rightarrow>
                    (case read_fraction r2 of
                       None \<Rightarrow> None
                     | Some (ms, r3) \<Rightarrow> Some (\<lparr>tf_hour = h, tf_minute = mi, tf_second = sec, tf_ms = ms\<rparr>, r3)))))"

definition legal_time :: "time_fields \<Rightarrow> bool" where
  "legal_time f \<longleftrightarrow>
     tf_hour f \<le> 23 \<and> tf_minute f \<le> 59 \<and> tf_second f \<le> 59 \<or>
     tf_hour f = 24 \<and> tf_minute f = 0 \<and> tf_second f = 0 \<and> tf_ms f = 0"

text \<open>The offset: \<open>Z\<close>, \<open>+HH:mm\<close>, \<open>-HH:mm\<close> (in minutes), or none at the end of the string.\<close>

datatype zone = Offset int | Local_zone

definition read_zone :: "string \<Rightarrow> zone option" where
  "read_zone s =
     (if s = [] then Some Local_zone
      else if s = ''Z'' then Some (Offset 0)
      else if hd s = CHR ''+'' \<or> hd s = CHR ''-'' then
        (case read_digits 2 (tl s) of
           None \<Rightarrow> None
         | Some (h, r) \<Rightarrow>
             (case read_field CHR '':'' 2 r of
                Some (mi, []) \<Rightarrow>
                  if h \<le> 23 \<and> mi \<le> 59
                  then Some (Offset ((if hd s = CHR ''-'' then -1 else 1) * (h * 60 + mi))) else None
              | _ \<Rightarrow> None))
      else None)"

definition date_value :: "date_fields \<Rightarrow> time_fields \<Rightarrow> int" where
  "date_value d t =
     MakeDate (MakeDay (df_year d) (df_month d) (df_day d))
       (MakeTime (tf_hour t) (tf_minute t) (tf_second t) (tf_ms t))"

definition midnight :: time_fields where
  "midnight = \<lparr>tf_hour = 0, tf_minute = 0, tf_second = 0, tf_ms = 0\<rparr>"

text \<open>Time values beyond 8.64e15 ms are \<open>NaN\<close>.\<close>

definition TimeClip :: "int \<Rightarrow> int option" where
  "TimeClip t = (if \<bar>t\<bar> \<le> 8640000000000000 then Some t else None)"

text \<open>\<open>None\<close> here: the string is not of the format, or has an illegal element.\<close>

definition parse_iso :: "date_host \<Rightarrow> string \<Rightarrow> int option" where
  "parse_iso H s =
     (case read_date s of
        None \<Rightarrow> None
      | Some (d, r) \<Rightarrow>
          if \<not> legal_date d then None
          else if r = [] then Some (date_value d midnight)
          else (case Option.bind (read_char CHR ''T'' r) read_time of
                  None \<Rightarrow> None
                | Some (t, r1) \<Rightarrow>
                    if \<not> legal_time t then None
                    else (case read_zone r1 of
                            None \<Rightarrow> None
                          | Some Local_zone \<Rightarrow> Some (utc_of_local H (date_value d t))
                          | Some (Offset m) \<Rightarrow> Some (date_value d t - m * 60000))))"

definition Date_parse :: "date_host \<Rightarrow> string \<Rightarrow> int option" where
  "Date_parse H s =
     (case parse_iso H s of
        Some t \<Rightarrow> TimeClip t
      | None \<Rightarrow> Option.bind (legacy_parse H s) TimeClip)"

section \<open>The calendar day of a time value\<close>

lemma div_step: "0 < n \<Longrightarrow> ((x::int) + 1) div n = x div n + (if (x + 1) mod n = 0 then 1 else 0)"
proof -
  assume n: "0 < n"
  have x: "x + 1 = (x mod n + 1) + (x div n) * n" by simp
  have "((x mod n + 1) + (x div n) * n) div n = x div n + (x mod n + 1) div n"
    by (rule div_mult_self1) (use n in simp)
  then have d: "(x + 1) div n = x div n + (x mod n + 1) div n" by (simp only: x [symmetric])
  have m: "(x + 1) mod n = (x mod n + 1) mod n" by (simp only: mod_add_left_eq)
  show ?thesis
  proof (cases "x mod n + 1 = n")
    case False
    moreover have "0 \<le> x mod n" "x mod n < n" using n by simp_all
    ultimately have "x mod n + 1 < n" "0 < x mod n + 1" by linarith+
    then show ?thesis by (simp add: d m)
  qed (use n in \<open>simp add: d m\<close>)
qed

lemma mod_shift:
  assumes "(c::int) mod n = 0"
  shows "(y - c) mod n = 0 \<longleftrightarrow> y mod n = 0"
proof -
  have "(y - c) mod n = (y - c mod n) mod n" by (rule mod_diff_right_eq [symmetric])
  then show ?thesis unfolding assms by (simp only: diff_zero)
qed

lemma mod_zero_trans: "(y::int) mod n = 0 \<Longrightarrow> m dvd n \<Longrightarrow> y mod m = 0"
  by (simp add: mod_eq_0_iff_dvd dvd_trans [of m n y])

lemma day_arith:
  "365 * ((y::int) + 1 - 1970) + (a + i) - (b + j) + (c + k) = 365 * (y - 1970) + a - b + c + (365 + i - j + k)"
  by simp

lemma DayFromYear_Suc: "DayFromYear (y + 1) = DayFromYear y + (if leap_year y then 366 else 365)"
proof -
  have m: "(y - 1968) mod 4 = 0 \<longleftrightarrow> y mod 4 = 0" "(y - 1900) mod 100 = 0 \<longleftrightarrow> y mod 100 = 0"
    "(y - 1600) mod 400 = 0 \<longleftrightarrow> y mod 400 = 0" by (intro mod_shift, simp)+
  have i: "y mod 400 = 0 \<Longrightarrow> y mod 100 = 0" "y mod 100 = 0 \<Longrightarrow> y mod 4 = 0"
    by (rule mod_zero_trans, assumption, simp)+
  have e: "y - 1969 + 1 = y - 1968" "y - 1901 + 1 = y - 1900" "y - 1601 + 1 = y - 1600" by simp_all
  have d: "(y - 1968) div 4 = (y - 1969) div 4 + (if y mod 4 = 0 then 1 else 0)"
      "(y - 1900) div 100 = (y - 1901) div 100 + (if y mod 100 = 0 then 1 else 0)"
      "(y - 1600) div 400 = (y - 1601) div 400 + (if y mod 400 = 0 then 1 else 0)"
    by (rule div_step [of 4 "y - 1969", unfolded e m] div_step [of 100 "y - 1901", unfolded e m]
        div_step [of 400 "y - 1601", unfolded e m], simp)+
  have s: "y + 1 - 1969 = y - 1968" "y + 1 - 1901 = y - 1900" "y + 1 - 1601 = y - 1600" by simp_all
  have "(if leap_year y then 366 else (365::int)) =
      365 + (if y mod 4 = 0 then 1 else 0) - (if y mod 100 = 0 then 1 else 0) + (if y mod 400 = 0 then 1 else 0)"
    unfolding leap_year_def using i
    by (cases "y mod 4 = 0"; cases "y mod 100 = 0"; cases "y mod 400 = 0") simp_all
  then show ?thesis
    unfolding DayFromYear_def s d by (simp only: day_arith)
qed

lemma DayFromYear_mono: "y \<le> z \<Longrightarrow> DayFromYear y \<le> DayFromYear z"
proof (induction z rule: int_ge_induct)
  case (step i)
  then show ?case by (simp add: DayFromYear_Suc)
qed simp

function year_search :: "int \<Rightarrow> int \<Rightarrow> int" where
  "year_search d y = (if DayFromYear (y + 1) \<le> d then year_search d (y + 1) else y)"
  by pat_completeness auto
termination
  by (relation "measure (\<lambda>(d, y). nat (d - DayFromYear y))") (auto simp: DayFromYear_Suc split: if_splits)

declare year_search.simps [simp del]

definition YearFromDay :: "int \<Rightarrow> int" where
  "YearFromDay d = year_search d (1970 + d div (if 0 \<le> d then 366 else 365))"

definition MonthFromDay :: "bool \<Rightarrow> int \<Rightarrow> int" where
  "MonthFromDay leap n =
     (if n < days_before leap 2 then 1 else if n < days_before leap 3 then 2 else
      if n < days_before leap 4 then 3 else if n < days_before leap 5 then 4 else
      if n < days_before leap 6 then 5 else if n < days_before leap 7 then 6 else
      if n < days_before leap 8 then 7 else if n < days_before leap 9 then 8 else
      if n < days_before leap 10 then 9 else if n < days_before leap 11 then 10 else
      if n < days_before leap 12 then 11 else 12)"

definition day_fields :: "int \<Rightarrow> date_fields" where
  "day_fields d =
     (let y = YearFromDay d; n = d - DayFromYear y; m = MonthFromDay (leap_year y) n
      in \<lparr>df_year = y, df_month = m, df_day = n - days_before (leap_year y) m + 1\<rparr>)"

lemma year_search_bounds:
  "DayFromYear y \<le> d \<Longrightarrow> DayFromYear (year_search d y) \<le> d \<and> d < DayFromYear (year_search d y + 1)"
proof (induction d y rule: year_search.induct)
  case (1 d y)
  show ?case
  proof (cases "DayFromYear (y + 1) \<le> d")
    case True
    with 1 show ?thesis by (subst (1 2) year_search.simps) simp
  next
    case False
    with 1 show ?thesis by (subst (1 2) year_search.simps) simp
  qed
qed

lemma DayFromYear_upper: "0 \<le> k \<Longrightarrow> DayFromYear (1970 + k) \<le> 366 * k"
proof (induction k rule: int_ge_induct)
  case base
  show ?case by (simp add: DayFromYear_def)
next
  case (step i)
  then show ?case using DayFromYear_Suc [of "1970 + i"] by (auto simp: algebra_simps split: if_splits)
qed

lemma DayFromYear_lower: "k \<le> 0 \<Longrightarrow> DayFromYear (1970 + k) \<le> 365 * k"
proof (induction k rule: int_le_induct)
  case base
  show ?case by (simp add: DayFromYear_def)
next
  case (step i)
  then show ?case using DayFromYear_Suc [of "1970 + (i - 1)"] by (auto simp: algebra_simps split: if_splits)
qed

lemma YearFromDay_bounds: "DayFromYear (YearFromDay d) \<le> d \<and> d < DayFromYear (YearFromDay d + 1)"
proof (cases "0 \<le> d")
  case True
  then have "DayFromYear (1970 + d div 366) \<le> 366 * (d div 366)" by (intro DayFromYear_upper) simp
  also have "\<dots> \<le> d" by simp
  finally show ?thesis using True year_search_bounds by (simp add: YearFromDay_def)
next
  case False
  then have "d div 365 \<le> 0" by (simp add: div_nonpos_pos_le0)
  then have "DayFromYear (1970 + d div 365) \<le> 365 * (d div 365)" by (rule DayFromYear_lower)
  also have "\<dots> \<le> d" by simp
  finally show ?thesis using False year_search_bounds by (simp add: YearFromDay_def)
qed

lemma MonthFromDay_bounds:
  assumes "0 \<le> n" "n < (if leap then 366 else 365)"
  shows "1 \<le> MonthFromDay leap n \<and> MonthFromDay leap n \<le> 12 \<and>
    days_before leap (MonthFromDay leap n) \<le> n \<and> n < days_before leap (MonthFromDay leap n + 1)"
  using assms unfolding MonthFromDay_def by (cases leap) (simp_all add: days_before_def)

lemma day_fields_legal:
  "legal_date (day_fields d) \<and> MakeDay (df_year (day_fields d)) (df_month (day_fields d)) (df_day (day_fields d)) = d"
proof -
  let ?y = "YearFromDay d"
  have "0 \<le> d - DayFromYear ?y" "d - DayFromYear ?y < (if leap_year ?y then 366 else 365)"
    using YearFromDay_bounds [of d] by (auto simp: DayFromYear_Suc split: if_splits)
  from MonthFromDay_bounds [OF this] show ?thesis
    by (simp add: day_fields_def Let_def legal_date_def days_in_month_def MakeDay_def)
qed

section \<open>Printing a date\<close>

fun pad :: "nat \<Rightarrow> nat \<Rightarrow> string" where
  "pad 0 k = []"
| "pad (Suc n) k = pad n (k div 10) @ [digit_char (k mod 10)]"

definition show_year :: "int \<Rightarrow> string" where
  "show_year y =
     (if 0 \<le> y \<and> y \<le> 9999 then pad 4 (nat y)
      else if y < 0 then ''-'' @ pad 6 (nat (- y)) else ''+'' @ pad 6 (nat y))"

definition toISOString :: "int \<Rightarrow> string" where
  "toISOString t =
     (let f = day_fields (t div msPerDay); r = t mod msPerDay
      in show_year (df_year f) @ ''-'' @ pad 2 (nat (df_month f)) @ ''-'' @ pad 2 (nat (df_day f)) @ ''T'' @
         pad 2 (nat (r div 3600000)) @ '':'' @ pad 2 (nat (r div 60000 mod 60)) @ '':'' @
         pad 2 (nat (r div 1000 mod 60)) @ ''.'' @ pad 3 (nat (r mod 1000)) @ ''Z'')"

lemma length_pad [simp]: "length (pad n k) = n"
  by (induction n arbitrary: k) auto

lemma pad_eq_Nil [simp]: "pad n k = [] \<longleftrightarrow> n = 0"
  by (metis length_0_conv length_pad)

lemma is_digit_char:
  assumes "d < 10"
  shows "is_digit (digit_char d)"
proof -
  have "list_all (\<lambda>d. is_digit (digit_char d)) [0..<10]" by code_simp
  then show ?thesis using assms by (simp add: list_all_iff)
qed

lemma pad_digits: "list_all is_digit (pad n k)"
  by (induction n arbitrary: k) (auto simp: is_digit_char)

lemma digits_val_pad: "digits_val 0 (pad n k) = k mod 10 ^ n"
proof (induction n arbitrary: k)
  case (Suc n)
  have "of_char (digit_char (k mod 10)) = 48 + k mod 10"
    by (simp add: digit_char_def)
  then have "digits_val 0 (pad (Suc n) k) = (k div 10) mod 10 ^ n * 10 + k mod 10"
    by (simp add: digits_val_append Suc)
  also have "\<dots> = k mod 10 ^ Suc n" by (simp add: mod_mult2_eq mult.commute)
  finally show ?case .
qed simp

lemma read_digits_pad:
  "0 \<le> k \<Longrightarrow> k < 10 ^ n \<Longrightarrow> read_digits n (pad n (nat k) @ r) = Some (k, r)"
proof -
  assume "0 \<le> k" "k < 10 ^ n"
  then have "nat k < 10 ^ n" by (simp add: nat_less_iff)
  with \<open>0 \<le> k\<close> show ?thesis by (simp add: read_digits_def pad_digits digits_val_pad)
qed

lemma read_field_pad:
  "0 \<le> k \<Longrightarrow> k < 10 ^ n \<Longrightarrow> read_field c n (c # pad n (nat k) @ r) = Some (k, r)"
  by (simp add: read_field_def read_char_def read_digits_pad)

lemma digit_not_sign: "is_digit c \<Longrightarrow> c \<noteq> CHR ''+'' \<and> c \<noteq> CHR ''-'' \<and> c \<noteq> CHR ''Z''"
  by (auto simp: is_digit_def)

lemma read_year_digits: "is_digit c \<Longrightarrow> read_year (c # s) = read_digits 4 (c # s)"
  unfolding read_year_def using digit_not_sign [of c]
  by (auto split: char.splits bool.splits)

lemma read_year_show:
  assumes "\<bar>y\<bar> \<le> 999999"
  shows "read_year (show_year y @ r) = Some (y, r)"
proof (cases "0 \<le> y \<and> y \<le> 9999")
  case True
  then obtain c p where p: "pad 4 (nat y) = c # p" by (cases "pad 4 (nat y)") (auto dest: arg_cong [of _ _ length])
  have "is_digit c" using pad_digits [of 4 "nat y"] p by simp
  then have "read_year (pad 4 (nat y) @ r) = read_digits 4 (pad 4 (nat y) @ r)" by (simp add: p read_year_digits)
  with True show ?thesis by (simp add: show_year_def read_digits_pad)
next
  case False
  then consider "y < 0" | "9999 < y" by linarith
  then show ?thesis
  proof cases
    case 1
    then show ?thesis using assms read_digits_pad [of "- y" 6 r] by (simp add: show_year_def read_year_def)
  next
    case 2
    then show ?thesis using assms read_digits_pad [of y 6 r] by (simp add: show_year_def read_year_def)
  qed
qed

lemma leading_digits_pad: "leading_digits (pad n k @ CHR ''Z'' # r) = (pad n k, CHR ''Z'' # r)"
proof -
  have "leading_digits (d @ CHR ''Z'' # r) = (d, CHR ''Z'' # r)" if "list_all is_digit d" for d
    using that by (induction d) (auto simp: is_digit_def)
  then show ?thesis using pad_digits by blast
qed

lemma clock_split:
  assumes "0 \<le> r" "r < msPerDay"
  shows "MakeTime (r div 3600000) (r div 60000 mod 60) (r div 1000 mod 60) (r mod 1000) = r"
    and "r div 3600000 \<le> 23"
proof -
  have d: "r div 60000 = r div 1000 div 60" "r div 3600000 = r div 1000 div 60 div 60"
    by (simp_all add: zdiv_zmult2_eq [symmetric])
  have "r div 1000 = 60 * (r div 1000 div 60) + r div 1000 mod 60"
    "r div 1000 div 60 = 60 * (r div 1000 div 60 div 60) + r div 1000 div 60 mod 60"
    "r = 1000 * (r div 1000) + r mod 1000" by simp_all
  then show "MakeTime (r div 3600000) (r div 60000 mod 60) (r div 1000 mod 60) (r mod 1000) = r"
    unfolding MakeTime_def d by (smt (verit))
  show "r div 3600000 \<le> 23"
    using zdiv_mono1 [of r 86399999 3600000] assms by (simp add: msPerDay_def)
qed

lemma year_range:
  assumes "\<bar>t\<bar> \<le> 8640000000000000"
  shows "\<bar>df_year (day_fields (t div msPerDay))\<bar> \<le> 999999"
proof -
  let ?d = "t div msPerDay" let ?y = "YearFromDay (t div msPerDay)"
  have d: "?d \<le> 100000000" "- 100000000 \<le> ?d"
    using assms zdiv_mono1 [of t 8640000000000000 msPerDay] zdiv_mono1 [of "- 8640000000000000" t msPerDay]
    by (simp_all add: msPerDay_def)
  have v: "100000000 < DayFromYear 1000000" "DayFromYear (- 999999) < - 100000000" by (simp_all add: DayFromYear_def)
  have "\<not> 1000000 \<le> ?y"
    using DayFromYear_mono [of 1000000 ?y] YearFromDay_bounds [of ?d] d v by linarith
  moreover have "\<not> ?y + 1 \<le> - 999999"
    using DayFromYear_mono [of "?y + 1" "- 999999"] YearFromDay_bounds [of ?d] d v by linarith
  ultimately show ?thesis by (simp add: day_fields_def Let_def)
qed

lemma parse_iso_utc:
  assumes "read_date s = Some (d, CHR ''T'' # r)" "legal_date d" "read_time r = Some (t, ''Z'')" "legal_time t"
  shows "parse_iso H s = Some (date_value d t)"
  using assms by (simp add: parse_iso_def read_char_def read_zone_def)

lemma date_value_split:
  assumes "MakeDay (df_year d) (df_month d) (df_day d) = k" "MakeTime (tf_hour t) (tf_minute t) (tf_second t) (tf_ms t) = r"
  shows "date_value d t = k * msPerDay + r"
  using assms by (simp add: date_value_def MakeDate_def)

text \<open>Reading what \<open>toISOString\<close> prints gives the time value back, in every time zone.\<close>

lemma Date_parse_toISOString:
  assumes "\<bar>t\<bar> \<le> 8640000000000000"
  shows "Date_parse H (toISOString t) = Some t"
proof -
  let ?f = "day_fields (t div msPerDay)" let ?r = "t mod msPerDay"
  let ?tf = "\<lparr>tf_hour = ?r div 3600000, tf_minute = ?r div 60000 mod 60, tf_second = ?r div 1000 mod 60, tf_ms = ?r mod 1000\<rparr>"
  have r: "0 \<le> ?r" "?r < msPerDay" by (simp_all add: msPerDay_def)
  have legal: "legal_date ?f" using day_fields_legal by blast
  have dm: "days_in_month l m \<le> 31" for l m by (simp add: days_in_month_def days_before_def)
  have b: "0 \<le> df_month ?f" "df_month ?f < 10 ^ 2" "0 \<le> df_day ?f" "df_day ?f < 10 ^ 2"
    using legal dm [of "leap_year (df_year ?f)" "df_month ?f"] by (simp_all add: legal_date_def)
  have h: "0 \<le> ?r div 3600000" "?r div 3600000 < 10 ^ 2" using clock_split(2) [OF r] r by (simp_all add: pos_imp_zdiv_nonneg_iff)
  let ?time = "pad 2 (nat (?r div 3600000)) @ '':'' @ pad 2 (nat (?r div 60000 mod 60)) @ '':'' @
         pad 2 (nat (?r div 1000 mod 60)) @ ''.'' @ pad 3 (nat (?r mod 1000)) @ ''Z''"
  have date: "read_date (toISOString t) = Some (?f, CHR ''T'' # ?time)"
    using b by (simp add: toISOString_def Let_def read_date_def read_year_show [OF year_range [OF assms]] read_field_pad)
  have frac: "read_fraction (CHR ''.'' # pad 3 (nat (?r mod 1000)) @ ''Z'') = Some (?r mod 1000, ''Z'')"
    using leading_digits_pad [of 3 "nat (?r mod 1000)" "[]"]
    by (auto simp: read_fraction_def read_char_def digits_val_pad nat_less_iff)
  have m2: "0 \<le> x mod 60 \<and> x mod 60 < 100 \<and> x mod 60 \<le> 59" for x :: int
    using pos_mod_bound [of 60 x] pos_mod_sign [of 60 x] by linarith
  have time: "read_time ?time = Some (?tf, ''Z'')"
    using h m2 frac by (simp add: read_time_def read_digits_pad read_field_pad)
  have "date_value ?f ?tf = t div msPerDay * msPerDay + ?r"
    by (rule date_value_split, rule day_fields_legal [THEN conjunct2]) (simp only: time_fields.simps clock_split(1) [OF r])
  moreover have "legal_time ?tf"
    using clock_split(2) [OF r] m2 [of "?r div 60000"] m2 [of "?r div 1000"]
    by (simp only: legal_time_def time_fields.simps simp_thms)
  ultimately have "parse_iso H (toISOString t) = Some t"
    using parse_iso_utc [OF date legal time] by (simp only: div_mult_mod_eq)
  then show ?thesis using assms by (simp add: Date_parse_def TimeClip_def)
qed

end
