(* ===== verification/Timeline.thy ===== *)
theory Timeline
  imports Prelude
begin

text \<open>
  Lists of records that have an identity (\<open>key\<close>) and are shown in the order of a comparator. The
  message lists of both clients, the pinned messages and the recordings are such lists. The locale
  \<open>timeline\<close> states what a comparator has to provide; its lemmas say which updates keep a list in
  order and that the order of arrival does not matter.
\<close>

definition in_order :: "('a \<Rightarrow> 'k) \<Rightarrow> ('a \<Rightarrow> 'a \<Rightarrow> int) \<Rightarrow> ('a \<Rightarrow> bool) \<Rightarrow> 'a list \<Rightarrow> bool" where
  "in_order key cmp ok xs \<longleftrightarrow>
     distinct (map key xs) \<and> list_all ok xs \<and> sorted_wrt (\<lambda>x y. cmp x y \<le> 0) xs"

lemma in_order_Nil [simp]: "in_order key cmp ok []"
  by (simp add: in_order_def)

lemma in_order_filter: "in_order key cmp ok xs \<Longrightarrow> in_order key cmp ok (filter P xs)"
  by (auto simp: in_order_def distinct_map_filter list_all_iff sorted_wrt_filter)

lemma in_order_drop_key: "in_order key cmp ok xs \<Longrightarrow> in_order key cmp ok (drop_key key k xs)"
  by (simp add: drop_key_def in_order_filter)

lemma sorted_wrt_map_key:
  assumes "sorted_wrt R xs"
    and "\<And>x y. x \<in> set xs \<Longrightarrow> y \<in> set xs \<Longrightarrow>
      R (if key x = k then f x else x) (if key y = k then f y else y) = R x y"
  shows "sorted_wrt R (map_key key k f xs)"
  unfolding map_key_def sorted_wrt_map
  by (rule sorted_wrt_mono_rel [OF _ assms(1)]) (use assms(2) in blast)

text \<open>A list sorted by an order that separates its elements is determined by its multiset.\<close>

lemma sorted_wrt_unique:
  assumes "sorted_wrt R xs" "sorted_wrt R ys" "mset xs = mset ys"
    and "\<And>x y. x \<in> set xs \<Longrightarrow> y \<in> set xs \<Longrightarrow> R x y \<Longrightarrow> R y x \<Longrightarrow> x = y"
  shows "xs = ys"
  using assms
proof (induction xs arbitrary: ys)
  case (Cons x xs)
  then obtain y ys' where ys: "ys = y # ys'" by (cases ys) auto
  have s: "insert x (set xs) = insert y (set ys')"
    using Cons.prems(3) ys by (metis list.simps(15) set_mset_mset)
  have "x = y"
  proof (rule ccontr)
    assume n: "x \<noteq> y"
    then have "x \<in> set ys'" "y \<in> set xs" using s by auto
    then have "R y x" "R x y" using Cons.prems(1,2) ys by auto
    then show False using n Cons.prems(4) \<open>y \<in> set xs\<close> by auto
  qed
  with Cons.prems ys have "xs = ys'" by (intro Cons.IH) auto
  with \<open>x = y\<close> ys show ?case by simp
qed simp

locale timeline =
  fixes key :: "'a \<Rightarrow> 'k"
    and cmp :: "'a \<Rightarrow> 'a \<Rightarrow> int"
    and ok :: "'a \<Rightarrow> bool"
  assumes cmp_consistent: "consistent cmp (Collect ok)"
    and cmp_separates: "ok x \<Longrightarrow> ok y \<Longrightarrow> cmp x y = 0 \<Longrightarrow> key x = key y"
begin

lemma consistent_on: "list_all ok xs \<Longrightarrow> consistent cmp (set xs)"
  by (rule consistent_mono [OF cmp_consistent]) (auto simp: list_all_iff)

lemma in_order_sort:
  "distinct (map key xs) \<Longrightarrow> list_all ok xs \<Longrightarrow> in_order key cmp ok (js_sort cmp xs)"
  unfolding in_order_def
  using js.distinct_map_srt [of key cmp xs] sorted_js_sort [OF consistent_on] by (simp add: list_all_iff)

lemma sort_of_in_order: "in_order key cmp ok xs \<Longrightarrow> js_sort cmp xs = xs"
  by (simp add: in_order_def js_sort_id)

lemma sort_canonical:
  assumes "distinct (map key xs)" "list_all ok xs" "mset xs = mset ys"
  shows "js_sort cmp xs = js_sort cmp ys"
proof -
  have set: "set ys = set xs" using assms(3) by (metis set_mset_mset)
  then have oky: "list_all ok ys" using assms(2) by (simp add: list_all_iff)
  show ?thesis
  proof (rule sorted_wrt_unique [where R = "\<lambda>x y. cmp x y \<le> 0"])
    show "x = y" if xy: "x \<in> set (js_sort cmp xs)" "y \<in> set (js_sort cmp xs)" "cmp x y \<le> 0" "cmp y x \<le> 0" for x y
    proof -
      have ok: "ok x" "ok y" using xy assms(2) by (auto simp: list_all_iff)
      then have "cmp x y = 0"
        using xy(3,4) consistent_flip [OF cmp_consistent, of x y] consistent_flip [OF cmp_consistent, of y x] by auto
      then have "key x = key y" using cmp_separates ok by blast
      then show ?thesis using xy assms(1) by (simp add: distinct_map inj_on_def)
    qed
  qed (use assms oky sorted_js_sort consistent_on in auto)
qed

lemma in_order_insert:
  assumes "in_order key cmp ok xs" "ok x" "\<not> has_key key (key x) xs"
  shows "in_order key cmp ok (js_sort cmp (xs @ [x]))"
  using assms by (intro in_order_sort) (auto simp: in_order_def has_key_iff)

lemma in_order_map_key:
  assumes o: "in_order key cmp ok xs"
    and f: "\<And>x. x \<in> set xs \<Longrightarrow> key x = k \<Longrightarrow> key (f x) = k \<and> ok (f x) \<and>
      (\<forall>y. cmp (f x) y = cmp x y \<and> cmp y (f x) = cmp y x)"
  shows "in_order key cmp ok (map_key key k f xs)"
  unfolding in_order_def
proof (intro conjI)
  show "distinct (map key (map_key key k f xs))"
    using o f by (simp add: in_order_def keys_map_key)
  show "list_all ok (map_key key k f xs)"
    using o f by (auto simp: in_order_def list_all_iff map_key_def)
  show "sorted_wrt (\<lambda>x y. cmp x y \<le> 0) (map_key key k f xs)"
    using o f by (intro sorted_wrt_map_key) (auto simp: in_order_def)
qed

text \<open>Arrivals in any order, each inserted by its own sort, give the same list.\<close>

lemma insert_commute:
  assumes "in_order key cmp ok xs" "ok x" "ok y" "\<not> has_key key (key x) xs" "\<not> has_key key (key y) xs" "key x \<noteq> key y"
  shows "js_sort cmp (js_sort cmp (xs @ [x]) @ [y]) = js_sort cmp (js_sort cmp (xs @ [y]) @ [x])"
proof (rule sort_canonical)
  show "distinct (map key (js_sort cmp (xs @ [x]) @ [y]))"
    using assms js.distinct_map_srt [of key cmp "xs @ [x]"] by (auto simp: in_order_def has_key_iff)
  show "list_all ok (js_sort cmp (xs @ [x]) @ [y])" using assms by (auto simp: in_order_def list_all_iff)
qed simp

end

section \<open>Comparators by time and identity\<close>

text \<open>
  Both clients compare by a time that may be \<open>NaN\<close> (here \<open>None\<close>) and then by identity, but they
  treat \<open>NaN\<close> differently: \<^verbatim>\<open>delta || a.id - b.id\<close> falls through to the identity, while
  \<^verbatim>\<open>if (delta !== 0) return delta\<close> returns \<open>NaN\<close>, which \<open>sort\<close> takes for zero.
\<close>

definition minus_time :: "int option \<Rightarrow> int option \<Rightarrow> int option" where
  "minus_time a b = (case (a, b) of (Some x, Some y) \<Rightarrow> Some (x - y) | _ \<Rightarrow> None)"

definition or_cmp :: "int option \<Rightarrow> int \<Rightarrow> int" where
  "or_cmp d e = (case d of Some x \<Rightarrow> if x \<noteq> 0 then x else e | None \<Rightarrow> e)"

definition delta_cmp :: "int option \<Rightarrow> int \<Rightarrow> int" where
  "delta_cmp d e = (case d of Some x \<Rightarrow> if x \<noteq> 0 then x else e | None \<Rightarrow> 0)"

lemma time_cmp_timeline:
  fixes time :: "'a \<Rightarrow> int option" and key :: "'a \<Rightarrow> int"
  assumes "\<And>x y. cmp x y = or_cmp (minus_time (time x) (time y)) (key x - key y) \<or>
    cmp x y = delta_cmp (minus_time (time x) (time y)) (key x - key y)"
  shows "timeline key cmp (\<lambda>x. time x \<noteq> None)"
proof
  have eq: "lex_cmp (\<lambda>x. the (time x)) key x y = cmp x y" if "time x \<noteq> None" "time y \<noteq> None" for x y
    using that assms [of x y] by (auto simp: lex_cmp_def or_cmp_def delta_cmp_def minus_time_def)
  then show "consistent cmp {x. time x \<noteq> None}"
    by (intro consistent_cong [OF consistent_lex]) auto
  show "key x = key y" if "time x \<noteq> None" "time y \<noteq> None" "cmp x y = 0" for x y
    using eq [OF that(1,2)] that(3) by (auto simp: lex_cmp_def split: if_splits)
qed

text \<open>The same with both differences reversed: newest first.\<close>

lemma time_cmp_timeline_desc:
  fixes time :: "'a \<Rightarrow> int option" and key :: "'a \<Rightarrow> int"
  assumes "\<And>x y. cmp x y = or_cmp (minus_time (time y) (time x)) (key y - key x) \<or>
    cmp x y = delta_cmp (minus_time (time y) (time x)) (key y - key x)"
  shows "timeline key cmp (\<lambda>x. time x \<noteq> None)"
proof
  have eq: "lex_cmp (\<lambda>x. - the (time x)) (\<lambda>x. - key x) x y = cmp x y" if "time x \<noteq> None" "time y \<noteq> None" for x y
    using that assms [of x y] by (auto simp: lex_cmp_def or_cmp_def delta_cmp_def minus_time_def)
  then show "consistent cmp {x. time x \<noteq> None}"
    by (intro consistent_cong [OF consistent_lex]) auto
  show "key x = key y" if "time x \<noteq> None" "time y \<noteq> None" "cmp x y = 0" for x y
    using eq [OF that(1,2)] that(3) by (auto simp: lex_cmp_def split: if_splits)
qed

end
