(* ===== verification/Messages_Core.thy ===== *)
theory Messages_Core
  imports JsDate Timeline
begin

text \<open>
  The message data of both clients (\<^verbatim>\<open>web/src/types/api.ts\<close>, \<^verbatim>\<open>mobile/src/lib/types.ts\<close>). The
  fields the two clients share are the record \<open>message\<close>; what only one of them has is added by
  record extension (\<open>mobile_message\<close>, \<open>local_message\<close>). A nullable field is an \<open>option\<close>; an optional
  field (which may be missing from the object) is an \<open>option\<close> too, and one that may be missing or
  null is an \<open>option option\<close>. Emoji and other text beyond Latin-1 stand for their UTF-8 bytes:
  the code only compares them.
\<close>

record user_ref =
  ur_id :: int
  ur_full_name :: string
  ur_avatar_url :: "string option"

record author = user_ref +
  au_email :: string
  au_role :: string

record reaction =
  emoji :: string
  rcount :: int
  reacted :: bool
  rusers :: "user_ref list"

record attachment =
  att_id :: int
  filename :: string
  content_type :: string
  byte_size :: int
  image :: bool
  att_url :: "string option"

record read_receipts =
  rr_count :: int
  rr_users :: "user_ref list"

record message =
  msg_id :: int
  channel_id :: "int option"
  direct_conversation_id :: "int option"
  parent_message_id :: "int option"
  body :: string
  mention_user_ids :: "int list"
  edited_at :: "string option"
  deleted_at :: "string option"
  pinned_at :: "string option"
  created_at :: string
  updated_at :: string
  mine :: bool
  blocked :: "bool option"
  msg_reactions :: "reaction list"
  attachments :: "attachment list"
  receipts :: "read_receipts option"
  msg_author :: author

record upload_attachment_input =
  up_s3_key :: string
  up_filename :: string
  up_content_type :: string
  up_byte_size :: int

datatype client_status = Sending | Failed

record mobile_message = message +
  pinned_by_id :: "int option option"
  client_status :: "client_status option"
  client_error :: "string option"
  client_uploads :: "upload_attachment_input list option"
  reply_count :: "int option"

record local_message = message +
  web_pinned_by_id :: "int option"
  pending :: bool
  failed :: bool

datatype message_event_kind = Created | Updated | Deleted

record latest_message =
  lm_id :: int
  lm_body :: string
  lm_created_at :: string
  lm_author_name :: string

datatype workspace_type = Cohort_workspace | Community
datatype channel_visibility = Cohort_visible | Staff_only
datatype item_status = Active | Archived

record workspace_summary =
  ws_id :: int
  ws_name :: string
  ws_slug :: string
  ws_type :: workspace_type
  ws_status :: item_status
  ws_cohort_id :: "int option"
  ws_cohort_name :: "string option"
  ws_description :: "string option"
  ws_member_count :: int
  ws_can_manage :: bool
  ws_created_at :: string
  ws_updated_at :: string

text \<open>
  \<open>ChannelSummary\<close> and \<open>DirectConversationSummary\<close> share most fields; the shared ones come first.
\<close>

record conversation_summary =
  conv_id :: int
  workspace_id :: int
  workspace_name :: string
  conv_workspace_type :: workspace_type
  conv_cohort_id :: "int option"
  conv_cohort_name :: "string option"
  conv_status :: item_status
  muted :: bool
  unread_count :: int
  last_read_at :: "string option"
  latest_message_of :: "latest_message option"
  conv_created_at :: string
  conv_updated_at :: string

record channel_summary = conversation_summary +
  channel_name :: string
  channel_description :: "string option"
  visibility :: channel_visibility
  channel_position :: int

record direct_conversation_summary = conversation_summary +
  dm_title :: string
  dm_users :: "author list"

text \<open>Truth of a nullable string and of a nullable number.\<close>

definition truthy_str :: "string option \<Rightarrow> bool" where
  "truthy_str s = (case s of None \<Rightarrow> False | Some t \<Rightarrow> t \<noteq> [])"

definition truthy_num :: "int option \<Rightarrow> bool" where
  "truthy_num n = (case n of None \<Rightarrow> False | Some k \<Rightarrow> k \<noteq> 0)"

definition created_time :: "date_host \<Rightarrow> ('a) message_scheme \<Rightarrow> int option" where
  "created_time H m = Date_parse H (created_at m)"

text \<open>Reading of a missing or present optional field under object spread.\<close>

definition spread_opt :: "'a option \<Rightarrow> 'a option \<Rightarrow> 'a option" where
  "spread_opt old new = (case new of None \<Rightarrow> old | Some v \<Rightarrow> Some v)"

lemma spread_opt_same [simp]: "spread_opt x x = x" "spread_opt (spread_opt x y) y = spread_opt x y"
  by (auto simp: spread_opt_def split: option.splits)

text \<open>A host in UTC that reads nothing beyond the format: it instantiates the examples.\<close>

definition utc_host :: date_host where
  "utc_host = \<lparr>utc_of_local = (\<lambda>t. t), local_of_utc = (\<lambda>t. t), legacy_parse = (\<lambda>_. None)\<rparr>"

end
