(* ===== verification/Mobile_Messages.thy ===== *)
theory Mobile_Messages
  imports Messages_Core
begin

text \<open>
  \<^verbatim>\<open>mobile/src/lib/message-state.ts\<close>: the pure updates of the message list of a conversation, a
  thread or the pinned sheet of the mobile app. Shown here: the list stays duplicate-free and in
  order under every update, replayed events change nothing, the reply to a send and its realtime
  event commute, and toggling a reaction twice restores the counts.
\<close>

definition message_cmp :: "date_host \<Rightarrow> mobile_message \<Rightarrow> mobile_message \<Rightarrow> int" where
  "message_cmp H left right =
     or_cmp (minus_time (created_time H left) (created_time H right)) (msg_id left - msg_id right)"

definition sortMessages :: "date_host \<Rightarrow> mobile_message list \<Rightarrow> mobile_message list" where
  "sortMessages H messages = js_sort (message_cmp H) messages"

record message_event =
  event_kind :: message_event_kind
  event_message :: mobile_message

text \<open>\<open>{ ...message, ...payload.message }\<close>: optional fields that the payload lacks are kept.\<close>

definition spread_message :: "mobile_message \<Rightarrow> mobile_message \<Rightarrow> mobile_message" where
  "spread_message old new =
     new\<lparr>blocked := spread_opt (blocked old) (blocked new),
         receipts := spread_opt (receipts old) (receipts new),
         pinned_by_id := spread_opt (pinned_by_id old) (pinned_by_id new),
         client_status := spread_opt (client_status old) (client_status new),
         client_error := spread_opt (client_error old) (client_error new),
         client_uploads := spread_opt (client_uploads old) (client_uploads new),
         reply_count := spread_opt (reply_count old) (reply_count new)\<rparr>"

definition mergeMessageEvent :: "date_host \<Rightarrow> mobile_message list \<Rightarrow> message_event \<Rightarrow> mobile_message list" where
  "mergeMessageEvent H messages payload =
     (let m = event_message payload in
      case event_kind payload of
        Created \<Rightarrow>
          if has_key msg_id (msg_id m) messages
          then map_key msg_id (msg_id m) (\<lambda>old. spread_message old m) messages
          else sortMessages H (messages @ [m])
      | Deleted \<Rightarrow> drop_key msg_id (msg_id m) messages
      | Updated \<Rightarrow> map_key msg_id (msg_id m) (\<lambda>old. spread_message old m) messages)"

definition mergePinnedMessageEvent :: "mobile_message list \<Rightarrow> message_event \<Rightarrow> mobile_message list" where
  "mergePinnedMessageEvent messages payload =
     (let m = event_message payload; withoutMessage = drop_key msg_id (msg_id m) messages
      in if event_kind payload \<noteq> Deleted \<and> truthy_str (pinned_at m) then m # withoutMessage else withoutMessage)"

definition reconcileOptimistic :: "date_host \<Rightarrow> mobile_message list \<Rightarrow> int \<Rightarrow> mobile_message \<Rightarrow> mobile_message list" where
  "reconcileOptimistic H messages optimisticId canonical =
     sortMessages H
       (filter (\<lambda>m. msg_id m \<noteq> optimisticId \<and> msg_id m \<noteq> msg_id canonical) messages @ [canonical])"

definition prependOlderMessages :: "date_host \<Rightarrow> mobile_message list \<Rightarrow> mobile_message list \<Rightarrow> mobile_message list" where
  "prependOlderMessages H current older =
     (let ids = map msg_id current
      in sortMessages H (filter (\<lambda>m. msg_id m \<notin> set ids) older @ current))"

definition same_person :: "author \<Rightarrow> user_ref \<Rightarrow> bool" where
  "same_person user person \<longleftrightarrow> ur_id person = ur_id user"

definition as_user_ref :: "author \<Rightarrow> user_ref" where
  "as_user_ref user =
     \<lparr>ur_id = ur_id user, ur_full_name = ur_full_name user, ur_avatar_url = ur_avatar_url user\<rparr>"

definition add_reaction :: "author \<Rightarrow> reaction \<Rightarrow> reaction" where
  "add_reaction user r =
     r\<lparr>rcount := rcount r + 1, reacted := True,
       rusers := (if list_ex (same_person user) (rusers r) then rusers r else rusers r @ [as_user_ref user])\<rparr>"

definition remove_reaction :: "author \<Rightarrow> int \<Rightarrow> reaction \<Rightarrow> reaction" where
  "remove_reaction user n r =
     r\<lparr>rcount := n, reacted := False, rusers := filter (\<lambda>p. \<not> same_person user p) (rusers r)\<rparr>"

definition toggleOwnReaction :: "mobile_message \<Rightarrow> string \<Rightarrow> author \<Rightarrow> mobile_message" where
  "toggleOwnReaction m e user =
     (case find_key emoji e (msg_reactions m) of
        None \<Rightarrow>
          m\<lparr>msg_reactions := msg_reactions m @ [\<lparr>emoji = e, rcount = 1, reacted = True, rusers = [as_user_ref user]\<rparr>]\<rparr>
      | Some selected \<Rightarrow>
          if reacted selected
          then let n = max 0 (rcount selected - 1)
               in m\<lparr>msg_reactions := (if n = 0 then drop_key emoji e (msg_reactions m)
                                     else map_key emoji e (remove_reaction user n) (msg_reactions m))\<rparr>
          else m\<lparr>msg_reactions := map_key emoji e (add_reaction user) (msg_reactions m)\<rparr>)"

section \<open>The message list\<close>

definition dated :: "date_host \<Rightarrow> mobile_message \<Rightarrow> bool" where
  "dated H m \<longleftrightarrow> created_time H m \<noteq> None"

text \<open>What the screens keep of a loaded conversation.\<close>

definition conversation_ok :: "date_host \<Rightarrow> mobile_message list \<Rightarrow> bool" where
  "conversation_ok H = in_order msg_id (message_cmp H) (dated H)"

interpretation mt: timeline msg_id "message_cmp H" "dated H" for H
  unfolding dated_def by (rule time_cmp_timeline) (simp add: message_cmp_def)

lemma message_cmp_cong:
  assumes "created_at m = created_at m'" "msg_id m = msg_id m'"
  shows "message_cmp H m x = message_cmp H m' x" "message_cmp H x m = message_cmp H x m'"
  by (simp_all add: message_cmp_def created_time_def assms)

lemma spread_message_simps [simp]:
  "msg_id (spread_message old new) = msg_id new" "created_at (spread_message old new) = created_at new"
  by (simp_all add: spread_message_def)

lemma spread_message_again [simp]:
  "spread_message (spread_message old new) new = spread_message old new" "spread_message m m = m"
  by (simp_all add: spread_message_def)

lemma dated_cong: "created_at m = created_at m' \<Longrightarrow> dated H m = dated H m'"
  by (simp add: dated_def created_time_def)

lemma map_spread_ok:
  assumes "conversation_ok H ms" "dated H m" "\<And>x. x \<in> set ms \<Longrightarrow> msg_id x = msg_id m \<Longrightarrow> created_at x = created_at m"
  shows "conversation_ok H (map_key msg_id (msg_id m) (\<lambda>old. spread_message old m) ms)"
  unfolding conversation_ok_def
proof (rule mt.in_order_map_key)
  show "msg_id (spread_message x m) = msg_id m \<and> dated H (spread_message x m) \<and>
      (\<forall>y. message_cmp H (spread_message x m) y = message_cmp H x y \<and> message_cmp H y (spread_message x m) = message_cmp H y x)"
    if "x \<in> set ms" "msg_id x = msg_id m" for x
    using that assms(2,3) dated_cong [of "spread_message x m" m H]
      message_cmp_cong [of "spread_message x m" x H] by simp
qed (use assms(1) in \<open>simp add: conversation_ok_def\<close>)

lemma conversation_ok_reconcile:
  assumes "conversation_ok H ms" "dated H m"
  shows "conversation_ok H (reconcileOptimistic H ms k m)"
  unfolding conversation_ok_def reconcileOptimistic_def sortMessages_def
proof (rule mt.in_order_insert)
  show "in_order msg_id (message_cmp H) (dated H) (filter (\<lambda>x. msg_id x \<noteq> k \<and> msg_id x \<noteq> msg_id m) ms)"
    using assms(1) unfolding conversation_ok_def by (rule in_order_filter)
qed (use assms in \<open>auto simp: has_key_iff\<close>)

lemma conversation_ok_merge:
  assumes "conversation_ok H ms" "dated H m" "\<And>x. x \<in> set ms \<Longrightarrow> msg_id x = msg_id m \<Longrightarrow> created_at x = created_at m"
  shows "conversation_ok H (mergeMessageEvent H ms \<lparr>event_kind = k, event_message = m\<rparr>)"
proof (cases k)
  case Created
  have "\<not> has_key msg_id (msg_id m) ms \<Longrightarrow> conversation_ok H (sortMessages H (ms @ [m]))"
    unfolding conversation_ok_def sortMessages_def
    by (rule mt.in_order_insert) (use assms in \<open>simp_all add: conversation_ok_def\<close>)
  with Created map_spread_ok [OF assms] show ?thesis by (simp add: mergeMessageEvent_def Let_def)
next
  case Deleted
  with assms(1) show ?thesis by (simp add: mergeMessageEvent_def Let_def conversation_ok_def in_order_drop_key)
qed (use map_spread_ok [OF assms] in \<open>simp add: mergeMessageEvent_def Let_def\<close>)

lemma conversation_ok_prepend:
  assumes "conversation_ok H ms" "conversation_ok H older"
  shows "conversation_ok H (prependOlderMessages H ms older)"
  unfolding prependOlderMessages_def Let_def sortMessages_def conversation_ok_def
  by (rule mt.in_order_sort)
    (use assms in \<open>auto simp: conversation_ok_def in_order_def list_all_iff distinct_map_filter\<close>)

subsection \<open>Events on different messages commute\<close>

text \<open>The effect of an event on the multiset of messages.\<close>

definition spread_at :: "mobile_message \<Rightarrow> mobile_message \<Rightarrow> mobile_message" where
  "spread_at m x = (if msg_id x = msg_id m then spread_message x m else x)"

definition event_mset :: "message_event \<Rightarrow> mobile_message multiset \<Rightarrow> mobile_message multiset" where
  "event_mset p M =
     (let m = event_message p in
      case event_kind p of
        Created \<Rightarrow> if msg_id m \<in> msg_id ` set_mset M then image_mset (spread_at m) M else add_mset m M
      | Deleted \<Rightarrow> filter_mset (\<lambda>x. msg_id x \<noteq> msg_id m) M
      | Updated \<Rightarrow> image_mset (spread_at m) M)"

lemma mset_mergeMessageEvent: "mset (mergeMessageEvent H ms p) = event_mset p (mset ms)"
  by (simp add: mergeMessageEvent_def event_mset_def Let_def map_key_def drop_key_def has_key_iff sortMessages_def
      spread_at_def [abs_def] split: message_event_kind.splits)

lemma id_spread_at [simp]: "msg_id (spread_at m x) = msg_id x"
  by (simp add: spread_at_def)

lemma spread_at_other [simp]: "msg_id x \<noteq> msg_id m \<Longrightarrow> spread_at m x = x"
  by (simp add: spread_at_def)

lemma spread_at_commute:
  "msg_id p \<noteq> msg_id q \<Longrightarrow> image_mset (spread_at p) (image_mset (spread_at q) M) = image_mset (spread_at q) (image_mset (spread_at p) M)"
  by (induction M) (auto simp: spread_at_def)

lemma spread_at_filter:
  "filter_mset (\<lambda>x. msg_id x \<noteq> k) (image_mset (spread_at m) M) = image_mset (spread_at m) (filter_mset (\<lambda>x. msg_id x \<noteq> k) M)"
  by (induction M) auto

lemma ids_spread_at [simp]: "msg_id ` set_mset (image_mset (spread_at m) M) = msg_id ` set_mset M"
  by (auto simp: image_iff)

lemma ids_filter:
  "k \<noteq> k' \<Longrightarrow> k \<in> msg_id ` set_mset (filter_mset (\<lambda>x. msg_id x \<noteq> k') M) \<longleftrightarrow> k \<in> msg_id ` set_mset M"
  by auto

lemma event_mset_commute:
  assumes d: "msg_id (event_message p) \<noteq> msg_id (event_message q)"
  shows "event_mset p (event_mset q M) = event_mset q (event_mset p M)"
  using d d [symmetric]
  by (cases "event_kind p"; cases "event_kind q")
    (simp_all del: set_image_mset set_mset_filter add: event_mset_def Let_def spread_at_commute spread_at_filter ids_filter add_mset_commute filter_filter_mset conj_commute)

text \<open>Two events in a row keep the list in order, so their result is determined by its multiset.\<close>

lemma merge_created_at:
  assumes "\<forall>x \<in> set ms. msg_id x = msg_id m \<longrightarrow> created_at x = created_at m"
    and "msg_id (event_message p) \<noteq> msg_id m" "x \<in> set (mergeMessageEvent H ms p)" "msg_id x = msg_id m"
  shows "created_at x = created_at m"
proof -
  have "x \<in># event_mset p (mset ms)" using assms(3) mset_mergeMessageEvent by (metis set_mset_mset)
  then have "x \<in> set ms"
    using assms(2,4)
    by (auto simp: event_mset_def Let_def spread_at_def split: message_event_kind.splits if_splits)
  with assms show ?thesis by blast
qed

lemma conversation_ok_merge_merge:
  assumes "conversation_ok H ms" "dated H (event_message p)" "dated H (event_message q)"
    "msg_id (event_message p) \<noteq> msg_id (event_message q)"
    and "\<forall>x \<in> set ms. msg_id x = msg_id (event_message p) \<longrightarrow> created_at x = created_at (event_message p)"
    and "\<forall>x \<in> set ms. msg_id x = msg_id (event_message q) \<longrightarrow> created_at x = created_at (event_message q)"
  shows "conversation_ok H (mergeMessageEvent H (mergeMessageEvent H ms p) q)"
proof -
  have "conversation_ok H (mergeMessageEvent H ms p)"
    using conversation_ok_merge [of H ms "event_message p" "event_kind p"] assms(1,2,5) by (cases p) simp
  then show ?thesis
    using conversation_ok_merge [of H "mergeMessageEvent H ms p" "event_message q" "event_kind q"]
      merge_created_at [OF assms(6,4)] assms(3) by (cases q) simp
qed

lemma merge_merge_unique:
  assumes "conversation_ok H ms" "dated H (event_message p)" "dated H (event_message q)"
    "msg_id (event_message p) \<noteq> msg_id (event_message q)"
    and "\<forall>x \<in> set ms. msg_id x = msg_id (event_message p) \<longrightarrow> created_at x = created_at (event_message p)"
    and "\<forall>x \<in> set ms. msg_id x = msg_id (event_message q) \<longrightarrow> created_at x = created_at (event_message q)"
  shows "mergeMessageEvent H (mergeMessageEvent H ms p) q = mergeMessageEvent H (mergeMessageEvent H ms q) p" (is "?l = ?r")
proof -
  have ok: "conversation_ok H ?l" "conversation_ok H ?r"
    using conversation_ok_merge_merge assms by (blast, metis)
  have "mset ?l = mset ?r" by (simp add: mset_mergeMessageEvent event_mset_commute [OF assms(4)])
  with ok have "js_sort (message_cmp H) ?l = js_sort (message_cmp H) ?r"
    by (intro mt.sort_canonical) (auto simp: conversation_ok_def in_order_def)
  with ok show ?thesis by (simp add: conversation_ok_def mt.sort_of_in_order)
qed

section \<open>Reactions\<close>

definition reaction_state :: "reaction list \<Rightarrow> string \<Rightarrow> (int \<times> bool) option" where
  "reaction_state rs e = map_option (\<lambda>r. (rcount r, reacted r)) (find_key emoji e rs)"

definition reactions_ok :: "reaction list \<Rightarrow> bool" where
  "reactions_ok rs \<longleftrightarrow> distinct (map emoji rs) \<and> list_all (\<lambda>r. 1 \<le> rcount r) rs"

text \<open>What one tap does to the count and the own mark of the tapped emoji.\<close>

fun tapped :: "(int \<times> bool) option \<Rightarrow> (int \<times> bool) option" where
  "tapped None = Some (1, True)"
| "tapped (Some (n, True)) = (if n \<le> 1 then None else Some (n - 1, False))"
| "tapped (Some (n, False)) = Some (n + 1, True)"

lemma find_key_append:
  "find_key key k (xs @ ys) = (case find_key key k xs of None \<Rightarrow> find_key key k ys | Some x \<Rightarrow> Some x)"
  by (induction xs) (auto simp: find_key_def)

lemma emoji_reaction_update [simp]:
  "emoji (add_reaction u r) = emoji r" "emoji (remove_reaction u n r) = emoji r"
  "rcount (add_reaction u r) = rcount r + 1" "rcount (remove_reaction u n r) = n"
  "reacted (add_reaction u r) = True" "reacted (remove_reaction u n r) = False"
  by (simp_all add: add_reaction_def remove_reaction_def)

lemma toggle_state:
  "reaction_state (msg_reactions (toggleOwnReaction m e u)) e' =
     (if e' = e then tapped (reaction_state (msg_reactions m) e) else reaction_state (msg_reactions m) e')"
proof (cases "find_key emoji e (msg_reactions m)")
  case None
  then show ?thesis
    by (simp add: toggleOwnReaction_def reaction_state_def find_key_append, simp add: find_key_def split: option.splits)
next
  case (Some r)
  then show ?thesis
    by (cases "reacted r")
      (auto simp: toggleOwnReaction_def reaction_state_def find_map_key find_drop_key Let_def option.map_comp comp_def)
qed

lemma toggle_reactions_ok:
  assumes "reactions_ok (msg_reactions m)"
  shows "reactions_ok (msg_reactions (toggleOwnReaction m e u))"
proof (cases "find_key emoji e (msg_reactions m)")
  case None
  moreover from None have "e \<notin> emoji ` set (msg_reactions m)" by (simp add: find_key_None)
  ultimately show ?thesis using assms by (simp add: toggleOwnReaction_def reactions_ok_def)
next
  case (Some r)
  with assms show ?thesis
    by (auto simp: toggleOwnReaction_def reactions_ok_def Let_def keys_map_key distinct_drop_key list_all_iff set_map_key)
qed

section \<open>The race between the reply and the event\<close>

lemma reconcile_merge:
  assumes "conversation_ok H ms" "dated H c"
  shows "reconcileOptimistic H (mergeMessageEvent H ms \<lparr>event_kind = Created, event_message = c\<rparr>) k c = reconcileOptimistic H ms k c"
proof (cases "has_key msg_id (msg_id c) ms")
  case True
  then show ?thesis
    by (simp add: mergeMessageEvent_def Let_def reconcileOptimistic_def filter_map_key)
next
  case False
  let ?P = "\<lambda>x. msg_id x \<noteq> k \<and> msg_id x \<noteq> msg_id c"
  have "sortMessages H (filter ?P (sortMessages H (ms @ [c])) @ [c]) = sortMessages H (filter ?P ms @ [c])"
    unfolding sortMessages_def
  proof (rule mt.sort_canonical)
    show "distinct (map msg_id (filter ?P (js_sort (message_cmp H) (ms @ [c])) @ [c]))"
      using assms False js.distinct_map_srt [of msg_id "message_cmp H" "ms @ [c]"]
      by (auto simp: conversation_ok_def in_order_def has_key_iff distinct_map_filter)
    show "list_all (dated H) (filter ?P (js_sort (message_cmp H) (ms @ [c])) @ [c])"
      using assms by (auto simp: conversation_ok_def in_order_def list_all_iff)
  qed simp
  with False show ?thesis by (simp add: mergeMessageEvent_def Let_def reconcileOptimistic_def)
qed

lemma merge_reconcile:
  "mergeMessageEvent H (reconcileOptimistic H ms k c) \<lparr>event_kind = Created, event_message = c\<rparr> = reconcileOptimistic H ms k c"
proof -
  have "has_key msg_id (msg_id c) (reconcileOptimistic H ms k c)"
    by (simp add: has_key_iff reconcileOptimistic_def sortMessages_def)
  moreover have "map_key msg_id (msg_id c) (\<lambda>old. spread_message old c) (reconcileOptimistic H ms k c) = reconcileOptimistic H ms k c"
    by (rule map_key_fixed) (auto simp: reconcileOptimistic_def sortMessages_def)
  ultimately show ?thesis by (simp add: mergeMessageEvent_def Let_def)
qed

section \<open>Properties\<close>

text \<open>
  C10: the message list of a conversation stays free of duplicates, dated and in chronological order
  (ties by identity) under a realtime event of any kind, under the reconciliation of an optimistic
  message with the server's one, and when older messages are loaded above. The hypothesis on
  \<open>created_at\<close> is that the server does not change the creation time of a message.
\<close>

theorem conversation_stays_in_order:
  assumes "conversation_ok H ms" "dated H m" "conversation_ok H older"
    and "\<forall>x \<in> set ms. msg_id x = msg_id m \<longrightarrow> created_at x = created_at m"
  shows "conversation_ok H (mergeMessageEvent H ms \<lparr>event_kind = k, event_message = m\<rparr>) \<and>
    conversation_ok H (reconcileOptimistic H ms optimisticId m) \<and>
    conversation_ok H (prependOlderMessages H ms older)"
  using assms by (simp add: conversation_ok_merge conversation_ok_reconcile conversation_ok_prepend)

definition sample_message :: "int \<Rightarrow> string \<Rightarrow> mobile_message" where
  "sample_message i t =
     \<lparr>msg_id = i, channel_id = Some 1, direct_conversation_id = None, parent_message_id = None, body = ''hi'',
      mention_user_ids = [], edited_at = None, deleted_at = None, pinned_at = None, created_at = t, updated_at = t,
      mine = False, blocked = None, msg_reactions = [], attachments = [], receipts = None,
      msg_author = \<lparr>ur_id = 9, ur_full_name = ''A'', ur_avatar_url = None, au_email = ''a'', au_role = ''student''\<rparr>,
      pinned_by_id = None, client_status = None, client_error = None, client_uploads = None, reply_count = None\<rparr>"

definition sample_thread :: "mobile_message list" where
  "sample_thread = [sample_message 1 ''2026-01-02T00:00:00Z'', sample_message 2 ''2026-01-03T00:00:00Z'']"

lemma sample_thread_ok: "conversation_ok utc_host sample_thread" "conversation_ok utc_host []"
    "dated utc_host (sample_message i ''2026-01-02T12:00:00.500Z'')"
  unfolding conversation_ok_def by code_simp+

theorem conversation_stays_in_order_witness:
  "conversation_ok utc_host (mergeMessageEvent utc_host sample_thread
      \<lparr>event_kind = Created, event_message = sample_message 7 ''2026-01-02T12:00:00.500Z''\<rparr>) \<and>
   map msg_id (mergeMessageEvent utc_host sample_thread
      \<lparr>event_kind = Created, event_message = sample_message 7 ''2026-01-02T12:00:00.500Z''\<rparr>) = [1, 7, 2]"
proof
  have fresh: "\<forall>x \<in> set sample_thread. msg_id x = msg_id (sample_message 7 ''2026-01-02T12:00:00.500Z'') \<longrightarrow>
      created_at x = created_at (sample_message 7 ''2026-01-02T12:00:00.500Z'')"
    by (simp add: sample_thread_def sample_message_def)
  show "conversation_ok utc_host (mergeMessageEvent utc_host sample_thread
      \<lparr>event_kind = Created, event_message = sample_message 7 ''2026-01-02T12:00:00.500Z''\<rparr>)"
    using conversation_stays_in_order [OF sample_thread_ok(1) sample_thread_ok(3) sample_thread_ok(2) fresh]
    by (rule conjunct1)
qed code_simp

text \<open>
  C11: two realtime events about different messages can arrive in either order; the list shown is the
  same.
\<close>

theorem message_events_commute:
  assumes "conversation_ok H ms" "dated H (event_message p)" "dated H (event_message q)"
    "msg_id (event_message p) \<noteq> msg_id (event_message q)"
    and "\<forall>x \<in> set ms. msg_id x = msg_id (event_message p) \<longrightarrow> created_at x = created_at (event_message p)"
    and "\<forall>x \<in> set ms. msg_id x = msg_id (event_message q) \<longrightarrow> created_at x = created_at (event_message q)"
  shows "mergeMessageEvent H (mergeMessageEvent H ms p) q = mergeMessageEvent H (mergeMessageEvent H ms q) p"
  using merge_merge_unique [OF assms] .

theorem message_events_commute_witness:
  "mergeMessageEvent utc_host (mergeMessageEvent utc_host sample_thread
      \<lparr>event_kind = Created, event_message = sample_message 7 ''2026-01-02T12:00:00.500Z''\<rparr>)
      \<lparr>event_kind = Deleted, event_message = sample_message 1 ''2026-01-02T00:00:00Z''\<rparr> =
   mergeMessageEvent utc_host (mergeMessageEvent utc_host sample_thread
      \<lparr>event_kind = Deleted, event_message = sample_message 1 ''2026-01-02T00:00:00Z''\<rparr>)
      \<lparr>event_kind = Created, event_message = sample_message 7 ''2026-01-02T12:00:00.500Z''\<rparr>"
proof (rule message_events_commute [OF sample_thread_ok(1)])
  show "dated utc_host (event_message \<lparr>event_kind = Created, event_message = sample_message 7 ''2026-01-02T12:00:00.500Z''\<rparr>)"
    by code_simp
  show "dated utc_host (event_message \<lparr>event_kind = Deleted, event_message = sample_message 1 ''2026-01-02T00:00:00Z''\<rparr>)"
    by code_simp
qed (simp_all add: sample_thread_def sample_message_def)



text \<open>A realtime event that is delivered twice changes nothing the second time.\<close>

theorem mergeMessageEvent_idempotent:
  "mergeMessageEvent H (mergeMessageEvent H ms p) p = mergeMessageEvent H ms p"
proof (cases "event_kind p")
  case Created
  let ?m = "event_message p"
  have again: "map_key msg_id (msg_id ?m) (\<lambda>old. spread_message old ?m) (map_key msg_id (msg_id ?m) (\<lambda>old. spread_message old ?m) ms) =
      map_key msg_id (msg_id ?m) (\<lambda>old. spread_message old ?m) ms"
    by (rule map_key_again) simp_all
  have kept: "map_key msg_id (msg_id ?m) (\<lambda>old. spread_message old ?m) (sortMessages H (ms @ [?m])) = sortMessages H (ms @ [?m])"
    if "\<not> has_key msg_id (msg_id ?m) ms"
  proof (rule map_key_fixed)
    fix x assume "x \<in> set (sortMessages H (ms @ [?m]))" "msg_id x = msg_id ?m"
    then have "x = ?m" using that by (auto simp: sortMessages_def has_key_def list_ex_iff)
    then show "spread_message x ?m = x" by simp
  qed
  have "has_key msg_id (msg_id ?m) (sortMessages H (ms @ [?m]))" by (simp add: has_key_iff sortMessages_def)
  moreover have "has_key msg_id (msg_id ?m) (map_key msg_id (msg_id ?m) (\<lambda>old. spread_message old ?m) ms) = has_key msg_id (msg_id ?m) ms"
    by (rule has_key_map_key) simp
  ultimately show ?thesis
    using again kept by (cases "has_key msg_id (msg_id ?m) ms") (simp_all add: Created mergeMessageEvent_def Let_def)
next
  case Updated
  then show ?thesis by (simp add: mergeMessageEvent_def Let_def map_key_again)
next
  case Deleted
  then show ?thesis by (simp add: mergeMessageEvent_def Let_def drop_key_def)
qed

text \<open>
  A tap on a reaction adds or removes the user's own mark and adjusts the count by one; a
  reaction whose count reaches zero disappears, all other reactions are untouched, and a second
  tap restores the counts and marks of every emoji.
\<close>

theorem toggleOwnReaction_twice:
  assumes "reactions_ok (msg_reactions m)"
  shows "reactions_ok (msg_reactions (toggleOwnReaction m e u)) \<and>
    reaction_state (msg_reactions (toggleOwnReaction m e u)) =
      (reaction_state (msg_reactions m))(e := tapped (reaction_state (msg_reactions m) e)) \<and>
    reaction_state (msg_reactions (toggleOwnReaction (toggleOwnReaction m e u) e u)) = reaction_state (msg_reactions m)"
proof -
  have "tapped (tapped (reaction_state (msg_reactions m) e)) = reaction_state (msg_reactions m) e"
  proof (cases "find_key emoji e (msg_reactions m)")
    case (Some r)
    then have "1 \<le> rcount r" using assms find_key_Some by (fastforce simp: reactions_ok_def list_all_iff)
    with Some show ?thesis by (cases "reacted r") (auto simp: reaction_state_def)
  qed (simp add: reaction_state_def)
  then show ?thesis using toggle_reactions_ok [OF assms] by (simp add: toggle_state fun_eq_iff)
qed

theorem toggleOwnReaction_twice_witness:
  "reaction_state (msg_reactions (toggleOwnReaction (toggleOwnReaction (sample_message 1 ''t'') ''x'' (msg_author (sample_message 1 ''t'')))
      ''x'' (msg_author (sample_message 1 ''t'')))) = reaction_state []"
proof -
  have "reactions_ok (msg_reactions (sample_message 1 ''t''))" by (simp add: reactions_ok_def sample_message_def)
  from toggleOwnReaction_twice [OF this, of "''x''" "msg_author (sample_message 1 ''t'')"] show ?thesis
    by (simp add: sample_message_def)
qed

end
