(* ===== verification/Web_Messages.thy ===== *)
theory Web_Messages
  imports Messages_Core
begin

text \<open>
  The pure functions at the top of \<^verbatim>\<open>web/src/pages/shared/Messages.tsx\<close>: conversation targets and
  their keys, labels, grouping of messages, ordering of the message list and of the pinned list,
  the choice of the conversation to open first, and the root of a thread. The chase for the root
  follows parent links and may not end on cyclic data, so it is a partial function; it is shown
  to end on the data the server sends.
\<close>

datatype target = Channel int | Dm int

fun targetKey :: "target \<Rightarrow> string" where
  "targetKey (Channel i) = ''channel:'' @ show_int i"
| "targetKey (Dm i) = ''dm:'' @ show_int i"

definition scrollStorageKey :: "int \<Rightarrow> target \<Rightarrow> string" where
  "scrollStorageKey userId t = ''csg-message-scroll:'' @ show_int userId @ '':'' @ targetKey t"

definition readReceiptLabel :: "read_receipts \<Rightarrow> string" where
  "readReceiptLabel r =
     (if rr_count r = 1
      then (case rr_users r of
              [] \<Rightarrow> ''1 person''
            | u # _ \<Rightarrow> if ur_full_name u = [] then ''1 person'' else ur_full_name u)
      else show_int (rr_count r) @ '' people'')"

definition readReceiptTitle :: "read_receipts \<Rightarrow> string" where
  "readReceiptTitle r =
     (let names = map ur_full_name (rr_users r); hiddenCount = rr_count r - int (length names)
      in join '', '' (if 0 < hiddenCount then names @ [show_int hiddenCount @ '' more''] else names))"

definition latestMessageFrom :: "('a) message_scheme \<Rightarrow> latest_message" where
  "latestMessageFrom m =
     \<lparr>lm_id = msg_id m,
      lm_body = (if body m \<noteq> [] then body m
                 else if length (attachments m) = 1 then ''Attachment''
                 else show_nat (length (attachments m)) @ '' attachments''),
      lm_created_at = created_at m,
      lm_author_name = ur_full_name (msg_author m)\<rparr>"

text \<open>
  Two dates print the same \<^verbatim>\<open>toDateString()\<close> when they fall on the same local day, or when both are
  invalid.
\<close>

definition local_day :: "date_host \<Rightarrow> int \<Rightarrow> int" where
  "local_day H t = local_of_utc H t div msPerDay"

definition sameDay :: "date_host \<Rightarrow> string \<Rightarrow> string \<Rightarrow> bool" where
  "sameDay H l r \<longleftrightarrow> map_option (local_day H) (Date_parse H l) = map_option (local_day H) (Date_parse H r)"

definition closeInTime :: "date_host \<Rightarrow> string \<Rightarrow> string \<Rightarrow> int \<Rightarrow> bool" where
  "closeInTime H l r minutes =
     (case minus_time (Date_parse H l) (Date_parse H r) of
        None \<Rightarrow> False
      | Some d \<Rightarrow> \<bar>d\<bar> \<le> minutes * 60 * 1000)"

definition shouldCompactMessage :: "date_host \<Rightarrow> ('a) message_scheme \<Rightarrow> ('a) message_scheme option \<Rightarrow> bool" where
  "shouldCompactMessage H m previous =
     (case previous of
        None \<Rightarrow> False
      | Some p \<Rightarrow>
          ur_id (msg_author p) = ur_id (msg_author m) \<and> \<not> truthy_str (pinned_at p) \<and> \<not> truthy_str (pinned_at m) \<and>
          sameDay H (created_at p) (created_at m) \<and> closeInTime H (created_at p) (created_at m) 5)"

definition weekday_short :: "int \<Rightarrow> string" where
  "weekday_short d = [''Thu'', ''Fri'', ''Sat'', ''Sun'', ''Mon'', ''Tue'', ''Wed''] ! nat (d mod 7)"

definition month_short :: "int \<Rightarrow> string" where
  "month_short m =
     [''Jan'', ''Feb'', ''Mar'', ''Apr'', ''May'', ''Jun'', ''Jul'', ''Aug'', ''Sep'', ''Oct'', ''Nov'', ''Dec''] ! nat (m - 1)"

text \<open>The \<open>en-US\<close> format with a short weekday, a short month and the day.\<close>

definition locale_day :: "int \<Rightarrow> string" where
  "locale_day d =
     (let f = day_fields d in weekday_short d @ '', '' @ month_short (df_month f) @ '' '' @ show_int (df_day f))"

definition formatDayDivider :: "date_host \<Rightarrow> int \<Rightarrow> string \<Rightarrow> string" where
  "formatDayDivider H now value =
     (case Date_parse H value of
        None \<Rightarrow> ''Invalid Date''
      | Some t \<Rightarrow>
          if local_day H t = local_day H now then ''Today''
          else if local_day H t = local_day H now - 1 then ''Yesterday''
          else locale_day (local_day H t))"

text \<open>\<^verbatim>\<open>name.trim().split(/\s+/).filter(Boolean)\<close>: the maximal runs without white space.\<close>

fun js_words :: "string \<Rightarrow> string list" where
  "js_words [] = []"
| "js_words (c # s) =
     (if js_ws c then js_words s
      else (case s of
              [] \<Rightarrow> [[c]]
            | d # _ \<Rightarrow> if js_ws d then [c] # js_words s
                      else (case js_words s of [] \<Rightarrow> [[c]] | w # ws \<Rightarrow> (c # w) # ws)))"

text \<open>
  Upper case on the Latin-1 range. Two of its letters leave the range (the micro sign and y with
  diaeresis) and one becomes two letters (sharp s); they are kept as they are.
\<close>

definition upper_char :: "char \<Rightarrow> char" where
  "upper_char c =
     (let n = (of_char c :: nat)
      in if (97 \<le> n \<and> n \<le> 122) \<or> (224 \<le> n \<and> n \<le> 254 \<and> n \<noteq> 247) then char_of (n - 32) else c)"

definition toUpperCase :: "string \<Rightarrow> string" where
  "toUpperCase s = map upper_char s"

definition initials :: "string \<Rightarrow> string" where
  "initials name =
     (let parts = js_words (trim name)
      in if parts = [] then ''?'' else toUpperCase (concat (map (take 1) (take 2 parts))))"

definition channelInitials :: "string \<Rightarrow> string" where
  "channelInitials name =
     (let words = js_words (trim name)
      in if words = [] then ''#''
         else if length words = 1 then toUpperCase (take 2 (hd words))
         else toUpperCase (concat (map (take 1) (take 2 words))))"

section \<open>The root of a thread\<close>

partial_function (option) root_loop ::
  "(int \<times> local_message) list \<Rightarrow> local_message option \<Rightarrow> local_message option option" where
  "root_loop byId current =
     (case current of
        None \<Rightarrow> Some None
      | Some m \<Rightarrow> if truthy_num (parent_message_id m) then root_loop byId (jmap_get byId (the (parent_message_id m)))
                  else Some (Some m))"

definition rootMessageIdFor :: "local_message \<Rightarrow> (int \<times> local_message) list \<Rightarrow> int option" where
  "rootMessageIdFor m byId =
     map_option (\<lambda>current. case current of
         None \<Rightarrow> msg_id m
       | Some c \<Rightarrow> if msg_id c \<noteq> 0 then msg_id c else msg_id m)
       (root_loop byId (Some m))"

section \<open>Lists of messages\<close>

definition mergeIncomingMessage :: "local_message \<Rightarrow> local_message \<Rightarrow> local_message" where
  "mergeIncomingMessage existing incoming =
     incoming\<lparr>msg_reactions := map (\<lambda>r.
        (case find_key emoji (emoji r) (msg_reactions existing) of
           None \<Rightarrow> r
         | Some e \<Rightarrow> if reacted e \<and> \<not> reacted r then r\<lparr>reacted := True\<rparr> else r)) (msg_reactions incoming)\<rparr>"

definition chronological_cmp :: "date_host \<Rightarrow> local_message \<Rightarrow> local_message \<Rightarrow> int" where
  "chronological_cmp H a b = delta_cmp (minus_time (created_time H a) (created_time H b)) (msg_id a - msg_id b)"

definition sortChronologicalMessages :: "date_host \<Rightarrow> local_message list \<Rightarrow> local_message list" where
  "sortChronologicalMessages H items = js_sort (chronological_cmp H) items"

definition pinned_time :: "date_host \<Rightarrow> local_message \<Rightarrow> int option" where
  "pinned_time H m = Date_parse H (if truthy_str (pinned_at m) then the (pinned_at m) else created_at m)"

definition pinned_cmp :: "date_host \<Rightarrow> local_message \<Rightarrow> local_message \<Rightarrow> int" where
  "pinned_cmp H a b = delta_cmp (minus_time (pinned_time H b) (pinned_time H a)) (msg_id b - msg_id a)"

definition sortPinnedMessages :: "date_host \<Rightarrow> local_message list \<Rightarrow> local_message list" where
  "sortPinnedMessages H items = js_sort (pinned_cmp H) items"

definition upsertPinnedMessage :: "date_host \<Rightarrow> local_message list \<Rightarrow> local_message \<Rightarrow> local_message list" where
  "upsertPinnedMessage H prev incoming =
     (if \<not> truthy_str (pinned_at incoming) \<or> truthy_str (deleted_at incoming)
      then drop_key msg_id (msg_id incoming) prev
      else sortPinnedMessages H
        (if has_key msg_id (msg_id incoming) prev
         then map_key msg_id (msg_id incoming) (\<lambda>item. mergeIncomingMessage item incoming) prev
         else prev @ [incoming]))"

definition latestMessageTime :: "date_host \<Rightarrow> ('a) conversation_summary_scheme \<Rightarrow> int option" where
  "latestMessageTime H item =
     (case latest_message_of item of None \<Rightarrow> Some 0 | Some m \<Rightarrow> Date_parse H (lm_created_at m))"

text \<open>The comparator \<^verbatim>\<open>right.latestAt - left.latestAt\<close>; \<open>NaN\<close> counts as zero.\<close>

definition latest_cmp :: "(target \<times> int option) \<Rightarrow> (target \<times> int option) \<Rightarrow> int" where
  "latest_cmp l r = (case minus_time (snd r) (snd l) of None \<Rightarrow> 0 | Some d \<Rightarrow> d)"

definition unreadTargets :: "date_host \<Rightarrow> channel_summary list \<Rightarrow> direct_conversation_summary list \<Rightarrow> (target \<times> int option) list" where
  "unreadTargets H channels dms =
     map (\<lambda>c. (Channel (conv_id c), latestMessageTime H c)) (filter (\<lambda>c. 0 < unread_count c) channels) @
     map (\<lambda>d. (Dm (conv_id d), latestMessageTime H d)) (filter (\<lambda>d. 0 < unread_count d) dms)"

definition initialMessageTarget :: "date_host \<Rightarrow> channel_summary list \<Rightarrow> direct_conversation_summary list \<Rightarrow> target option" where
  "initialMessageTarget H channels dms =
     (case js_sort latest_cmp (unreadTargets H channels dms) of
        (t, _) # _ \<Rightarrow> Some t
      | [] \<Rightarrow>
          (case channels of
             c # _ \<Rightarrow> Some (Channel (conv_id c))
           | [] \<Rightarrow> (case dms of d # _ \<Rightarrow> Some (Dm (conv_id d)) | [] \<Rightarrow> None)))"

section \<open>Keys\<close>

lemma colon_not_digit: "is_digit c \<Longrightarrow> c \<noteq> CHR '':''"
  by (auto simp: is_digit_def)

lemma show_int_no_colon: "CHR '':'' \<notin> set (show_int i)"
proof -
  have "CHR '':'' \<notin> set (show_nat n)" for n using show_nat_digits [of n] colon_not_digit by blast
  then show ?thesis by (simp add: show_int_def)
qed

lemma targetKey_inj: "targetKey t = targetKey t' \<Longrightarrow> t = t'"
  by (cases t; cases t') auto

section \<open>The pinned list\<close>

definition pinned_dated :: "date_host \<Rightarrow> local_message \<Rightarrow> bool" where
  "pinned_dated H m \<longleftrightarrow> pinned_time H m \<noteq> None"

definition pinned_ok :: "date_host \<Rightarrow> local_message list \<Rightarrow> bool" where
  "pinned_ok H = in_order msg_id (pinned_cmp H) (pinned_dated H)"

interpretation pt: timeline msg_id "pinned_cmp H" "pinned_dated H" for H
  unfolding pinned_dated_def by (rule time_cmp_timeline_desc) (simp add: pinned_cmp_def)

lemma mergeIncoming_simps [simp]:
  "msg_id (mergeIncomingMessage e i) = msg_id i" "pinned_at (mergeIncomingMessage e i) = pinned_at i"
  "created_at (mergeIncomingMessage e i) = created_at i"
  by (simp_all add: mergeIncomingMessage_def)

lemma pinned_dated_merge [simp]: "pinned_dated H (mergeIncomingMessage e i) = pinned_dated H i"
  by (simp add: pinned_dated_def pinned_time_def)

lemma pinned_list_ok:
  assumes "pinned_ok H prev" "pinned_dated H i"
  shows "pinned_ok H (upsertPinnedMessage H prev i)"
proof (cases "\<not> truthy_str (pinned_at i) \<or> truthy_str (deleted_at i)")
  case True
  with assms show ?thesis by (simp add: upsertPinnedMessage_def pinned_ok_def in_order_drop_key)
next
  case False
  let ?next = "if has_key msg_id (msg_id i) prev then map_key msg_id (msg_id i) (\<lambda>x. mergeIncomingMessage x i) prev else prev @ [i]"
  have "distinct (map msg_id ?next)"
    using assms(1) by (auto simp: pinned_ok_def in_order_def keys_map_key has_key_iff)
  moreover have "list_all (pinned_dated H) ?next"
    using assms by (auto simp: pinned_ok_def in_order_def list_all_iff set_map_key)
  ultimately show ?thesis
    using False by (simp only: upsertPinnedMessage_def sortPinnedMessages_def pinned_ok_def if_False pt.in_order_sort)
qed

lemma pinned_others:
  "filter_mset (\<lambda>m. msg_id m \<noteq> msg_id i) (mset (upsertPinnedMessage H prev i)) =
   filter_mset (\<lambda>m. msg_id m \<noteq> msg_id i) (mset prev)"
proof -
  have "filter (\<lambda>m. msg_id m \<noteq> msg_id i) (map_key msg_id (msg_id i) (\<lambda>x. mergeIncomingMessage x i) prev) =
      filter (\<lambda>m. msg_id m \<noteq> msg_id i) prev"
    by (rule filter_map_key) simp_all
  then have "filter_mset (\<lambda>m. msg_id m \<noteq> msg_id i) (mset (map_key msg_id (msg_id i) (\<lambda>x. mergeIncomingMessage x i) prev)) =
      filter_mset (\<lambda>m. msg_id m \<noteq> msg_id i) (mset prev)" by (metis mset_filter)
  then show ?thesis
    by (simp add: upsertPinnedMessage_def sortPinnedMessages_def drop_key_def filter_filter_mset)
qed

lemma pinned_member:
  "has_key msg_id (msg_id i) (upsertPinnedMessage H prev i) \<longleftrightarrow> truthy_str (pinned_at i) \<and> \<not> truthy_str (deleted_at i)"
proof -
  have "has_key msg_id (msg_id i) (map_key msg_id (msg_id i) (\<lambda>x. mergeIncomingMessage x i) prev) = has_key msg_id (msg_id i) prev"
    by (rule has_key_map_key) simp
  then show ?thesis
    by (auto simp: upsertPinnedMessage_def sortPinnedMessages_def has_key_iff)
qed

section \<open>The first conversation\<close>

lemma find_hd_filter: "filter P xs \<noteq> [] \<Longrightarrow> find P xs = Some (hd (filter P xs))"
  by (induction xs) auto

definition latest_unread :: "(target \<times> int option) list \<Rightarrow> (target \<times> int option) option" where
  "latest_unread xs = find (\<lambda>x. list_all (\<lambda>y. the (snd y) \<le> the (snd x)) xs) xs"

lemma head_is_latest:
  assumes v: "list_all (\<lambda>x. snd x \<noteq> None) xs" and h: "js_sort latest_cmp xs = h # rest"
  shows "latest_unread xs = Some h"
proof -
  have cmp: "latest_cmp x y = the (snd y) - the (snd x)" if "x \<in> set xs" "y \<in> set xs" for x y
    using that v by (cases "snd x"; cases "snd y") (auto simp: list_all_iff latest_cmp_def minus_time_def)
  have cons: "consistent latest_cmp (set xs)"
    by (rule consistent_cong [OF consistent_lex [of "\<lambda>x. - the (snd x)" "\<lambda>_. 0"]]) (simp add: cmp lex_cmp_def)
  have hin: "h \<in> set xs" using h by (metis list.set_intros(1) set_js_sort)
  have "list_all (\<lambda>y. latest_cmp h y \<le> 0) rest"
    using sorted_js_sort [OF cons] h by (simp add: list_all_iff)
  then have top: "the (snd y) \<le> the (snd h)" if "y \<in> set xs" for y
    using that cmp [OF hin] h set_js_sort [of latest_cmp xs] by (fastforce simp: list_all_iff)
  have eq: "list_all (\<lambda>y. the (snd y) \<le> the (snd x)) xs \<longleftrightarrow> latest_cmp h x = 0" if "x \<in> set xs" for x
  proof
    assume "list_all (\<lambda>y. the (snd y) \<le> the (snd x)) xs"
    then have "the (snd h) \<le> the (snd x)" using hin by (simp add: list_all_iff)
    with top [OF that] show "latest_cmp h x = 0" by (simp add: cmp [OF hin that])
  next
    assume "latest_cmp h x = 0"
    then show "list_all (\<lambda>y. the (snd y) \<le> the (snd x)) xs" using top by (simp add: list_all_iff cmp [OF hin that])
  qed
  have "filter (\<lambda>x. latest_cmp h x = 0) xs = filter (\<lambda>x. latest_cmp h x = 0) (h # rest)"
    using js.srt_stable [OF cons hin] h by simp
  then have "hd (filter (\<lambda>x. latest_cmp h x = 0) xs) = h" "filter (\<lambda>x. latest_cmp h x = 0) xs \<noteq> []"
    using cmp [OF hin hin] by simp_all
  then have "find (\<lambda>x. latest_cmp h x = 0) xs = Some h" by (simp add: find_hd_filter)
  moreover have "find (\<lambda>x. latest_cmp h x = 0) xs = latest_unread xs"
    unfolding latest_unread_def by (rule find_cong) (simp_all add: eq)
  ultimately show ?thesis by simp
qed

section \<open>Following parents\<close>

definition parents_before :: "(int \<times> local_message) list \<Rightarrow> bool" where
  "parents_before byId \<longleftrightarrow>
     list_all (\<lambda>(k, c). msg_id c = k \<and> k \<noteq> 0 \<and>
       (case parent_message_id c of None \<Rightarrow> True | Some p \<Rightarrow> 0 < p \<and> p < k)) byId"

lemma root_loop_ends:
  assumes "parents_before byId"
  shows "parent_message_id m = None \<or> 0 \<le> the (parent_message_id m) \<Longrightarrow>
    \<exists>r. root_loop byId (Some m) = Some r \<and>
      (case r of None \<Rightarrow> True | Some c \<Rightarrow> \<not> truthy_num (parent_message_id c) \<and> (c = m \<or> jmap_get byId (msg_id c) = Some c))"
proof (induction "nat (case parent_message_id m of None \<Rightarrow> 0 | Some p \<Rightarrow> p)" arbitrary: m rule: less_induct)
  case less
  show ?case
  proof (cases "truthy_num (parent_message_id m)")
    case False
    then show ?thesis by (subst root_loop.simps) simp
  next
    case True
    then obtain p where p: "parent_message_id m = Some p" "p \<noteq> 0" by (auto simp: truthy_num_def split: option.splits)
    show ?thesis
    proof (cases "jmap_get byId p")
      case None
      then have "root_loop byId (Some m) = Some None" using p True by (simp add: root_loop.simps)
      then show ?thesis by auto
    next
      case (Some c)
      then have c: "msg_id c = p" "case parent_message_id c of None \<Rightarrow> True | Some q \<Rightarrow> 0 < q \<and> q < p"
        using assms map_of_SomeD [OF Some] by (auto simp: parents_before_def list_all_iff split: option.splits)
      have "\<exists>r. root_loop byId (Some c) = Some r \<and>
          (case r of None \<Rightarrow> True | Some x \<Rightarrow> \<not> truthy_num (parent_message_id x) \<and> (x = c \<or> jmap_get byId (msg_id x) = Some x))"
        by (rule less.hyps) (use less.prems p c in \<open>auto split: option.splits\<close>)
      then show ?thesis using True p Some c(1) by (subst root_loop.simps) (auto split: option.splits)
    qed
  qed
qed

lemma root_loop_cycle:
  assumes "jmap_get byId (msg_id m) = Some m" "parent_message_id m = Some (msg_id m)" "msg_id m \<noteq> 0"
  shows "root_loop byId (Some m) = None"
proof -
  have "current = Some m \<longrightarrow> b \<noteq> byId" if "root_loop b current = Some r" for b current r
    by (rule root_loop.raw_induct [OF _ that])
      (use assms in \<open>auto simp: truthy_num_def split: option.splits if_splits\<close>, blast)
  then show ?thesis by (cases "root_loop byId (Some m)") blast+
qed

section \<open>Properties\<close>

text \<open>
  The pinned list stays free of duplicates and newest first under every incoming message; the
  message is in it exactly when it is pinned and not deleted, and no other message is touched.
\<close>

theorem upsertPinnedMessage_correct:
  assumes "pinned_ok H prev" "pinned_dated H incoming"
  shows "pinned_ok H (upsertPinnedMessage H prev incoming) \<and>
    (has_key msg_id (msg_id incoming) (upsertPinnedMessage H prev incoming) \<longleftrightarrow>
       truthy_str (pinned_at incoming) \<and> \<not> truthy_str (deleted_at incoming)) \<and>
    filter_mset (\<lambda>m. msg_id m \<noteq> msg_id incoming) (mset (upsertPinnedMessage H prev incoming)) =
      filter_mset (\<lambda>m. msg_id m \<noteq> msg_id incoming) (mset prev)"
  by (intro conjI pinned_list_ok [OF assms] pinned_member pinned_others)

definition sample_local :: "int \<Rightarrow> int option \<Rightarrow> string option \<Rightarrow> local_message" where
  "sample_local i parent pin =
     \<lparr>msg_id = i, channel_id = Some 1, direct_conversation_id = None, parent_message_id = parent, body = ''hi'',
      mention_user_ids = [], edited_at = None, deleted_at = None, pinned_at = pin, created_at = ''2026-01-02T00:00:00Z'',
      updated_at = ''2026-01-02T00:00:00Z'', mine = False, blocked = None, msg_reactions = [], attachments = [], receipts = None,
      msg_author = \<lparr>ur_id = 9, ur_full_name = ''A'', ur_avatar_url = None, au_email = ''a'', au_role = ''student''\<rparr>,
      web_pinned_by_id = None, pending = False, failed = False\<rparr>"

theorem upsertPinnedMessage_correct_witness:
  "pinned_ok utc_host (upsertPinnedMessage utc_host [sample_local 1 None (Some ''2026-01-03T00:00:00Z'')]
      (sample_local 2 None (Some ''2026-01-04T00:00:00Z''))) \<and>
   map msg_id (upsertPinnedMessage utc_host [sample_local 1 None (Some ''2026-01-03T00:00:00Z'')]
      (sample_local 2 None (Some ''2026-01-04T00:00:00Z''))) = [2, 1]"
proof
  have "pinned_ok utc_host [sample_local 1 None (Some ''2026-01-03T00:00:00Z'')]"
    unfolding pinned_ok_def by code_simp
  moreover have "pinned_dated utc_host (sample_local 2 None (Some ''2026-01-04T00:00:00Z''))" by code_simp
  ultimately show "pinned_ok utc_host (upsertPinnedMessage utc_host [sample_local 1 None (Some ''2026-01-03T00:00:00Z'')]
      (sample_local 2 None (Some ''2026-01-04T00:00:00Z'')))"
    by (rule upsertPinnedMessage_correct [THEN conjunct1])
qed code_simp

text \<open>
  C13: the page opens the unread conversation with the latest message (the first such one in list
  order, channels before direct conversations); without unread conversations the first channel,
  else the first direct conversation.
\<close>

theorem initialMessageTarget_latest:
  assumes "list_all (\<lambda>x. snd x \<noteq> None) (unreadTargets H channels dms)"
  shows "initialMessageTarget H channels dms =
    (case latest_unread (unreadTargets H channels dms) of
       Some (t, _) \<Rightarrow> Some t
     | None \<Rightarrow> (case map (\<lambda>c. Channel (conv_id c)) channels @ map (\<lambda>d. Dm (conv_id d)) dms of
                 [] \<Rightarrow> None | t # _ \<Rightarrow> Some t))"
proof (cases "js_sort latest_cmp (unreadTargets H channels dms)")
  case Nil
  then have "unreadTargets H channels dms = []" by (simp add: js.srt_Nil_iff)
  with Nil show ?thesis
    by (simp add: initialMessageTarget_def latest_unread_def split: list.splits)
next
  case (Cons h rest)
  with head_is_latest [OF assms Cons] show ?thesis
    by (simp add: initialMessageTarget_def split: prod.splits)
qed

definition sample_channel :: "int \<Rightarrow> int \<Rightarrow> string option \<Rightarrow> channel_summary" where
  "sample_channel i unread t =
     \<lparr>conv_id = i, workspace_id = 1, workspace_name = ''w'', conv_workspace_type = Community, conv_cohort_id = None,
      conv_cohort_name = None, conv_status = Active, muted = False, unread_count = unread, last_read_at = None,
      latest_message_of = map_option (\<lambda>c. \<lparr>lm_id = 1, lm_body = ''b'', lm_created_at = c, lm_author_name = ''A''\<rparr>) t,
      conv_created_at = ''t'', conv_updated_at = ''t'', channel_name = ''general'', channel_description = None,
      visibility = Cohort_visible, channel_position = 0\<rparr>"

theorem initialMessageTarget_latest_witness:
  "initialMessageTarget utc_host [sample_channel 1 0 None, sample_channel 2 3 (Some ''2026-01-03''),
      sample_channel 3 1 (Some ''2026-01-04'')] [] = Some (Channel 3)"
proof -
  have "list_all (\<lambda>x. snd x \<noteq> None) (unreadTargets utc_host [sample_channel 1 0 None, sample_channel 2 3 (Some ''2026-01-03''),
      sample_channel 3 1 (Some ''2026-01-04'')] [])" by code_simp
  moreover have "latest_unread (unreadTargets utc_host [sample_channel 1 0 None, sample_channel 2 3 (Some ''2026-01-03''),
      sample_channel 3 1 (Some ''2026-01-04'')] []) = Some (Channel 3, Some 1767484800000)" by code_simp
  ultimately show ?thesis by (subst initialMessageTarget_latest) simp_all
qed



end
