(* ===== verification/Message_Page.thy ===== *)
theory Message_Page
  imports Web_Messages
begin

text \<open>
  The stateful part of \<^verbatim>\<open>web/src/pages/shared/Messages.tsx\<close>: the component \<open>Messages\<close> as a step machine.
  The state \<open>page\<close> holds the React state and the refs the handlers use, and the requests that are in
  flight; every handler up to its first \<open>await\<close>, and every continuation after one, is a step, so
  all interleavings of clicks, replies and realtime events are runs of \<open>page_step\<close>. What the
  browser decides (visibility, scroll position, clock, saved scroll position) comes with the
  event in a \<open>view_env\<close>. State updates of one handler are applied together.

  Shown here: the message list and the pinned list stay duplicate-free and in order in every
  run, unread counters stay non-negative, replies of superseded loads change nothing, and the
  optimistic message of a send is replaced or marked as failed. Two runs show defects of the code.
\<close>

section \<open>State\<close>

record load_options =
  around :: "int option"
  highlighted :: "int option"
  background :: bool

definition no_options :: load_options where
  "no_options = \<lparr>around = None, highlighted = None, background = False\<rparr>"

datatype load_stage = Fetching | Marking

record load =
  ld_id :: int
  ld_target :: target
  ld_mark :: bool
  ld_opts :: load_options
  ld_stage :: load_stage

record send =
  sd_temp :: int
  sd_target :: target

record pending_attachment =
  pa_file :: int
  pa_s3_key :: "string option"
  pa_filename :: string
  pa_content_type :: string
  pa_byte_size :: int
  pa_progress :: int
  pa_uploaded :: bool

datatype conversation_view = Messages_view | Pins_view
datatype pane = List_pane | Conversation_pane | Thread_pane

text \<open>
  A navigation transition that React has not committed yet: the workspace and the conversation to
  go to (\<open>Some None\<close>: to none).
\<close>

record navigation =
  nav_workspace :: "int option"
  nav_target :: "target option option"

record view_env =
  visible :: bool
  nearBottom :: bool
  inProgrammaticScroll :: bool
  now :: int
  savedAtBottom :: "bool option"

record page =
  channels :: "channel_summary list"
  dms :: "direct_conversation_summary list"
  workspaces :: "workspace_summary list"
  selectedWorkspaceId :: "int option"
  selectedTarget :: "target option"
  navigation :: "navigation option"
  messages :: "local_message list"
  pinnedMessages :: "local_message list"
  loading :: bool
  loadingTarget :: bool
  sending :: bool
  hasUnreadBelow :: bool
  showScrollToLatest :: bool
  stickToBottom :: bool
  restoreTarget :: "target option"
  backgroundLoading :: bool
  targetRequest :: int
  loadOptions :: load_options
  loads :: "load list"
  sends :: "send list"
  tempMessageId :: int
  pendingAttachments :: "pending_attachment list"
  optimisticUrls :: "(int \<times> string list) list"
  activeThreadRootId :: "int option"
  editing :: "int option"
  conversationView :: conversation_view
  mobilePane :: pane
  isDesktop :: bool
  highlightedMessageId :: "int option"
  error_text :: string

text \<open>The state before the first effects; \<open>page_mount\<close> below runs them.\<close>

definition page_init :: "target option \<Rightarrow> bool \<Rightarrow> page" where
  "page_init route desktop =
     \<lparr>channels = [], dms = [], workspaces = [], selectedWorkspaceId = None, selectedTarget = None, navigation = None,
      messages = [], pinnedMessages = [], loading = True, loadingTarget = False, sending = False, hasUnreadBelow = False,
      showScrollToLatest = False, stickToBottom = True, restoreTarget = None, backgroundLoading = False,
      targetRequest = 0, loadOptions = no_options, loads = [], sends = [], tempMessageId = 0, pendingAttachments = [],
      optimisticUrls = [], activeThreadRootId = None, editing = None, conversationView = Messages_view,
      mobilePane = (if route = None then List_pane else Conversation_pane), isDesktop = desktop,
      highlightedMessageId = None, error_text = []\<rparr>"

section \<open>Lists and read marks\<close>

definition or_num :: "int option \<Rightarrow> int option \<Rightarrow> int option" where
  "or_num a b = (if truthy_num a then a else b)"

definition workspace_of_target :: "target \<Rightarrow> channel_summary list \<Rightarrow> direct_conversation_summary list \<Rightarrow> int option" where
  "workspace_of_target t cs ds =
     (case t of
        Channel i \<Rightarrow> map_option workspace_id (find_key conv_id i cs)
      | Dm i \<Rightarrow> map_option workspace_id (find_key conv_id i ds))"

text \<open>\<open>new Date(a) > new Date(b)\<close> is false when one of them is invalid.\<close>

definition later :: "date_host \<Rightarrow> string \<Rightarrow> string \<Rightarrow> bool" where
  "later H a b = (case minus_time (Date_parse H a) (Date_parse H b) of None \<Rightarrow> False | Some d \<Rightarrow> 0 < d)"

text \<open>\<open>channelNeedsRead\<close> and \<open>dmNeedsRead\<close> have the same body.\<close>

definition needsRead :: "date_host \<Rightarrow> ('a) conversation_summary_scheme \<Rightarrow> bool" where
  "needsRead H c =
     (if 0 < unread_count c then True
      else case latest_message_of c of
             None \<Rightarrow> False
           | Some m \<Rightarrow> if \<not> truthy_str (last_read_at c) then True
                       else later H (lm_created_at m) (the (last_read_at c)))"

definition mark_summary_read :: "int \<Rightarrow> ('a) conversation_summary_scheme \<Rightarrow> ('a) conversation_summary_scheme" where
  "mark_summary_read t c = c\<lparr>unread_count := 0, last_read_at := Some (toISOString t)\<rparr>"

definition mark_target_read :: "int \<Rightarrow> target \<Rightarrow> page \<Rightarrow> page" where
  "mark_target_read t tg s =
     (case tg of
        Channel i \<Rightarrow> s\<lparr>channels := map_key conv_id i (mark_summary_read t) (channels s)\<rparr>
      | Dm i \<Rightarrow> s\<lparr>dms := map_key conv_id i (mark_summary_read t) (dms s)\<rparr>)"

definition markWorkspaceRead :: "int \<Rightarrow> int \<Rightarrow> page \<Rightarrow> page" where
  "markWorkspaceRead t w s =
     (if filter (\<lambda>c. workspace_id c = w \<and> 0 < unread_count c) (channels s) = [] \<and>
         filter (\<lambda>d. workspace_id d = w \<and> 0 < unread_count d) (dms s) = []
      then s
      else s\<lparr>channels := map_key workspace_id w (mark_summary_read t) (channels s),
             dms := map_key workspace_id w (mark_summary_read t) (dms s)\<rparr>)"

definition canAutoMarkRead :: "view_env \<Rightarrow> bool \<Rightarrow> page \<Rightarrow> bool" where
  "canAutoMarkRead env ignoreScrollPosition s \<longleftrightarrow>
     visible env \<and> (isDesktop s \<or> mobilePane s = Conversation_pane) \<and> \<not> truthy_num (activeThreadRootId s) \<and>
     (ignoreScrollPosition \<or> nearBottom env)"

section \<open>Loading a conversation\<close>

definition loadTarget :: "view_env \<Rightarrow> target \<Rightarrow> bool \<Rightarrow> load_options \<Rightarrow> page \<Rightarrow> page" where
  "loadTarget env t markRead opts s =
     (let requestId = targetRequest s + 1;
          s1 = s\<lparr>targetRequest := requestId,
                 loads := loads s @ [\<lparr>ld_id = requestId, ld_target = t, ld_mark = markRead, ld_opts = opts, ld_stage = Fetching\<rparr>]\<rparr>
      in if background opts then s1
         else s1\<lparr>loadingTarget := True, hasUnreadBelow := False, showScrollToLatest := False,
                 stickToBottom := (\<not> truthy_num (around opts) \<and> (case savedAtBottom env of None \<Rightarrow> True | Some b \<Rightarrow> b)),
                 restoreTarget := (if truthy_num (around opts) then None else Some t)\<rparr>)"

datatype load_data =
    Channel_data channel_summary "local_message list" "local_message list"
  | Dm_data direct_conversation_summary "local_message list" "local_message list"

fun data_matches :: "load_data \<Rightarrow> target \<Rightarrow> bool" where
  "data_matches (Channel_data _ _ _) (Channel _) = True"
| "data_matches (Dm_data _ _ _) (Dm _) = True"
| "data_matches _ _ = False"

definition show_data :: "date_host \<Rightarrow> local_message list \<Rightarrow> local_message list \<Rightarrow> load_options \<Rightarrow> page \<Rightarrow> page" where
  "show_data H ms ps opts s =
     s\<lparr>messages := sortChronologicalMessages H ms, pinnedMessages := sortPinnedMessages H ps,
       highlightedMessageId := or_num (highlighted opts) None\<rparr>"

text \<open>The load's promise settles: the loader is hidden, a background refresh gives its lock back.\<close>

definition finish_load :: "load \<Rightarrow> page \<Rightarrow> page" where
  "finish_load l s =
     (let s1 = s\<lparr>loads := drop_key ld_id (ld_id l) (loads s)\<rparr>
      in if background (ld_opts l) then s1\<lparr>backgroundLoading := False\<rparr> else s1\<lparr>loadingTarget := False\<rparr>)"

text \<open>A load that was superseded returns without hiding the loader.\<close>

definition drop_load :: "load \<Rightarrow> page \<Rightarrow> page" where
  "drop_load l s =
     (let s1 = s\<lparr>loads := drop_key ld_id (ld_id l) (loads s)\<rparr>
      in if background (ld_opts l) then s1\<lparr>backgroundLoading := False\<rparr> else s1)"

definition apply_data :: "date_host \<Rightarrow> load \<Rightarrow> load_data \<Rightarrow> page \<Rightarrow> page \<times> bool" where
  "apply_data H l d s =
     (case d of
        Channel_data c ms ps \<Rightarrow>
          ((show_data H ms ps (ld_opts l) s)\<lparr>channels :=
              (case ld_target l of Channel i \<Rightarrow> map_key conv_id i (\<lambda>_. c) (channels s) | Dm _ \<Rightarrow> channels s)\<rparr>, needsRead H c)
      | Dm_data c ms ps \<Rightarrow>
          ((show_data H ms ps (ld_opts l) s)\<lparr>dms :=
              (case ld_target l of Dm i \<Rightarrow> map_key conv_id i (\<lambda>_. c) (dms s) | Channel _ \<Rightarrow> dms s)\<rparr>, needsRead H c))"

definition load_reply :: "date_host \<Rightarrow> int \<Rightarrow> load_data option \<Rightarrow> page \<Rightarrow> page option" where
  "load_reply H rid reply s =
     (case find_key ld_id rid (loads s) of
        None \<Rightarrow> None
      | Some l \<Rightarrow>
          if ld_stage l \<noteq> Fetching then None
          else if rid \<noteq> targetRequest s then Some (drop_load l s)
          else (case reply of
                  None \<Rightarrow> Some (finish_load l s)
                | Some d \<Rightarrow>
                    if \<not> data_matches d (ld_target l) then None
                    else (let (s1, needs) = apply_data H l d s
                          in if ld_mark l \<and> needs
                             then Some (s1\<lparr>loads := map_key ld_id rid (\<lambda>x. x\<lparr>ld_stage := Marking\<rparr>) (loads s1)\<rparr>)
                             else Some (finish_load l s1))))"

definition mark_reply :: "int \<Rightarrow> int \<Rightarrow> page \<Rightarrow> page option" where
  "mark_reply t rid s =
     (case find_key ld_id rid (loads s) of
        None \<Rightarrow> None
      | Some l \<Rightarrow> if ld_stage l \<noteq> Marking then None else Some (finish_load l (mark_target_read t (ld_target l) s)))"

section \<open>Choosing a conversation\<close>

text \<open>The route effect (1210--1225): a new route target replaces the selection, the same one is reloaded.\<close>

definition route_options :: "int option \<Rightarrow> load_options" where
  "route_options routed =
     (case routed of
        None \<Rightarrow> no_options
      | Some i \<Rightarrow> if 0 < i then \<lparr>around = Some i, highlighted = Some i, background = False\<rparr> else no_options)"

text \<open>
  The effects that run when the selected conversation changes (1264--1276, 1396--1398). They run
  with the commit of the change.
\<close>

definition target_effect :: "view_env \<Rightarrow> page \<Rightarrow> page" where
  "target_effect env s =
     (let s1 = s\<lparr>conversationView := Messages_view,
                 mobilePane := (if isDesktop s then mobilePane s
                                else if selectedTarget s = None then List_pane else Conversation_pane)\<rparr>
      in case selectedTarget s of
           None \<Rightarrow> s1
         | Some t \<Rightarrow> loadTarget env t (canAutoMarkRead env True s1) (loadOptions s1)
                       (s1\<lparr>hasUnreadBelow := False, loadOptions := no_options\<rparr>))"

definition set_target :: "view_env \<Rightarrow> target option \<Rightarrow> page \<Rightarrow> page" where
  "set_target env t s =
     (if selectedTarget s = t then s else target_effect env (s\<lparr>selectedTarget := t\<rparr>))"

text \<open>The end of \<open>loadLists\<close>; an argument is \<open>None\<close> when its request brought no data.\<close>

definition loadLists ::
  "date_host \<Rightarrow> view_env \<Rightarrow> workspace_summary list option \<Rightarrow> channel_summary list option \<Rightarrow>
   direct_conversation_summary list option \<Rightarrow> page \<Rightarrow> page" where
  "loadLists H env ws cs ds s =
     (let loadedChannels = (case cs of None \<Rightarrow> [] | Some x \<Rightarrow> x);
          loadedDms = (case ds of None \<Rightarrow> [] | Some x \<Rightarrow> x);
          firstTarget = initialMessageTarget H loadedChannels loadedDms;
          firstWorkspace = Option.bind firstTarget (\<lambda>t. workspace_of_target t loadedChannels loadedDms);
          anyWorkspace = (case ws of Some (w # _) \<Rightarrow> Some (ws_id w) | _ \<Rightarrow> None)
      in set_target env (case selectedTarget s of None \<Rightarrow> firstTarget | Some t \<Rightarrow> Some t)
         (s\<lparr>workspaces := (case ws of None \<Rightarrow> workspaces s | Some x \<Rightarrow> x),
            channels := (case cs of None \<Rightarrow> channels s | Some x \<Rightarrow> x),
            dms := (case ds of None \<Rightarrow> dms s | Some x \<Rightarrow> x),
            selectedWorkspaceId := or_num (selectedWorkspaceId s) (or_num firstWorkspace anyWorkspace),
            loading := False\<rparr>))"

definition route_effect :: "view_env \<Rightarrow> bool \<Rightarrow> target \<Rightarrow> int option \<Rightarrow> page \<Rightarrow> page" where
  "route_effect env initialized t routed s =
     (if initialized \<and> selectedTarget s = Some t
      then loadTarget env t (canAutoMarkRead env True s) (route_options routed) (s\<lparr>loadOptions := no_options\<rparr>)
      else set_target env (Some t) (s\<lparr>loadOptions := route_options routed\<rparr>))"

text \<open>The first effects: the conversation in the address, if any, is selected and loaded.\<close>

definition page_mount :: "view_env \<Rightarrow> target option \<Rightarrow> int option \<Rightarrow> bool \<Rightarrow> page" where
  "page_mount env route routed desktop =
     (case route of
        None \<Rightarrow> page_init route desktop
      | Some t \<Rightarrow> route_effect env False t routed (page_init route desktop))"

definition selectTarget :: "view_env \<Rightarrow> target \<Rightarrow> load_options \<Rightarrow> page \<Rightarrow> page" where
  "selectTarget env t opts s =
     (let s1 = s\<lparr>loadOptions := opts, loadingTarget := True, stickToBottom := \<not> truthy_num (around opts),
                 navigation := Some \<lparr>nav_workspace = Option.bind (navigation s) nav_workspace, nav_target = Some (Some t)\<rparr>\<rparr>
      in if selectedTarget s = Some t then loadTarget env t (canAutoMarkRead env True s) opts s1 else s1)"

definition selectWorkspace :: "view_env \<Rightarrow> int \<Rightarrow> page \<Rightarrow> page" where
  "selectWorkspace env w s =
     (let s1 = s\<lparr>navigation := Some \<lparr>nav_workspace = Some w, nav_target = Option.bind (navigation s) nav_target\<rparr>\<rparr> in
      case find_key workspace_id w (channels s) of
        Some c \<Rightarrow> selectTarget env (Channel (conv_id c)) no_options s1
      | None \<Rightarrow>
          (case find_key workspace_id w (dms s) of
             Some d \<Rightarrow> selectTarget env (Dm (conv_id d)) no_options s1
           | None \<Rightarrow> s1\<lparr>navigation := Some \<lparr>nav_workspace = Some w, nav_target = Some None\<rparr>\<rparr>))"

text \<open>React commits the transition: the state it set, then the effects of the change.\<close>

definition commit_navigation :: "view_env \<Rightarrow> page \<Rightarrow> page option" where
  "commit_navigation env s =
     (case navigation s of
        None \<Rightarrow> None
      | Some n \<Rightarrow>
          (let s1 = s\<lparr>navigation := None,
                      selectedWorkspaceId := (case nav_workspace n of None \<Rightarrow> selectedWorkspaceId s | Some w \<Rightarrow> Some w)\<rparr>
           in Some (case nav_target n of
                None \<Rightarrow> s1
              | Some None \<Rightarrow>
                  set_target env None
                    (s1\<lparr>messages := [], pinnedMessages := [], activeThreadRootId := None, editing := None,
                        conversationView := Messages_view, mobilePane := (if isDesktop s then mobilePane s else List_pane)\<rparr>)
              | Some (Some t) \<Rightarrow>
                  set_target env (Some t)
                    (s1\<lparr>activeThreadRootId := None, editing := None, conversationView := Messages_view,
                        mobilePane := (if isDesktop s then mobilePane s else Conversation_pane)\<rparr>))))"

text \<open>The effect that follows the conversation with the workspace (1258--1262).\<close>

definition workspace_effect :: "page \<Rightarrow> page" where
  "workspace_effect s =
     (case selectedTarget s of
        None \<Rightarrow> s
      | Some t \<Rightarrow> s\<lparr>selectedWorkspaceId := or_num (workspace_of_target t (channels s) (dms s)) (selectedWorkspaceId s)\<rparr>)"

text \<open>The poll and focus handler; it does nothing while another load is under way.\<close>

definition refreshTarget :: "view_env \<Rightarrow> page \<Rightarrow> page" where
  "refreshTarget env s =
     (case selectedTarget s of
        None \<Rightarrow> s
      | Some t \<Rightarrow>
          if \<not> visible env \<or> loadingTarget s \<or> backgroundLoading s then s
          else loadTarget env t (canAutoMarkRead env False s) \<lparr>around = None, highlighted = None, background = True\<rparr>
                 (s\<lparr>backgroundLoading := True\<rparr>))"

text \<open>The effect that closes a thread whose root is gone (1384--1388).\<close>

definition thread_effect :: "page \<Rightarrow> page" where
  "thread_effect s =
     (case activeThreadRootId s of
        None \<Rightarrow> s
      | Some i \<Rightarrow> if i \<noteq> 0 \<and> \<not> has_key msg_id i (messages s) then s\<lparr>activeThreadRootId := None\<rparr> else s)"

definition handleConversationScroll :: "view_env \<Rightarrow> page \<Rightarrow> page" where
  "handleConversationScroll env s =
     (if stickToBottom s \<and> inProgrammaticScroll env \<and> \<not> nearBottom env then s
      else let s1 = s\<lparr>showScrollToLatest := \<not> nearBottom env\<rparr>
           in if nearBottom env then s1\<lparr>stickToBottom := True, hasUnreadBelow := False\<rparr> else s1\<lparr>stickToBottom := False\<rparr>)"

section \<open>Realtime events\<close>

record channel_message_event =
  ev_kind :: message_event_kind
  ev_channel_id :: "int option"
  ev_dm_id :: "int option"
  ev_message :: local_message
  ev_mine :: "bool option"
  ev_channel :: "channel_summary option"
  ev_dm :: "direct_conversation_summary option"

definition updated_summary :: "int \<Rightarrow> ('b) message_scheme \<Rightarrow> bool \<Rightarrow> ('a) conversation_summary_scheme \<Rightarrow> ('a) conversation_summary_scheme" where
  "updated_summary t m markRead c =
     c\<lparr>unread_count := (if markRead then 0 else unread_count c + (if mine m \<or> markRead then 0 else 1)),
       last_read_at := (if markRead then Some (toISOString t) else last_read_at c),
       latest_message_of := Some (latestMessageFrom m)\<rparr>"

definition updateLatestForTarget :: "int \<Rightarrow> local_message \<Rightarrow> bool \<Rightarrow> page \<Rightarrow> page" where
  "updateLatestForTarget t m markRead s =
     (let s1 = (if truthy_num (channel_id m)
                then s\<lparr>channels := map_key conv_id (the (channel_id m)) (updated_summary t m markRead) (channels s)\<rparr> else s)
      in if truthy_num (direct_conversation_id m)
         then s1\<lparr>dms := map_key conv_id (the (direct_conversation_id m)) (updated_summary t m markRead) (dms s1)\<rparr> else s1)"

text \<open>\<^verbatim>\<open>left.position - right.position || left.name.localeCompare(right.name)\<close>; the collation is a parameter.\<close>

definition channel_cmp :: "(string \<Rightarrow> string \<Rightarrow> int) \<Rightarrow> channel_summary \<Rightarrow> channel_summary \<Rightarrow> int" where
  "channel_cmp localeCompare l r =
     (if channel_position l - channel_position r \<noteq> 0 then channel_position l - channel_position r
      else localeCompare (channel_name l) (channel_name r))"

definition updateTargetSummaryFromEvent ::
  "(string \<Rightarrow> string \<Rightarrow> int) \<Rightarrow> int \<Rightarrow> channel_message_event \<Rightarrow> local_message \<Rightarrow> bool \<Rightarrow> page \<Rightarrow> page" where
  "updateTargetSummaryFromEvent lc t ev m markRead s =
     (case ev_channel ev of
        Some c \<Rightarrow>
          (let nxt = (if markRead then mark_summary_read t c else c)
           in s\<lparr>channels := (if has_key conv_id (conv_id nxt) (channels s)
                             then map_key conv_id (conv_id nxt) (\<lambda>_. nxt) (channels s)
                             else js_sort (channel_cmp lc) (channels s @ [nxt]))\<rparr>)
      | None \<Rightarrow>
          (case ev_dm ev of
             Some d \<Rightarrow>
               (let nxt = (if markRead then mark_summary_read t d else d)
                in s\<lparr>dms := (if has_key conv_id (conv_id nxt) (dms s)
                             then map_key conv_id (conv_id nxt) (\<lambda>_. nxt) (dms s)
                             else nxt # dms s)\<rparr>)
           | None \<Rightarrow> if ev_kind ev \<noteq> Deleted then updateLatestForTarget t m markRead s else s))"

definition belongsToTarget :: "channel_message_event \<Rightarrow> target option \<Rightarrow> bool" where
  "belongsToTarget ev tg =
     (case tg of
        None \<Rightarrow> False
      | Some (Channel i) \<Rightarrow> ev_channel_id ev = Some i
      | Some (Dm i) \<Rightarrow> ev_dm_id ev = Some i)"

definition merge_event :: "date_host \<Rightarrow> message_event_kind \<Rightarrow> local_message \<Rightarrow> local_message list \<Rightarrow> local_message list" where
  "merge_event H kind m prev =
     (if kind = Deleted then drop_key msg_id (msg_id m) prev
      else if has_key msg_id (msg_id m) prev
      then sortChronologicalMessages H (map_key msg_id (msg_id m) (\<lambda>item. mergeIncomingMessage item m) prev)
      else sortChronologicalMessages H (prev @ [m]))"

definition merge_pinned :: "date_host \<Rightarrow> message_event_kind \<Rightarrow> local_message \<Rightarrow> local_message list \<Rightarrow> local_message list" where
  "merge_pinned H kind m prev =
     (if kind = Deleted then drop_key msg_id (msg_id m) prev else upsertPinnedMessage H prev m)"

definition realtime_event ::
  "date_host \<Rightarrow> (string \<Rightarrow> string \<Rightarrow> int) \<Rightarrow> author \<Rightarrow> view_env \<Rightarrow> channel_message_event \<Rightarrow> page \<Rightarrow> page" where
  "realtime_event H lc me env ev s =
     (let belongs = belongsToTarget ev (selectedTarget s);
          isMine = (case ev_mine ev of Some b \<Rightarrow> b | None \<Rightarrow> ur_id (msg_author (ev_message ev)) = ur_id me);
          m = (ev_message ev)\<lparr>mine := isMine\<rparr>;
          markIncoming = (belongs \<and> \<not> isMine \<and> ev_kind ev = Created \<and> canAutoMarkRead env False s);
          s1 = updateTargetSummaryFromEvent lc (now env) ev m (isMine \<or> markIncoming) s
      in if \<not> belongs then s1
         else let stick = (if stickToBottom s \<and> inProgrammaticScroll env then stickToBottom s
                           else isMine \<or> markIncoming \<or> nearBottom env)
              in s1\<lparr>stickToBottom := stick,
                    hasUnreadBelow := (if ev_kind ev = Created \<and> \<not> isMine \<and> \<not> truthy_num (parent_message_id m) \<and> \<not> stick
                                       then True else hasUnreadBelow s),
                    messages := merge_event H (ev_kind ev) m (messages s),
                    pinnedMessages := merge_pinned H (ev_kind ev) m (pinnedMessages s)\<rparr>)"

section \<open>Sending\<close>

text \<open>
  \<open>uploadAttachments\<close>: one after the other, the first failure throws. \<open>presign\<close> and \<open>upload\<close> are the
  outcomes of the two requests for an attachment.
\<close>

fun uploadAttachments ::
  "(pending_attachment \<Rightarrow> string + string) \<Rightarrow> (pending_attachment \<Rightarrow> string option) \<Rightarrow>
   pending_attachment list \<Rightarrow> string + upload_attachment_input list" where
  "uploadAttachments presign upload [] = Inr []"
| "uploadAttachments presign upload (a # as) =
     (let item = (\<lambda>key. \<lparr>up_s3_key = key, up_filename = pa_filename a, up_content_type = pa_content_type a, up_byte_size = pa_byte_size a\<rparr>);
          continue = (\<lambda>key. case uploadAttachments presign upload as of Inl e \<Rightarrow> Inl e | Inr us \<Rightarrow> Inr (item key # us))
      in if pa_uploaded a \<and> truthy_str (pa_s3_key a) then continue (the (pa_s3_key a))
         else case presign a of
                Inl e \<Rightarrow> Inl (if e = [] then ''Could not prepare upload.'' else e)
              | Inr key \<Rightarrow> (case upload a of Some e \<Rightarrow> Inl e | None \<Rightarrow> continue key))"

definition optimistic_attachment :: "int \<Rightarrow> nat \<Rightarrow> pending_attachment \<Rightarrow> string \<Rightarrow> attachment" where
  "optimistic_attachment tempId index a url =
     \<lparr>att_id = tempId - int index - 1, filename = pa_filename a, content_type = pa_content_type a,
      byte_size = pa_byte_size a, image = startsWith (pa_content_type a) ''image/'', att_url = Some url\<rparr>"

definition optimistic_message ::
  "author \<Rightarrow> int \<Rightarrow> target \<Rightarrow> int option \<Rightarrow> int \<Rightarrow> string \<Rightarrow> int list \<Rightarrow> attachment list \<Rightarrow> local_message" where
  "optimistic_message me tempId t root time text mentions atts =
     \<lparr>msg_id = tempId,
      channel_id = (case t of Channel i \<Rightarrow> Some i | Dm _ \<Rightarrow> None),
      direct_conversation_id = (case t of Dm i \<Rightarrow> Some i | Channel _ \<Rightarrow> None),
      parent_message_id = or_num root None, body = text, mention_user_ids = mentions, edited_at = None, deleted_at = None,
      pinned_at = None, created_at = toISOString time, updated_at = toISOString time, mine = True, blocked = None,
      msg_reactions = [], attachments = atts, receipts = None, msg_author = me,
      web_pinned_by_id = None, pending = True, failed = False\<rparr>"

text \<open>
  The synchronous part of \<open>handleSend\<close>. \<open>text\<close> is the normalized body and \<open>mentions\<close> the resolved
  identities; \<open>urls\<close> are the object URLs the browser hands out. The root of the open thread counts
  only when it is loaded.
\<close>

definition handleSend :: "date_host \<Rightarrow> author \<Rightarrow> int \<Rightarrow> string \<Rightarrow> int list \<Rightarrow> string list \<Rightarrow> page \<Rightarrow> page" where
  "handleSend H me time text mentions urls s =
     (case selectedTarget s of
        None \<Rightarrow> s
      | Some t \<Rightarrow>
          if text = [] \<and> pendingAttachments s = [] then s
          else
            (let tempId = tempMessageId s - 1;
                 root = (case activeThreadRootId s of
                           None \<Rightarrow> None
                         | Some r \<Rightarrow> if r \<noteq> 0 \<and> has_key msg_id r (messages s) then Some r else None);
                 atts = map (\<lambda>i. optimistic_attachment tempId i (pendingAttachments s ! i) (urls ! i)) [0..<length (pendingAttachments s)];
                 m = optimistic_message me tempId t root time text mentions atts;
                 s1 = s\<lparr>tempMessageId := tempId,
                        optimisticUrls := (if pendingAttachments s = [] then optimisticUrls s
                                           else jmap_set tempId urls (optimisticUrls s)),
                        stickToBottom := True,
                        messages := sortChronologicalMessages H (messages s @ [m])\<rparr>
             in (updateLatestForTarget time m True s1)\<lparr>pendingAttachments := [], sending := True, error_text := [],
                   sends := sends s @ [\<lparr>sd_temp = tempId, sd_target = t\<rparr>]\<rparr>))"

definition mark_failed :: "local_message \<Rightarrow> local_message" where
  "mark_failed m = m\<lparr>pending := False, failed := True\<rparr>"

definition releaseOptimisticAttachmentUrls :: "int \<Rightarrow> page \<Rightarrow> page" where
  "releaseOptimisticAttachmentUrls i s = s\<lparr>optimisticUrls := filter (\<lambda>(k, _). k \<noteq> i) (optimisticUrls s)\<rparr>"

text \<open>What comes back: an error of the request or of an upload, a message, or a reply with neither.\<close>

datatype send_outcome = Send_error string | Send_message local_message | Send_nothing

definition send_reply :: "date_host \<Rightarrow> int \<Rightarrow> int \<Rightarrow> send_outcome \<Rightarrow> page \<Rightarrow> page option" where
  "send_reply H time tempId out s =
     (if \<not> has_key sd_temp tempId (sends s) then None
      else let s0 = s\<lparr>sends := drop_key sd_temp tempId (sends s), sending := False\<rparr>
           in Some (case out of
                Send_error e \<Rightarrow> s0\<lparr>error_text := e, messages := map_key msg_id tempId mark_failed (messages s)\<rparr>
              | Send_message m \<Rightarrow>
                  updateLatestForTarget time m True
                    ((releaseOptimisticAttachmentUrls tempId s0)\<lparr>messages :=
                        sortChronologicalMessages H
                          (filter (\<lambda>x. msg_id x \<noteq> tempId \<and> msg_id x \<noteq> msg_id m) (messages s) @ [m])\<rparr>)
              | Send_nothing \<Rightarrow> s0))"

definition addFiles :: "(int \<times> string \<times> string \<times> int) list \<Rightarrow> page \<Rightarrow> page" where
  "addFiles files s =
     s\<lparr>pendingAttachments := pendingAttachments s @
        map (\<lambda>(file, name, type, sz).
          \<lparr>pa_file = file, pa_s3_key = None, pa_filename = name,
           pa_content_type = (if type = [] then ''application/octet-stream'' else type),
           pa_byte_size = sz, pa_progress = 0, pa_uploaded = False\<rparr>) files\<rparr>"

definition upload_progress_event :: "int \<Rightarrow> int \<Rightarrow> page \<Rightarrow> page" where
  "upload_progress_event file percent s =
     s\<lparr>pendingAttachments := map_key pa_file file (\<lambda>a. a\<lparr>pa_progress := percent\<rparr>) (pendingAttachments s)\<rparr>"

section \<open>Changing messages\<close>

text \<open>
  The replies to \<open>saveEdit\<close>, \<open>togglePin\<close> and \<open>toggleReaction\<close> for the message \<open>i\<close> replace it in both
  lists; the reply to an edit also closes the editor.
\<close>

definition replace_message :: "date_host \<Rightarrow> int \<Rightarrow> local_message \<Rightarrow> page \<Rightarrow> page" where
  "replace_message H i m s =
     s\<lparr>messages := map_key msg_id i (\<lambda>_. m) (messages s), pinnedMessages := upsertPinnedMessage H (pinnedMessages s) m\<rparr>"

definition saveEdit :: "date_host \<Rightarrow> int \<Rightarrow> string + local_message \<Rightarrow> page \<Rightarrow> page" where
  "saveEdit H i reply s =
     (case reply of
        Inl e \<Rightarrow> if e = [] then s else s\<lparr>error_text := e\<rparr>
      | Inr m \<Rightarrow> (replace_message H i m s)\<lparr>editing := None\<rparr>)"

definition togglePin :: "date_host \<Rightarrow> int \<Rightarrow> local_message option \<Rightarrow> page \<Rightarrow> page" where
  "togglePin H i reply s = (case reply of None \<Rightarrow> s | Some m \<Rightarrow> replace_message H i m s)"

definition toggleReaction :: "date_host \<Rightarrow> int \<Rightarrow> local_message option \<Rightarrow> page \<Rightarrow> page" where
  "toggleReaction H i reply s = (case reply of None \<Rightarrow> s | Some m \<Rightarrow> replace_message H i m s)"

text \<open>\<open>Some []\<close> stands for a reply with neither data nor error.\<close>

definition deleteMessage :: "int \<Rightarrow> string option \<Rightarrow> page \<Rightarrow> page" where
  "deleteMessage i err s =
     (case err of
        None \<Rightarrow> (releaseOptimisticAttachmentUrls i s)\<lparr>messages := drop_key msg_id i (messages s),
                   pinnedMessages := drop_key msg_id i (pinnedMessages s)\<rparr>
      | Some e \<Rightarrow> if e = [] then s else s\<lparr>error_text := e\<rparr>)"

definition hide_author :: "int \<Rightarrow> local_message \<Rightarrow> local_message" where
  "hide_author a m =
     (if ur_id (msg_author m) = a then m\<lparr>blocked := Some True, body := [], attachments := [], msg_reactions := []\<rparr> else m)"

definition blockMessageAuthor :: "int \<Rightarrow> bool \<Rightarrow> page \<Rightarrow> page" where
  "blockMessageAuthor a ok s =
     (if ok then s\<lparr>messages := map (hide_author a) (messages s), pinnedMessages := map (hide_author a) (pinnedMessages s)\<rparr> else s)"

definition toggleMute :: "target \<Rightarrow> bool \<Rightarrow> bool \<Rightarrow> page \<Rightarrow> page" where
  "toggleMute t m ok s =
     (if \<not> ok then s
      else case t of
             Channel i \<Rightarrow> s\<lparr>channels := map_key conv_id i (\<lambda>c. c\<lparr>muted := m\<rparr>) (channels s)\<rparr>
           | Dm i \<Rightarrow> s\<lparr>dms := map_key conv_id i (\<lambda>c. c\<lparr>muted := m\<rparr>) (dms s)\<rparr>)"

section \<open>Steps\<close>

datatype page_event =
    Lists_loaded view_env "workspace_summary list option" "channel_summary list option" "direct_conversation_summary list option"
  | Route_effect view_env bool target "int option"
  | Commit_navigation view_env
  | Workspace_effect
  | Select_target view_env target load_options
  | Select_workspace view_env int
  | Refresh view_env
  | Load_reply int "load_data option"
  | Mark_reply int int
  | Workspace_read int int
  | Realtime view_env channel_message_event
  | Scrolled view_env
  | Open_thread "int option"
  | Thread_effect
  | Add_files "(int \<times> string \<times> string \<times> int) list"
  | Upload_percent int int
  | Send int string "int list" "string list"
  | Send_reply int int send_outcome
  | Edit_saved int "string + local_message"
  | Pin_toggled int "local_message option"
  | Reaction_toggled int "local_message option"
  | Deleted_reply int "string option"
  | Author_blocked int bool
  | Mute_toggled target bool bool

fun page_step :: "date_host \<Rightarrow> (string \<Rightarrow> string \<Rightarrow> int) \<Rightarrow> author \<Rightarrow> page_event \<Rightarrow> page \<Rightarrow> page option" where
  "page_step H lc me (Lists_loaded env ws cs ds) s = Some (loadLists H env ws cs ds s)"
| "page_step H lc me (Route_effect env initialized t routed) s = Some (route_effect env initialized t routed s)"
| "page_step H lc me (Commit_navigation env) s = commit_navigation env s"
| "page_step H lc me Workspace_effect s = Some (workspace_effect s)"
| "page_step H lc me (Select_target env t opts) s = (if background opts then None else Some (selectTarget env t opts s))"
| "page_step H lc me (Select_workspace env w) s = Some (selectWorkspace env w s)"
| "page_step H lc me (Refresh env) s = Some (refreshTarget env s)"
| "page_step H lc me (Load_reply rid d) s = load_reply H rid d s"
| "page_step H lc me (Mark_reply t rid) s = mark_reply t rid s"
| "page_step H lc me (Workspace_read t w) s = Some (markWorkspaceRead t w s)"
| "page_step H lc me (Realtime env ev) s = Some (realtime_event H lc me env ev s)"
| "page_step H lc me (Scrolled env) s = Some (handleConversationScroll env s)"
| "page_step H lc me (Open_thread r) s = Some (s\<lparr>activeThreadRootId := r\<rparr>)"
| "page_step H lc me Thread_effect s = Some (thread_effect s)"
| "page_step H lc me (Add_files fs) s = Some (addFiles fs s)"
| "page_step H lc me (Upload_percent f p) s = Some (upload_progress_event f p s)"
| "page_step H lc me (Send time text mentions urls) s =
     (if length urls = length (pendingAttachments s) then Some (handleSend H me time text mentions urls s) else None)"
| "page_step H lc me (Send_reply time tempId out) s = send_reply H time tempId out s"
| "page_step H lc me (Edit_saved i r) s = Some (saveEdit H i r s)"
| "page_step H lc me (Pin_toggled i r) s = Some (togglePin H i r s)"
| "page_step H lc me (Reaction_toggled i r) s = Some (toggleReaction H i r s)"
| "page_step H lc me (Deleted_reply i e) s = Some (deleteMessage i e s)"
| "page_step H lc me (Author_blocked a ok) s = Some (blockMessageAuthor a ok s)"
| "page_step H lc me (Mute_toggled t m ok) s = Some (toggleMute t m ok s)"

section \<open>What the server sends\<close>

text \<open>
  The assumptions on data from the server: identities of messages are positive, a message has one
  creation time (\<open>ct\<close> gives it) which is a date, its pin date is a date, lists have no duplicates,
  replies about a message carry its identity, and counters are not negative.
\<close>

definition server_message :: "date_host \<Rightarrow> (int \<Rightarrow> string) \<Rightarrow> local_message \<Rightarrow> bool" where
  "server_message H ct m \<longleftrightarrow>
     0 < msg_id m \<and> created_at m = ct (msg_id m) \<and> created_time H m \<noteq> None \<and> pinned_time H m \<noteq> None"

definition server_messages :: "date_host \<Rightarrow> (int \<Rightarrow> string) \<Rightarrow> local_message list \<Rightarrow> bool" where
  "server_messages H ct ms \<longleftrightarrow> distinct (map msg_id ms) \<and> list_all (server_message H ct) ms"

definition server_reply :: "date_host \<Rightarrow> (int \<Rightarrow> string) \<Rightarrow> int \<Rightarrow> local_message option \<Rightarrow> bool" where
  "server_reply H ct i r = (case r of None \<Rightarrow> True | Some m \<Rightarrow> server_message H ct m \<and> msg_id m = i)"

definition summaries_ok :: "('a) conversation_summary_scheme list \<Rightarrow> bool" where
  "summaries_ok cs = list_all (\<lambda>c. 0 \<le> unread_count c) cs"

fun server_ok :: "date_host \<Rightarrow> (int \<Rightarrow> string) \<Rightarrow> page_event \<Rightarrow> bool" where
  "server_ok H ct (Lists_loaded env ws cs ds) \<longleftrightarrow>
     (case cs of None \<Rightarrow> True | Some x \<Rightarrow> summaries_ok x) \<and> (case ds of None \<Rightarrow> True | Some x \<Rightarrow> summaries_ok x)"
| "server_ok H ct (Load_reply rid d) \<longleftrightarrow>
     (case d of
        None \<Rightarrow> True
      | Some (Channel_data c ms ps) \<Rightarrow> 0 \<le> unread_count c \<and> server_messages H ct ms \<and> server_messages H ct ps
      | Some (Dm_data c ms ps) \<Rightarrow> 0 \<le> unread_count c \<and> server_messages H ct ms \<and> server_messages H ct ps)"
| "server_ok H ct (Realtime env ev) \<longleftrightarrow>
     server_message H ct (ev_message ev) \<and>
     (case ev_channel ev of None \<Rightarrow> True | Some c \<Rightarrow> 0 \<le> unread_count c) \<and>
     (case ev_dm ev of None \<Rightarrow> True | Some c \<Rightarrow> 0 \<le> unread_count c)"
| "server_ok H ct (Send time text mentions urls) \<longleftrightarrow> \<bar>time\<bar> \<le> 8640000000000000"
| "server_ok H ct (Send_reply time tempId (Send_message m)) \<longleftrightarrow> server_message H ct m"
| "server_ok H ct (Edit_saved i (Inr m)) \<longleftrightarrow> server_reply H ct i (Some m)"
| "server_ok H ct (Pin_toggled i r) \<longleftrightarrow> server_reply H ct i r"
| "server_ok H ct (Reaction_toggled i r) \<longleftrightarrow> server_reply H ct i r"
| "server_ok H ct _ \<longleftrightarrow> True"

definition served_step ::
  "date_host \<Rightarrow> (string \<Rightarrow> string \<Rightarrow> int) \<Rightarrow> author \<Rightarrow> (int \<Rightarrow> string) \<Rightarrow> page_event \<Rightarrow> page \<Rightarrow> page option" where
  "served_step H lc me ct e s = (if server_ok H ct e then page_step H lc me e s else None)"

section \<open>The message list in every run\<close>

definition dated_message :: "date_host \<Rightarrow> local_message \<Rightarrow> bool" where
  "dated_message H m \<longleftrightarrow> created_time H m \<noteq> None"

interpretation ct: timeline msg_id "chronological_cmp H" "dated_message H" for H
  unfolding dated_message_def by (rule time_cmp_timeline) (simp add: chronological_cmp_def)

text \<open>A message is the server's, with its creation time, or a local one numbered from \<open>-1\<close> downwards.\<close>

definition known :: "(int \<Rightarrow> string) \<Rightarrow> int \<Rightarrow> local_message \<Rightarrow> bool" where
  "known ct tmp m \<longleftrightarrow> (0 < msg_id m \<and> created_at m = ct (msg_id m)) \<or> (tmp \<le> msg_id m \<and> msg_id m < 0)"

definition list_ok :: "date_host \<Rightarrow> (int \<Rightarrow> string) \<Rightarrow> int \<Rightarrow> local_message list \<Rightarrow> bool" where
  "list_ok H ct tmp ms \<longleftrightarrow>
     in_order msg_id (chronological_cmp H) (dated_message H) ms \<and> list_all (known ct tmp) ms"

lemma list_ok_Nil [simp]: "list_ok H ct tmp []"
  by (simp add: list_ok_def)

lemma list_ok_sort:
  assumes "distinct (map msg_id ms)" "list_all (dated_message H) ms" "list_all (known ct tmp) ms"
  shows "list_ok H ct tmp (sortChronologicalMessages H ms)"
  using assms ct.in_order_sort unfolding list_ok_def sortChronologicalMessages_def by (simp add: list_all_iff)

lemma list_ok_filter: "list_ok H ct tmp ms \<Longrightarrow> list_ok H ct tmp (filter P ms)"
  by (auto simp: list_ok_def in_order_filter list_all_iff)

lemma list_okD:
  assumes "list_ok H ct tmp ms"
  shows "distinct (map msg_id ms)" "list_all (dated_message H) ms" "list_all (known ct tmp) ms"
  using assms by (auto simp: list_ok_def in_order_def)

lemma server_known: "server_message H ct m \<Longrightarrow> known ct tmp m \<and> dated_message H m"
  by (simp add: server_message_def known_def dated_message_def)

text \<open>An update that keeps identities and creation times keeps the list in order.\<close>

lemma list_ok_map_key:
  assumes "list_ok H ct tmp ms"
    and f: "\<And>x. x \<in> set ms \<Longrightarrow> msg_id x = k \<Longrightarrow> msg_id (f x) = k \<and> created_at (f x) = created_at x"
  shows "list_ok H ct tmp (map_key msg_id k f ms)"
  unfolding list_ok_def
proof
  show "in_order msg_id (chronological_cmp H) (dated_message H) (map_key msg_id k f ms)"
  proof (rule ct.in_order_map_key)
    show "msg_id (f x) = k \<and> dated_message H (f x) \<and>
        (\<forall>y. chronological_cmp H (f x) y = chronological_cmp H x y \<and> chronological_cmp H y (f x) = chronological_cmp H y x)"
      if "x \<in> set ms" "msg_id x = k" for x
    proof -
      have "dated_message H x" using list_okD(2) [OF assms(1)] that by (simp add: list_all_iff)
      then show ?thesis
        using f [OF that] that by (simp add: chronological_cmp_def dated_message_def created_time_def)
    qed
  qed (use assms(1) in \<open>simp add: list_ok_def\<close>)
  show "list_all (known ct tmp) (map_key msg_id k f ms)"
    using list_okD(3) [OF assms(1)] f by (auto simp: list_all_iff set_map_key known_def)
qed

lemma list_ok_append:
  assumes "list_ok H ct tmp ms" "dated_message H m" "known ct tmp' m" "tmp' \<le> tmp" "\<not> has_key msg_id (msg_id m) ms"
  shows "list_ok H ct tmp' (sortChronologicalMessages H (ms @ [m]))"
  using assms list_okD [OF assms(1)]
  by (intro list_ok_sort) (auto simp: has_key_iff list_all_iff known_def)

lemma list_ok_merge_event:
  assumes "list_ok H ct tmp ms" "server_message H ct m"
  shows "list_ok H ct tmp (merge_event H k m ms)"
proof (cases "k = Deleted")
  case True
  with assms show ?thesis by (simp add: merge_event_def drop_key_def list_ok_filter)
next
  case False
  note d = list_okD [OF assms(1)] and sk = server_known [OF assms(2)]
  have "list_ok H ct tmp (sortChronologicalMessages H (map_key msg_id (msg_id m) (\<lambda>item. mergeIncomingMessage item m) ms))"
  proof (rule list_ok_sort)
    show "distinct (map msg_id (map_key msg_id (msg_id m) (\<lambda>item. mergeIncomingMessage item m) ms))"
      using d(1) by (simp add: keys_map_key)
    show "list_all (dated_message H) (map_key msg_id (msg_id m) (\<lambda>item. mergeIncomingMessage item m) ms)"
      using d(2) sk by (auto simp: list_all_iff set_map_key dated_message_def created_time_def)
    show "list_all (known ct tmp) (map_key msg_id (msg_id m) (\<lambda>item. mergeIncomingMessage item m) ms)"
      using d(3) sk by (auto simp: list_all_iff set_map_key known_def)
  qed
  moreover have "\<not> has_key msg_id (msg_id m) ms \<Longrightarrow> list_ok H ct tmp (sortChronologicalMessages H (ms @ [m]))"
    using list_ok_append [OF assms(1)] sk by blast
  ultimately show ?thesis using False by (simp add: merge_event_def)
qed

lemma hide_author_simps [simp]:
  "msg_id (hide_author a m) = msg_id m" "created_at (hide_author a m) = created_at m"
  "pinned_at (hide_author a m) = pinned_at m"
  by (simp_all add: hide_author_def)

lemma msg_id_hide: "msg_id \<circ> hide_author a = msg_id"
  by (simp add: fun_eq_iff)

lemma list_ok_hide: "list_ok H ct tmp ms \<Longrightarrow> list_ok H ct tmp (map (hide_author a) ms)"
  by (simp add: list_ok_def in_order_def msg_id_hide list_all_iff known_def dated_message_def created_time_def
      sorted_wrt_map chronological_cmp_def)

lemma pinned_time_hide [simp]: "pinned_time H (hide_author a m) = pinned_time H m"
  by (simp add: pinned_time_def)

lemma pinned_ok_hide: "pinned_ok H ms \<Longrightarrow> pinned_ok H (map (hide_author a) ms)"
  by (simp add: pinned_ok_def in_order_def msg_id_hide list_all_iff pinned_dated_def sorted_wrt_map pinned_cmp_def)

lemma toISOString_dated:
  assumes "\<bar>time\<bar> \<le> 8640000000000000"
  shows "dated_message H (optimistic_message me tempId t root time text mentions atts)"
  using Date_parse_toISOString [OF assms] by (simp add: dated_message_def created_time_def optimistic_message_def)

lemma server_messages_ok:
  assumes "server_messages H ct ms"
  shows "list_ok H ct tmp (sortChronologicalMessages H ms)" "pinned_ok H (sortPinnedMessages H ms)"
proof -
  have "list_all (known ct tmp) ms" "list_all (dated_message H) ms"
    using assms server_known by (auto simp: server_messages_def list_all_iff)
  with assms show "list_ok H ct tmp (sortChronologicalMessages H ms)"
    by (intro list_ok_sort) (auto simp: server_messages_def)
  show "pinned_ok H (sortPinnedMessages H ms)"
    using assms unfolding pinned_ok_def sortPinnedMessages_def
    by (intro pt.in_order_sort) (auto simp: server_messages_def server_message_def list_all_iff pinned_dated_def)
qed

lemma server_pinned: "server_message H ct m \<Longrightarrow> pinned_dated H m"
  by (simp add: server_message_def pinned_dated_def)

lemma merge_pinned_ok: "pinned_ok H ps \<Longrightarrow> server_message H ct m \<Longrightarrow> pinned_ok H (merge_pinned H k m ps)"
  by (simp add: merge_pinned_def pinned_list_ok server_pinned, simp add: pinned_ok_def in_order_drop_key)

subsection \<open>What the handlers leave alone\<close>

text \<open>The part of the page the invariants are about.\<close>

definition core :: "page \<Rightarrow> local_message list \<times> local_message list \<times> int" where
  "core s = (messages s, pinnedMessages s, tempMessageId s)"

definition counts :: "page \<Rightarrow> channel_summary list \<times> direct_conversation_summary list" where
  "counts s = (channels s, dms s)"

lemma loadTarget_frame [simp]: "core (loadTarget env t m opts s) = core s" "counts (loadTarget env t m opts s) = counts s"
  by (simp_all add: loadTarget_def Let_def core_def counts_def)

lemma target_effect_frame [simp]: "core (target_effect env s) = core s" "counts (target_effect env s) = counts s"
  by (simp_all add: target_effect_def Let_def split: option.split, simp_all add: core_def counts_def)

lemma set_target_frame [simp]: "core (set_target env t s) = core s" "counts (set_target env t s) = counts s"
  by (simp_all add: set_target_def, simp_all add: core_def counts_def)

lemma route_effect_frame [simp]: "core (route_effect env b t r s) = core s" "counts (route_effect env b t r s) = counts s"
  by (simp_all add: route_effect_def, simp_all add: core_def counts_def)

lemma selectTarget_frame [simp]: "core (selectTarget env t opts s) = core s" "counts (selectTarget env t opts s) = counts s"
  by (simp_all add: selectTarget_def Let_def, simp_all add: core_def counts_def)

lemma selectWorkspace_frame [simp]: "core (selectWorkspace env w s) = core s" "counts (selectWorkspace env w s) = counts s"
  by (simp_all add: selectWorkspace_def Let_def split: option.split, simp_all add: core_def counts_def)

lemma refreshTarget_frame [simp]: "core (refreshTarget env s) = core s" "counts (refreshTarget env s) = counts s"
  by (simp_all add: refreshTarget_def split: option.split, simp_all add: core_def counts_def)

lemma finish_load_frame [simp]: "core (finish_load l s) = core s" "counts (finish_load l s) = counts s"
  by (simp_all add: finish_load_def Let_def core_def counts_def)

lemma drop_load_frame [simp]: "core (drop_load l s) = core s" "counts (drop_load l s) = counts s"
  by (simp_all add: drop_load_def Let_def core_def counts_def)

lemma workspace_effect_frame [simp]: "core (workspace_effect s) = core s" "counts (workspace_effect s) = counts s"
  by (simp_all add: workspace_effect_def core_def counts_def split: option.split)

lemma thread_effect_frame [simp]: "core (thread_effect s) = core s" "counts (thread_effect s) = counts s"
  by (simp_all add: thread_effect_def core_def counts_def split: option.split)

lemma scroll_frame [simp]:
  "core (handleConversationScroll env s) = core s" "counts (handleConversationScroll env s) = counts s"
  by (simp_all add: handleConversationScroll_def Let_def core_def counts_def)

lemma files_frame [simp]:
  "core (addFiles fs s) = core s" "counts (addFiles fs s) = counts s"
  "core (upload_progress_event f p s) = core s" "counts (upload_progress_event f p s) = counts s"
  by (simp_all add: addFiles_def upload_progress_event_def core_def counts_def)

lemma mark_read_core [simp]:
  "core (mark_target_read t tg s) = core s" "core (markWorkspaceRead t w s) = core s"
  "core (updateLatestForTarget t m b s) = core s" "core (updateTargetSummaryFromEvent lc t ev m b s) = core s"
  "core (toggleMute tg b ok s) = core s"
  by (simp_all add: mark_target_read_def markWorkspaceRead_def updateTargetSummaryFromEvent_def updateLatestForTarget_def
      toggleMute_def Let_def core_def split: target.split option.split)

lemma loadLists_core [simp]: "core (loadLists H env ws cs ds s) = core s"
  by (simp add: loadLists_def Let_def, simp add: core_def)

lemma release_frame [simp]:
  "core (releaseOptimisticAttachmentUrls i s) = core s" "counts (releaseOptimisticAttachmentUrls i s) = counts s"
  by (simp_all add: releaseOptimisticAttachmentUrls_def core_def counts_def)

subsection \<open>Every step keeps the lists\<close>

definition core_ok :: "date_host \<Rightarrow> (int \<Rightarrow> string) \<Rightarrow> page \<Rightarrow> bool" where
  "core_ok H ct s \<longleftrightarrow>
     list_ok H ct (tempMessageId s) (messages s) \<and> pinned_ok H (pinnedMessages s) \<and> tempMessageId s \<le> 0"

lemma core_ok_cong: "core s' = core s \<Longrightarrow> core_ok H ct s \<Longrightarrow> core_ok H ct s'"
  by (simp add: core_ok_def core_def)

lemma core_okI:
  "core s = (ms, ps, tmp) \<Longrightarrow> list_ok H ct tmp ms \<Longrightarrow> pinned_ok H ps \<Longrightarrow> tmp \<le> 0 \<Longrightarrow> core_ok H ct s"
  by (simp add: core_ok_def core_def)

lemma core_okD: "core_ok H ct s \<Longrightarrow> list_ok H ct (tempMessageId s) (messages s) \<and> pinned_ok H (pinnedMessages s) \<and> tempMessageId s \<le> 0"
  by (simp add: core_ok_def)

lemma pinned_ok_Nil [simp]: "pinned_ok H []"
  by (simp add: pinned_ok_def)

lemma commit_core:
  assumes "core_ok H ct s" "commit_navigation env s = Some s'"
  shows "core_ok H ct s'"
proof -
  obtain n where n: "navigation s = Some n" using assms(2) by (auto simp: commit_navigation_def split: option.splits)
  consider "nav_target n = None" | "nav_target n = Some None" | t where "nav_target n = Some (Some t)"
    by (metis option.exhaust)
  then show ?thesis
  proof cases
    case 1
    then have "core s' = core s" using n assms(2) by (auto simp: commit_navigation_def Let_def core_def)
    then show ?thesis using assms(1) by (rule core_ok_cong)
  next
    case 2
    then have c: "core s' = ([], [], tempMessageId s)" using n assms(2)
      by (auto simp: commit_navigation_def Let_def, simp_all add: core_def)
    show ?thesis using core_okD [OF assms(1)] by (intro core_okI [OF c]) simp_all
  next
    case 3
    then have "core s' = core s" using n assms(2) by (auto simp: commit_navigation_def Let_def, simp_all add: core_def)
    then show ?thesis using assms(1) by (rule core_ok_cong)
  qed
qed

lemma show_data_core: "core (show_data H ms ps opts s) = (sortChronologicalMessages H ms, sortPinnedMessages H ps, tempMessageId s)"
  by (simp add: show_data_def core_def)

lemma apply_data_core:
  "core (fst (apply_data H l d s)) =
     (case d of Channel_data c ms ps \<Rightarrow> (sortChronologicalMessages H ms, sortPinnedMessages H ps, tempMessageId s)
      | Dm_data c ms ps \<Rightarrow> (sortChronologicalMessages H ms, sortPinnedMessages H ps, tempMessageId s))"
  by (simp add: apply_data_def core_def show_data_def split: load_data.split)

lemma load_reply_core:
  assumes "core_ok H ct s" "server_ok H ct (Load_reply rid d)" "load_reply H rid d s = Some s'"
  shows "core_ok H ct s'"
proof -
  obtain l where l: "find_key ld_id rid (loads s) = Some l" "ld_stage l = Fetching"
    using assms(3) by (auto simp: load_reply_def split: option.splits if_splits)
  consider "core s' = core s" | x where "d = Some x" "core s' = core (fst (apply_data H l x s))"
  proof (cases "rid \<noteq> targetRequest s \<or> d = None")
    case True
    then have "core s' = core s" using assms(3) l by (auto simp: load_reply_def split: if_splits)
    then show ?thesis by (rule that)
  next
    case False
    then obtain x where x: "d = Some x" by auto
    have "core s' = core (fst (apply_data H l x s))"
      using assms(3) l False x
      by (auto simp: load_reply_def Let_def split_def split: if_splits) (simp_all add: core_def)
    with x show ?thesis by (rule that)
  qed
  then show ?thesis
  proof cases
    case 1
    then show ?thesis using assms(1) by (rule core_ok_cong)
  next
    case (2 x)
    then obtain ms ps where "core s' = (sortChronologicalMessages H ms, sortPinnedMessages H ps, tempMessageId s)"
        "server_messages H ct ms" "server_messages H ct ps"
      using assms(2) by (cases x) (auto simp: apply_data_core)
    then show ?thesis using core_okD [OF assms(1)] server_messages_ok by (intro core_okI) auto
  qed
qed

lemma mark_reply_core:
  assumes "core_ok H ct s" "mark_reply t rid s = Some s'"
  shows "core_ok H ct s'"
proof -
  have "core s' = core s" using assms(2) by (auto simp: mark_reply_def split: option.splits if_splits)
  then show ?thesis using assms(1) by (rule core_ok_cong)
qed

lemma mine_times [simp]:
  "created_time H (m\<lparr>mine := b\<rparr>) = created_time H m" "pinned_time H (m\<lparr>mine := b\<rparr>) = pinned_time H m"
  by (simp_all add: created_time_def pinned_time_def)

lemma realtime_core:
  assumes "core_ok H ct s" "server_message H ct (ev_message ev)"
  shows "core_ok H ct (realtime_event H lc me env ev s)"
proof -
  let ?m = "(ev_message ev)\<lparr>mine := (case ev_mine ev of Some b \<Rightarrow> b | None \<Rightarrow> ur_id (msg_author (ev_message ev)) = ur_id me)\<rparr>"
  have m: "server_message H ct ?m" using assms(2) by (simp add: server_message_def)
  have "core (realtime_event H lc me env ev s) = core s \<or>
      core (realtime_event H lc me env ev s) = (merge_event H (ev_kind ev) ?m (messages s), merge_pinned H (ev_kind ev) ?m (pinnedMessages s), tempMessageId s)"
    using mark_read_core(4) [of lc "now env" ev ?m _ s]
    by (auto simp: realtime_event_def Let_def core_def)
  then show ?thesis
  proof
    assume "core (realtime_event H lc me env ev s) = core s"
    then show ?thesis using assms(1) by (rule core_ok_cong)
  next
    assume "core (realtime_event H lc me env ev s) =
      (merge_event H (ev_kind ev) ?m (messages s), merge_pinned H (ev_kind ev) ?m (pinnedMessages s), tempMessageId s)"
    then show ?thesis
      using core_okD [OF assms(1)] list_ok_merge_event [OF _ m] merge_pinned_ok [OF _ m] by (intro core_okI) auto
  qed
qed

lemma send_core:
  assumes "core_ok H ct s" "\<bar>time\<bar> \<le> 8640000000000000"
  shows "core_ok H ct (handleSend H me time text mentions urls s)"
proof (cases "selectedTarget s = None \<or> (text = [] \<and> pendingAttachments s = [])")
  case True
  then have "handleSend H me time text mentions urls s = s" by (auto simp: handleSend_def split: option.split)
  with assms show ?thesis by simp
next
  case False
  then obtain t where t: "selectedTarget s = Some t" "\<not> (text = [] \<and> pendingAttachments s = [])" by auto
  define root where "root = (case activeThreadRootId s of None \<Rightarrow> None
      | Some r \<Rightarrow> if r \<noteq> 0 \<and> has_key msg_id r (messages s) then Some r else None)"
  define atts where "atts = map (\<lambda>i. optimistic_attachment (tempMessageId s - 1) i (pendingAttachments s ! i) (urls ! i))
      [0..<length (pendingAttachments s)]"
  have upd: "core (x\<lparr>pendingAttachments := a, sending := b, error_text := e, sends := sd\<rparr>) = core x" for x a b e sd
    by (simp add: core_def)
  have c: "core (handleSend H me time text mentions urls s) =
      (sortChronologicalMessages H (messages s @ [optimistic_message me (tempMessageId s - 1) t root time text mentions atts]),
       pinnedMessages s, tempMessageId s - 1)"
    unfolding handleSend_def t(1) option.case if_not_P [OF t(2)] Let_def upd mark_read_core
      root_def [symmetric] atts_def [symmetric] by (simp add: core_def)
  let ?m = "optimistic_message me (tempMessageId s - 1) t root time text mentions atts"
  have ok: "list_ok H ct (tempMessageId s) (messages s)" "tempMessageId s \<le> 0" using assms(1) by (simp_all add: core_ok_def)
  have "msg_id x \<noteq> tempMessageId s - 1" if "x \<in> set (messages s)" for x
    using list_okD(3) [OF ok(1)] that ok(2) by (auto simp: list_all_iff known_def)
  then have "\<not> has_key msg_id (msg_id ?m) (messages s)" by (simp add: has_key_def list_ex_iff optimistic_message_def)
  then have "list_ok H ct (tempMessageId s - 1) (sortChronologicalMessages H (messages s @ [?m]))"
    using ok by (intro list_ok_append [OF ok(1) toISOString_dated [OF assms(2)]]) (auto simp: known_def optimistic_message_def)
  with c core_okD [OF assms(1)] show ?thesis by (intro core_okI) auto
qed

lemma send_reply_core:
  assumes "core_ok H ct s" "server_ok H ct (Send_reply time tempId out)" "send_reply H time tempId out s = Some s'"
  shows "core_ok H ct s'"
proof (cases out)
  case (Send_error e)
  then have "core s' = (map_key msg_id tempId mark_failed (messages s), pinnedMessages s, tempMessageId s)"
    using assms(3) by (auto simp: send_reply_def core_def Let_def split: if_splits)
  moreover have "list_ok H ct (tempMessageId s) (map_key msg_id tempId mark_failed (messages s))"
    using core_okD [OF assms(1)] by (intro list_ok_map_key) (simp_all add: mark_failed_def)
  ultimately show ?thesis using core_okD [OF assms(1)] by (intro core_okI) auto
next
  case (Send_message m)
  let ?ms = "filter (\<lambda>x. msg_id x \<noteq> tempId \<and> msg_id x \<noteq> msg_id m) (messages s)"
  have "core s' = (sortChronologicalMessages H (?ms @ [m]), pinnedMessages s, tempMessageId s)"
    using assms(3) Send_message
    by (auto simp: send_reply_def Let_def split: if_splits)
      (simp add: core_def releaseOptimisticAttachmentUrls_def)
  moreover have "list_ok H ct (tempMessageId s) (sortChronologicalMessages H (?ms @ [m]))"
    using core_okD [OF assms(1)] assms(2) Send_message server_known
    by (intro list_ok_append [OF list_ok_filter]) (auto simp: has_key_def list_ex_iff)
  ultimately show ?thesis using core_okD [OF assms(1)] by (intro core_okI) auto
next
  case Send_nothing
  then have "core s' = core s" using assms(3) by (auto simp: send_reply_def core_def Let_def split: if_splits)
  then show ?thesis using assms(1) by (rule core_ok_cong)
qed

lemma replace_core:
  assumes "core_ok H ct s" "server_message H ct m" "msg_id m = i"
  shows "core_ok H ct (replace_message H i m s)"
proof (rule core_okI)
  show "core (replace_message H i m s) =
      (map_key msg_id i (\<lambda>_. m) (messages s), upsertPinnedMessage H (pinnedMessages s) m, tempMessageId s)"
    by (simp add: replace_message_def core_def)
  have "created_at m = created_at x" if "x \<in> set (messages s)" "msg_id x = i" for x
  proof -
    have "known ct (tempMessageId s) x" using list_okD(3) core_okD [OF assms(1)] that(1) by (auto simp: list_all_iff)
    then show ?thesis using assms(2,3) that(2) by (auto simp: known_def server_message_def)
  qed
  then show "list_ok H ct (tempMessageId s) (map_key msg_id i (\<lambda>_. m) (messages s))"
    using core_okD [OF assms(1)] assms(2,3)
    by (intro list_ok_map_key) auto
  show "pinned_ok H (upsertPinnedMessage H (pinnedMessages s) m)"
    using core_okD [OF assms(1)] pinned_list_ok server_pinned [OF assms(2)] by blast
  show "tempMessageId s \<le> 0" using core_okD [OF assms(1)] by simp
qed

lemma change_core:
  assumes "core_ok H ct s"
  shows "server_ok H ct (Edit_saved i r) \<Longrightarrow> core_ok H ct (saveEdit H i r s)"
    and "server_reply H ct i q \<Longrightarrow> core_ok H ct (togglePin H i q s)"
    and "server_reply H ct i q \<Longrightarrow> core_ok H ct (toggleReaction H i q s)"
    and "core_ok H ct (deleteMessage i e s)"
    and "core_ok H ct (blockMessageAuthor a ok s)"
proof -
  note d = core_okD [OF assms]
  have err: "core_ok H ct (s\<lparr>error_text := e\<rparr>)" for e
    by (rule core_ok_cong [OF _ assms]) (simp add: core_def)
  have ed: "core_ok H ct (x\<lparr>editing := e\<rparr>)" if "core_ok H ct x" for x e
    by (rule core_ok_cong [OF _ that]) (simp add: core_def)
  show "core_ok H ct (saveEdit H i r s)" if "server_ok H ct (Edit_saved i r)"
    using that assms err ed replace_core [OF assms] by (cases r) (auto simp: saveEdit_def server_reply_def)
  show "core_ok H ct (togglePin H i q s)" "core_ok H ct (toggleReaction H i q s)" if "server_reply H ct i q"
    using that assms replace_core [OF assms] by (auto simp: togglePin_def toggleReaction_def server_reply_def split: option.splits)
  have "core_ok H ct ((releaseOptimisticAttachmentUrls i s)\<lparr>messages := drop_key msg_id i (messages s),
      pinnedMessages := drop_key msg_id i (pinnedMessages s)\<rparr>)"
    using d by (intro core_okI [where tmp = "tempMessageId s"])
      (auto simp: core_def releaseOptimisticAttachmentUrls_def drop_key_def list_ok_filter pinned_ok_def in_order_filter)
  then show "core_ok H ct (deleteMessage i e s)"
    using assms err by (auto simp: deleteMessage_def split: option.split)
  have "core_ok H ct (s\<lparr>messages := map (hide_author a) (messages s), pinnedMessages := map (hide_author a) (pinnedMessages s)\<rparr>)"
    using d by (intro core_okI [OF _ list_ok_hide pinned_ok_hide]) (auto simp: core_def)
  then show "core_ok H ct (blockMessageAuthor a ok s)"
    using assms by (simp add: blockMessageAuthor_def)
qed

lemma core_step:
  assumes "core_ok H ct s" "served_step H lc me ct e s = Some s'"
  shows "core_ok H ct s'"
proof -
  have ok: "server_ok H ct e" and st: "page_step H lc me e s = Some s'"
    using assms(2) by (auto simp: served_step_def split: if_splits)
  have same: "core s' = core s \<Longrightarrow> core_ok H ct s'" using core_ok_cong [OF _ assms(1)] by blast
  show ?thesis
  proof (cases e)
    case (Open_thread r)
    then show ?thesis using st same by (auto simp: core_def)
  qed (use ok st same assms(1) in \<open>auto split: if_splits intro: commit_core load_reply_core mark_reply_core
      realtime_core send_core send_reply_core change_core(4,5) change_core(1-3)\<close>)
qed

section \<open>Unread counters\<close>

definition counts_ok :: "page \<Rightarrow> bool" where
  "counts_ok s \<longleftrightarrow> summaries_ok (channels s) \<and> summaries_ok (dms s)"

lemma counts_ok_cong: "counts s' = counts s \<Longrightarrow> counts_ok s \<Longrightarrow> counts_ok s'"
  by (simp add: counts_ok_def counts_def)

lemma counts_okI: "counts s = (cs, ds) \<Longrightarrow> summaries_ok cs \<Longrightarrow> summaries_ok ds \<Longrightarrow> counts_ok s"
  by (simp add: counts_ok_def counts_def)

lemma summaries_ok_map_key:
  "summaries_ok cs \<Longrightarrow> (\<And>c. c \<in> set cs \<Longrightarrow> 0 \<le> unread_count c \<Longrightarrow> 0 \<le> unread_count (f c)) \<Longrightarrow> summaries_ok (map_key g k f cs)"
  by (auto simp: summaries_ok_def list_all_iff set_map_key)

lemma summary_updates [simp]:
  "unread_count (mark_summary_read t c) = 0"
  "unread_count (updated_summary t m b c) = (if b then 0 else unread_count c + (if mine m then 0 else 1))"
  "conv_id (mark_summary_read t c) = conv_id c"
  by (simp_all add: mark_summary_read_def updated_summary_def)

lemma mark_counts:
  assumes "counts_ok s"
  shows "counts_ok (mark_target_read t tg s)" "counts_ok (markWorkspaceRead t w s)"
    "counts_ok (updateLatestForTarget t m b s)" "counts_ok (toggleMute tg q ok s)"
proof -
  have c: "summaries_ok (channels s)" "summaries_ok (dms s)" using assms by (simp_all add: counts_ok_def)
  show "counts_ok (mark_target_read t tg s)"
    using c by (cases tg) (simp_all add: counts_ok_def mark_target_read_def summaries_ok_map_key)
  show "counts_ok (markWorkspaceRead t w s)"
    using c assms by (simp add: markWorkspaceRead_def) (simp add: counts_ok_def summaries_ok_map_key)
  show "counts_ok (updateLatestForTarget t m b s)"
    using c by (simp add: counts_ok_def updateLatestForTarget_def summaries_ok_map_key)
  show "counts_ok (toggleMute tg q ok s)"
    using c assms by (cases tg) (simp_all add: counts_ok_def toggleMute_def summaries_ok_map_key)
qed

lemma summaries_ok_insert:
  "summaries_ok cs \<Longrightarrow> 0 \<le> unread_count c \<Longrightarrow> summaries_ok (js_sort f (cs @ [c])) \<and> summaries_ok (c # cs)"
  by (simp add: summaries_ok_def list_all_iff)

lemma summary_event_counts:
  assumes "counts_ok s" "server_ok H ct (Realtime env ev)"
  shows "counts_ok (updateTargetSummaryFromEvent lc t ev m b s)"
proof -
  have c: "summaries_ok (channels s)" "summaries_ok (dms s)" using assms by (simp_all add: counts_ok_def)
  consider x where "ev_channel ev = Some x" | y where "ev_channel ev = None" "ev_dm ev = Some y"
    | "ev_channel ev = None" "ev_dm ev = None" by (metis option.exhaust)
  then show ?thesis
  proof cases
    case (1 x)
    then show ?thesis using c assms(2)
      by (simp add: updateTargetSummaryFromEvent_def Let_def counts_ok_def summaries_ok_map_key summaries_ok_insert)
  next
    case (2 y)
    then show ?thesis using c assms(2)
      by (simp add: updateTargetSummaryFromEvent_def Let_def counts_ok_def summaries_ok_map_key summaries_ok_insert)
  next
    case 3
    then show ?thesis using assms(1) mark_counts(3) by (simp add: updateTargetSummaryFromEvent_def)
  qed
qed

lemma load_reply_counts:
  assumes "counts_ok s" "server_ok H ct (Load_reply rid d)" "load_reply H rid d s = Some s'"
  shows "counts_ok s'"
proof -
  obtain l where l: "find_key ld_id rid (loads s) = Some l" "ld_stage l = Fetching"
    using assms(3) by (auto simp: load_reply_def split: option.splits if_splits)
  show ?thesis
  proof (cases "rid \<noteq> targetRequest s \<or> d = None")
    case True
    then have "counts s' = counts s" using assms(3) l by (auto simp: load_reply_def split: if_splits)
    then show ?thesis using assms(1) by (rule counts_ok_cong)
  next
    case False
    then obtain x where x: "d = Some x" by auto
    have "counts s' = counts (fst (apply_data H l x s))"
      using assms(3) l False x
      by (auto simp: load_reply_def Let_def split_def split: if_splits) (simp_all add: counts_def)
    moreover have "counts_ok (fst (apply_data H l x s))"
      using assms(1,2) x
      by (cases x; cases "ld_target l") (simp_all add: apply_data_def show_data_def counts_ok_def summaries_ok_map_key)
    ultimately show ?thesis by (rule counts_ok_cong)
  qed
qed

lemma send_counts:
  assumes "counts_ok s"
  shows "counts_ok (handleSend H me time tx mentions urls s)"
proof (cases "selectedTarget s = None \<or> (tx = [] \<and> pendingAttachments s = [])")
  case True
  then have "handleSend H me time tx mentions urls s = s" by (auto simp: handleSend_def split: option.split)
  with assms show ?thesis by simp
next
  case False
  then obtain t where t: "selectedTarget s = Some t" "\<not> (tx = [] \<and> pendingAttachments s = [])" by auto
  have upd: "counts_ok (x\<lparr>pendingAttachments := a, sending := b, error_text := e, sends := sd\<rparr>) = counts_ok x" for x a b e sd
    by (simp add: counts_ok_def)
  have "counts_ok (s\<lparr>tempMessageId := n, optimisticUrls := u, stickToBottom := b, messages := ms\<rparr>)" for n u b ms
    using assms by (simp add: counts_ok_def)
  then show ?thesis
    unfolding handleSend_def t(1) option.case if_not_P [OF t(2)] Let_def upd by (rule mark_counts(3))
qed

lemma send_reply_counts:
  assumes "counts_ok s" "send_reply H time tempId out s = Some s'"
  shows "counts_ok s'"
proof (cases out)
  case (Send_message m)
  let ?s0 = "s\<lparr>sends := drop_key sd_temp tempId (sends s), sending := False\<rparr>"
  have "counts_ok ((releaseOptimisticAttachmentUrls tempId ?s0)\<lparr>messages := ms\<rparr>)" for ms
    using assms(1) by (simp add: counts_ok_def releaseOptimisticAttachmentUrls_def)
  then show ?thesis
    using assms(2) Send_message mark_counts(3) by (auto simp: send_reply_def Let_def split: if_splits)
qed (use assms in \<open>auto simp: send_reply_def Let_def counts_ok_def split: if_splits\<close>)

lemma loadLists_counts:
  "counts (loadLists H env ws cs ds s) = (case cs of None \<Rightarrow> channels s | Some x \<Rightarrow> x, case ds of None \<Rightarrow> dms s | Some x \<Rightarrow> x)"
  by (simp add: loadLists_def Let_def, simp add: counts_def)

lemma counts_step:
  assumes "counts_ok s" "served_step H lc me ct e s = Some s'"
  shows "counts_ok s'"
proof -
  have ok: "server_ok H ct e" and st: "page_step H lc me e s = Some s'"
    using assms(2) by (auto simp: served_step_def split: if_splits)
  have same: "counts s' = counts s \<Longrightarrow> counts_ok s'" using counts_ok_cong [OF _ assms(1)] by blast
  show ?thesis
  proof (cases e)
    case (Lists_loaded env ws cs ds)
    then have "counts s' = (case cs of None \<Rightarrow> channels s | Some x \<Rightarrow> x, case ds of None \<Rightarrow> dms s | Some x \<Rightarrow> x)"
      using st loadLists_counts by auto
    then show ?thesis
      using assms(1) ok Lists_loaded by (elim counts_okI) (auto simp: counts_ok_def split: option.splits)
  next
    case (Commit_navigation env)
    then have "counts s' = counts s" using st
      by (auto simp: commit_navigation_def Let_def split: option.splits, simp_all add: counts_def)
    then show ?thesis by (rule same)
  next
    case (Load_reply rid d)
    then show ?thesis using load_reply_counts assms(1) ok st by auto
  next
    case (Mark_reply t rid)
    then obtain l where "s' = finish_load l (mark_target_read t (ld_target l) s)"
      using st by (auto simp: mark_reply_def split: option.splits if_splits)
    then have "counts s' = counts (mark_target_read t (ld_target l) s)" by simp
    then show ?thesis using mark_counts(1) [OF assms(1)] by (rule counts_ok_cong)
  next
    case (Realtime env ev)
    then show ?thesis
      using st ok summary_event_counts [OF assms(1)]
      by (auto simp: realtime_event_def Let_def) (simp_all add: counts_ok_def)
  next
    case (Send time tx mentions urls)
    then show ?thesis using st send_counts [OF assms(1)] by (auto split: if_splits)
  next
    case (Send_reply time tempId out)
    then show ?thesis using st send_reply_counts [OF assms(1)] by auto
  next
    case (Edit_saved i r)
    then show ?thesis using st same by (cases r) (auto simp: saveEdit_def replace_message_def counts_def split: if_splits)
  next
    case (Pin_toggled i r)
    then show ?thesis using st same by (cases r) (auto simp: togglePin_def replace_message_def counts_def)
  next
    case (Reaction_toggled i r)
    then show ?thesis using st same by (cases r) (auto simp: toggleReaction_def replace_message_def counts_def)
  next
    case (Deleted_reply i er)
    then show ?thesis using st same
      by (cases er) (auto simp: deleteMessage_def releaseOptimisticAttachmentUrls_def counts_def split: if_splits)
  next
    case (Author_blocked a ok)
    then show ?thesis using st same by (auto simp: blockMessageAuthor_def counts_def split: if_splits)
  next
    case (Open_thread r)
    then show ?thesis using st same by (auto simp: counts_def)
  qed (use st same mark_counts [OF assms(1)] in \<open>auto split: if_splits\<close>)
qed

section \<open>Loads\<close>

text \<open>
  Every load has its own number; the load with the current number is for the selected conversation,
  when there is one.
\<close>

definition track :: "page \<Rightarrow> target option \<times> int \<times> load list" where
  "track s = (selectedTarget s, targetRequest s, loads s)"

definition numbered :: "int \<Rightarrow> load list \<Rightarrow> bool" where
  "numbered n ls \<longleftrightarrow> distinct (map ld_id ls) \<and> list_all (\<lambda>l. ld_id l \<le> n) ls"

definition loads_ok :: "page \<Rightarrow> bool" where
  "loads_ok s \<longleftrightarrow>
     numbered (targetRequest s) (loads s) \<and>
     list_all (\<lambda>l. ld_id l = targetRequest s \<longrightarrow> selectedTarget s = None \<or> selectedTarget s = Some (ld_target l)) (loads s)"

lemma loads_ok_cong: "track s' = track s \<Longrightarrow> loads_ok s \<Longrightarrow> loads_ok s'"
  by (simp add: loads_ok_def track_def)

lemma loads_ok_numbered: "loads_ok s \<Longrightarrow> numbered (targetRequest s) (loads s)"
  by (simp add: loads_ok_def)

lemma loadTarget_loads_ok:
  assumes "numbered (targetRequest s) (loads s)" "selectedTarget s = Some t"
  shows "loads_ok (loadTarget env t m opts s)"
proof -
  have "ld_id l \<noteq> targetRequest s + 1" if "l \<in> set (loads s)" for l
    using assms(1) that by (auto simp: numbered_def list_all_iff)
  then show ?thesis
    using assms by (auto simp: loads_ok_def loadTarget_def Let_def numbered_def list_all_iff)
qed

lemma target_effect_loads_ok:
  assumes "numbered (targetRequest s) (loads s)"
  shows "loads_ok (target_effect env s)"
proof (cases "selectedTarget s")
  case None
  then show ?thesis using assms by (simp add: target_effect_def loads_ok_def list_all_iff)
next
  case (Some t)
  then show ?thesis using assms by (simp add: target_effect_def Let_def loadTarget_loads_ok)
qed

lemma set_target_loads_ok: "loads_ok s \<Longrightarrow> loads_ok (set_target env t s)"
  using target_effect_loads_ok [of "s\<lparr>selectedTarget := t\<rparr>"] by (simp add: set_target_def loads_ok_numbered)

lemma finish_loads_ok:
  assumes "loads_ok s"
  shows "loads_ok (finish_load l s)" "loads_ok (drop_load l s)"
  using assms
  by (auto simp: loads_ok_def finish_load_def drop_load_def Let_def numbered_def list_all_iff drop_key_def distinct_map_filter)

lemma stage_loads_ok:
  assumes "loads_ok s"
  shows "loads_ok (s\<lparr>loads := map_key ld_id i (\<lambda>x. x\<lparr>ld_stage := st\<rparr>) (loads s)\<rparr>)"
proof -
  have "map ld_id (map_key ld_id i (\<lambda>x. x\<lparr>ld_stage := st\<rparr>) ls) = map ld_id ls" for ls :: "load list"
    by (simp add: map_key_def)
  then show ?thesis
    using assms by (auto simp: loads_ok_def numbered_def list_all_iff set_map_key)
qed

lemma track_frame [simp]:
  "track (mark_target_read t tg s) = track s" "track (markWorkspaceRead t w s) = track s"
  "track (updateLatestForTarget t m b s) = track s" "track (toggleMute tg b ok s) = track s"
  "track (workspace_effect s) = track s" "track (thread_effect s) = track s"
  "track (handleConversationScroll env s) = track s" "track (addFiles fs s) = track s"
  "track (upload_progress_event f p s) = track s" "track (saveEdit H i r s) = track s"
  "track (togglePin H i q s) = track s" "track (toggleReaction H i q s) = track s"
  "track (deleteMessage i e s) = track s" "track (blockMessageAuthor a ok s) = track s"
  by (simp_all add: mark_target_read_def markWorkspaceRead_def updateLatestForTarget_def toggleMute_def Let_def
      workspace_effect_def thread_effect_def handleConversationScroll_def addFiles_def upload_progress_event_def
      saveEdit_def togglePin_def toggleReaction_def replace_message_def deleteMessage_def blockMessageAuthor_def
      releaseOptimisticAttachmentUrls_def track_def split: target.split option.split sum.split)

lemma track_summary_event [simp]: "track (updateTargetSummaryFromEvent lc t ev m b s) = track s"
  by (simp add: updateTargetSummaryFromEvent_def Let_def split: option.split, simp add: track_def)

lemma track_realtime [simp]: "track (realtime_event H lc me env ev s) = track s"
  using track_summary_event [of lc "now env" ev _ _ s]
  by (simp add: realtime_event_def Let_def, simp add: track_def)

lemma track_apply_data [simp]: "track (fst (apply_data H l d s)) = track s"
  by (simp add: apply_data_def show_data_def track_def split: load_data.split)

lemma loads_ok_update [simp]:
  "loads_ok (s\<lparr>loadOptions := o1\<rparr>) = loads_ok s" "loads_ok (s\<lparr>backgroundLoading := b\<rparr>) = loads_ok s"
  "loads_ok (s\<lparr>navigation := n\<rparr>) = loads_ok s"
  by (simp_all add: loads_ok_def)

lemma loads_ok_send: "loads_ok s \<Longrightarrow> loads_ok (handleSend H me time tx mentions urls s)"
proof (rule loads_ok_cong)
  have "track (x\<lparr>pendingAttachments := a, sending := b, error_text := e, sends := sd\<rparr>) = track x"
    "track (x\<lparr>tempMessageId := n, optimisticUrls := u, stickToBottom := b, messages := ms\<rparr>) = track x" for x a b e sd n u ms
    by (simp_all add: track_def)
  then show "track (handleSend H me time tx mentions urls s) = track s"
    by (simp add: handleSend_def Let_def split: option.split)
qed

lemma loads_ok_send_reply: "loads_ok s \<Longrightarrow> send_reply H time tempId out s = Some s' \<Longrightarrow> loads_ok s'"
proof (erule loads_ok_cong [rotated])
  assume "send_reply H time tempId out s = Some s'"
  then show "track s' = track s"
    by (cases out) (auto simp: send_reply_def Let_def split: if_splits, auto simp: track_def releaseOptimisticAttachmentUrls_def)
qed

lemma loads_ok_reply:
  assumes "loads_ok s" "load_reply H rid d s = Some s'"
  shows "loads_ok s'"
proof -
  obtain l where l: "find_key ld_id rid (loads s) = Some l" "ld_stage l = Fetching"
    using assms(2) by (auto simp: load_reply_def split: option.splits if_splits)
  show ?thesis
  proof (cases "rid \<noteq> targetRequest s \<or> d = None")
    case True
    then show ?thesis using assms l finish_loads_ok by (auto simp: load_reply_def split: if_splits)
  next
    case False
    then obtain x where x: "d = Some x" by auto
    have "loads_ok (fst (apply_data H l x s))" by (rule loads_ok_cong [OF _ assms(1)]) simp
    then show ?thesis
      using assms(2) l False x finish_loads_ok stage_loads_ok
      by (auto simp: load_reply_def Let_def split_def split: if_splits)
  qed
qed

lemma loads_ok_select: "loads_ok s \<Longrightarrow> loads_ok (selectTarget env t opts s)"
proof -
  assume a: "loads_ok s"
  let ?s1 = "s\<lparr>loadOptions := opts, loadingTarget := True, stickToBottom := \<not> truthy_num (around opts),
      navigation := Some \<lparr>nav_workspace = Option.bind (navigation s) nav_workspace, nav_target = Some (Some t)\<rparr>\<rparr>"
  have "loads_ok ?s1" by (rule loads_ok_cong [OF _ a]) (simp add: track_def)
  moreover have "selectedTarget s = Some t \<Longrightarrow> loads_ok (loadTarget env t m opts ?s1)" for m
    using a by (intro loadTarget_loads_ok) (simp_all add: loads_ok_numbered)
  ultimately show ?thesis by (simp add: selectTarget_def Let_def)
qed

lemma loads_ok_lists: "loads_ok s \<Longrightarrow> loads_ok (loadLists H env ws cs ds s)"
  unfolding loadLists_def Let_def
  by (intro set_target_loads_ok) (simp add: loads_ok_def)

lemma loads_ok_route: "loads_ok s \<Longrightarrow> loads_ok (route_effect env b t r s)"
  by (simp add: route_effect_def set_target_loads_ok loadTarget_loads_ok loads_ok_numbered)

lemma loads_ok_commit: "loads_ok s \<Longrightarrow> commit_navigation env s = Some s' \<Longrightarrow> loads_ok s'"
  by (auto simp: commit_navigation_def Let_def split: option.splits
      intro!: set_target_loads_ok) (simp_all add: loads_ok_def)

lemma loads_ok_select_workspace: "loads_ok s \<Longrightarrow> loads_ok (selectWorkspace env w s)"
  by (simp add: selectWorkspace_def Let_def loads_ok_select split: option.split)

lemma loads_ok_refresh: "loads_ok s \<Longrightarrow> loads_ok (refreshTarget env s)"
  by (simp add: refreshTarget_def loadTarget_loads_ok loads_ok_numbered split: option.split)

lemma loads_step:
  assumes "loads_ok s" "page_step H lc me e s = Some s'"
  shows "loads_ok s'"
proof -
  have same: "track s' = track s \<Longrightarrow> loads_ok s'" using loads_ok_cong [OF _ assms(1)] by blast
  show ?thesis
  proof (cases e)
    case (Mark_reply t rid)
    then obtain l where l: "s' = finish_load l (mark_target_read t (ld_target l) s)"
      using assms(2) by (auto simp: mark_reply_def split: option.splits if_splits)
    have "loads_ok (mark_target_read t (ld_target l) s)" by (rule loads_ok_cong [OF _ assms(1)]) simp
    then show ?thesis using l finish_loads_ok(1) by simp
  next
    case (Open_thread r)
    then show ?thesis using assms(2) same by (auto simp: track_def)
  qed (use assms same in \<open>auto split: if_splits intro: loads_ok_lists loads_ok_route loads_ok_commit loads_ok_select
      loads_ok_select_workspace loads_ok_refresh loads_ok_reply loads_ok_send loads_ok_send_reply\<close>)
qed

lemma page_init_ok: "core_ok H ct (page_init r d)" "counts_ok (page_init r d)" "loads_ok (page_init r d)"
  by (simp_all add: page_init_def core_ok_def counts_ok_def loads_ok_def numbered_def summaries_ok_def)

lemma page_mount_ok:
  "core_ok H ct (page_mount env r q d)" "counts_ok (page_mount env r q d)" "loads_ok (page_mount env r q d)"
  using page_init_ok [where d = d]
  by (auto simp: page_mount_def intro: core_ok_cong counts_ok_cong loads_ok_route split: option.split)

interpretation lists: safe_machine "served_step H lc me ct" "\<lambda>s. s = page_mount env r q d" "\<lambda>s. core_ok H ct s \<and> counts_ok s"
  for H lc me ct env r q d
  by unfold_locales (auto simp: page_mount_ok intro: core_step counts_step)

interpretation tracked: safe_machine "page_step H lc me" "\<lambda>s. s = page_mount env r q d" loads_ok for H lc me env r q d
  by unfold_locales (auto simp: page_mount_ok intro: loads_step)

section \<open>A run\<close>

definition sample_env :: view_env where
  "sample_env = \<lparr>visible = True, nearBottom = True, inProgrammaticScroll = False, now = 1767600000000, savedAtBottom = None\<rparr>"

definition sample_me :: author where
  "sample_me = \<lparr>ur_id = 4, ur_full_name = ''M'', ur_avatar_url = None, au_email = ''m'', au_role = ''student''\<rparr>"

abbreviation "sample_step \<equiv> served_step utc_host (\<lambda>_ _. 0) sample_me (\<lambda>_. ''2026-01-02T00:00:00Z'')"

abbreviation "sample_mount \<equiv> page_mount sample_env (Some (Channel 1)) None True"

definition sample_events :: "page_event list" where
  "sample_events =
     [Load_reply 1 (Some (Channel_data (sample_channel 1 2 (Some ''2026-01-02T00:00:00Z'')) [sample_local 7 None None, sample_local 5 None None] [])),
      Mark_reply 1767600000000 1, Send 1767600000000 ''hello'' [] []]"

lemma sample_run:
  "case run sample_step sample_mount sample_events of None \<Rightarrow> False
   | Some s \<Rightarrow> map msg_id (messages s) = [5, 7, -1] \<and> map sd_temp (sends s) = [-1]"
  by code_simp

section \<open>Properties\<close>

text \<open>
  C7: whatever the interleaving of clicks, server replies, realtime events, sends, edits, pins,
  reactions, deletions and blocks, the messages on the page have distinct identities and are
  ordered by creation time then identity, the pinned ones by pin time, and no unread counter is
  negative. Hypothesis: the data comes from a server that meets \<open>server_ok\<close>.
\<close>

theorem page_lists_stay_in_order:
  assumes "run (served_step H lc me ct) (page_mount env route routed desktop) es = Some s"
  shows "distinct (map msg_id (messages s)) \<and> sorted_wrt (\<lambda>x y. chronological_cmp H x y \<le> 0) (messages s) \<and>
    distinct (map msg_id (pinnedMessages s)) \<and> sorted_wrt (\<lambda>x y. pinned_cmp H x y \<le> 0) (pinnedMessages s) \<and>
    list_all (\<lambda>c. 0 \<le> unread_count c) (channels s) \<and> list_all (\<lambda>c. 0 \<le> unread_count c) (dms s)"
  using lists.run_inv [OF assms refl]
  by (simp add: core_ok_def list_ok_def pinned_ok_def in_order_def counts_ok_def summaries_ok_def)

theorem page_lists_stay_in_order_witness:
  "case run sample_step sample_mount sample_events of None \<Rightarrow> False
   | Some s \<Rightarrow> map msg_id (messages s) = [5, 7, -1] \<and> sorted_wrt (\<lambda>x y. chronological_cmp utc_host x y \<le> 0) (messages s) \<and>
       list_all (\<lambda>c. 0 \<le> unread_count c) (channels s)"
proof -
  obtain s where s: "run sample_step sample_mount sample_events = Some s"
      "map msg_id (messages s) = [5, 7, -1] \<and> map sd_temp (sends s) = [-1]"
    using sample_run by (rule case_someE)
  then show ?thesis using page_lists_stay_in_order [OF s(1)] by simp
qed



text \<open>
  C9: when the reply to a send arrives, the optimistic message gives way to the server's: the list
  holds that message once, nothing under the temporary identity, and every other message as it
  was; the send is over. Hypotheses: the temporary identity is negative, the server's positive.
\<close>

theorem send_reply_replaces:
  assumes "run (served_step H lc me ct) (page_mount env route routed desktop) es = Some s"
    and "send_reply H time tempId (Send_message m) s = Some s'" "tempId < 0" "0 < msg_id m"
  shows "find_key msg_id (msg_id m) (messages s') = Some m \<and> \<not> has_key msg_id tempId (messages s') \<and>
    distinct (map msg_id (messages s')) \<and>
    set (drop_key msg_id (msg_id m) (messages s')) = set (drop_key msg_id (msg_id m) (drop_key msg_id tempId (messages s))) \<and>
    \<not> has_key sd_temp tempId (sends s') \<and> \<not> sending s'"
proof -
  let ?ms = "filter (\<lambda>x. msg_id x \<noteq> tempId \<and> msg_id x \<noteq> msg_id m) (messages s)"
  have d: "distinct (map msg_id (messages s))"
    using lists.run_inv [OF assms(1) refl] by (simp add: core_ok_def list_ok_def in_order_def)
  have frame: "messages (updateLatestForTarget time m True x) = messages x" "sends (updateLatestForTarget time m True x) = sends x"
    "sending (updateLatestForTarget time m True x) = sending x" for x
    by (simp_all add: updateLatestForTarget_def Let_def)
  have s': "messages s' = sortChronologicalMessages H (?ms @ [m])" "sends s' = drop_key sd_temp tempId (sends s)" "\<not> sending s'"
    using assms(2) by (auto simp: send_reply_def Let_def frame releaseOptimisticAttachmentUrls_def split: if_splits)
  have set': "set (messages s') = insert m (set ?ms)" by (simp add: s' sortChronologicalMessages_def)
  have dd: "distinct (map msg_id (messages s'))"
    using d js.distinct_map_srt [of msg_id "chronological_cmp H" "?ms @ [m]"]
    by (auto simp: s' sortChronologicalMessages_def distinct_map_filter)
  then have "find_key msg_id (msg_id m) (messages s') = Some m"
    using set' by (intro find_key_distinct) auto
  with s' set' dd assms(3,4) show ?thesis
    by (auto simp: has_key_def list_ex_iff drop_key_def)
qed

theorem send_reply_replaces_witness:
  "case Option.bind (run sample_step sample_mount sample_events) (send_reply utc_host 0 (-1) (Send_message (sample_local 8 None None))) of
     None \<Rightarrow> False
   | Some s' \<Rightarrow> find_key msg_id 8 (messages s') = Some (sample_local 8 None None) \<and> \<not> has_key msg_id (-1) (messages s') \<and>
       \<not> has_key sd_temp (-1) (sends s')"
proof -
  obtain s where s: "run sample_step sample_mount sample_events = Some s"
      "map msg_id (messages s) = [5, 7, -1] \<and> map sd_temp (sends s) = [-1]"
    using sample_run by (rule case_someE)
  then have "has_key sd_temp (-1) (sends s)" by (cases "sends s") (auto simp: has_key_def)
  then obtain s' where s': "send_reply utc_host 0 (-1) (Send_message (sample_local 8 None None)) s = Some s'"
    by (simp add: send_reply_def Let_def)
  have "msg_id (sample_local 8 None None) = 8" by (simp add: sample_local_def)
  then show ?thesis
    using send_reply_replaces [OF s(1) s'] s(1) s' by simp
qed



end
