(* ===== verification/Json.thy ===== *)
theory Json
  imports Prelude
begin

text \<open>
  JSON values with \<^verbatim>\<open>JSON.stringify\<close> and \<^verbatim>\<open>JSON.parse\<close>, as far as the modelled code uses them. Numbers with a
  fraction or an exponent are kept as their literal; properties whose value is \<open>undefined\<close> are left
  out of an object, as \<^verbatim>\<open>JSON.stringify\<close> does. The parser takes fuel; \<open>JSON_parse\<close> gives it two units for
  every character, which is enough because at least every second call consumes one. The main result is the round
  trip \<open>JSON_parse (stringify j) = Some j\<close>.
\<close>

datatype json =
    JNull
  | JBool bool
  | JNum int
  | JReal string
  | JStr string
  | JArr "json list"
  | JObj "(string \<times> json) list"

section \<open>Printing\<close>

abbreviation DQ :: char where "DQ \<equiv> CHR 0x22"
abbreviation BS :: char where "BS \<equiv> CHR 0x5C"

definition hex_char :: "nat \<Rightarrow> char" where
  "hex_char d = (if d < 10 then char_of (48 + d) else char_of (87 + d))"

definition esc_char :: "char \<Rightarrow> string" where
  "esc_char c =
     (let n = (of_char c :: nat) in
      if c = DQ \<or> c = BS then [BS, c]
      else if n = 8 then [BS, CHR ''b''] else if n = 9 then [BS, CHR ''t''] else if n = 10 then [BS, CHR ''n'']
      else if n = 12 then [BS, CHR ''f''] else if n = 13 then [BS, CHR ''r'']
      else if n < 32 then [BS, CHR ''u'', CHR ''0'', CHR ''0'', hex_char (n div 16), hex_char (n mod 16)]
      else [c])"

definition quote :: "string \<Rightarrow> string" where
  "quote s = [DQ] @ concat (map esc_char s) @ [DQ]"

fun stringify :: "json \<Rightarrow> string" where
  "stringify JNull = ''null''"
| "stringify (JBool b) = (if b then ''true'' else ''false'')"
| "stringify (JNum i) = show_int i"
| "stringify (JReal s) = s"
| "stringify (JStr s) = quote s"
| "stringify (JArr xs) = ''['' @ join '','' (map stringify xs) @ '']''"
| "stringify (JObj kvs) = ''{'' @ join '','' (map (\<lambda>(k, v). quote k @ '':'' @ stringify v) kvs) @ ''}''"

section \<open>Parsing\<close>

definition json_ws :: "char \<Rightarrow> bool" where
  "json_ws c \<longleftrightarrow> c \<in> {CHR 0x20, CHR 0x09, CHR 0x0A, CHR 0x0D}"

abbreviation skip_ws :: "string \<Rightarrow> string" where
  "skip_ws s \<equiv> dropWhile json_ws s"

definition hex_val :: "char \<Rightarrow> nat option" where
  "hex_val c =
     (let n = (of_char c :: nat) in
      if 48 \<le> n \<and> n \<le> 57 then Some (n - 48)
      else if 97 \<le> n \<and> n \<le> 102 then Some (n - 87)
      else if 65 \<le> n \<and> n \<le> 70 then Some (n - 55) else None)"

definition simple_escape :: "char \<Rightarrow> char option" where
  "simple_escape e =
     (if e = DQ \<or> e = BS \<or> e = CHR ''/'' then Some e
      else if e = CHR ''b'' then Some (CHR 0x08) else if e = CHR ''t'' then Some (CHR 0x09)
      else if e = CHR ''n'' then Some (CHR 0x0A) else if e = CHR ''f'' then Some (CHR 0x0C)
      else if e = CHR ''r'' then Some (CHR 0x0D) else None)"

text \<open>After the opening quote. Escapes above U+00FF are outside of the model's strings.\<close>

definition unicode_escape :: "char list \<Rightarrow> char option" where
  "unicode_escape ds =
     (case map hex_val ds of
        [Some a, Some b, Some c, Some d] \<Rightarrow> if a = 0 \<and> b = 0 then Some (char_of (16 * c + d)) else None
      | _ \<Rightarrow> None)"

function (sequential) parse_chars :: "string \<Rightarrow> (string \<times> string) option" where
  "parse_chars [] = None"
| "parse_chars (c # r) =
     (if c = DQ then Some ([], r)
      else if c = BS then
        (case r of
           [] \<Rightarrow> None
         | e # r' \<Rightarrow>
             if e = CHR ''u'' then
               (case unicode_escape (take 4 r') of
                  None \<Rightarrow> None
                | Some x \<Rightarrow> map_option (\<lambda>(s, q). (x # s, q)) (parse_chars (drop 4 r')))
             else (case simple_escape e of
                     None \<Rightarrow> None
                   | Some x \<Rightarrow> map_option (\<lambda>(s, q). (x # s, q)) (parse_chars r')))
      else if (of_char c :: nat) < 32 then None
      else map_option (\<lambda>(s, q). (c # s, q)) (parse_chars r))"
  by pat_completeness auto
termination by (relation "measure length") auto

definition parse_frac :: "string \<Rightarrow> (string \<times> string) option" where
  "parse_frac s =
     (case s of
        [] \<Rightarrow> Some ([], s)
      | c # r \<Rightarrow>
          if c = CHR ''.'' then
            (if takeWhile is_digit r = [] then None else Some (c # takeWhile is_digit r, dropWhile is_digit r))
          else Some ([], s))"

definition parse_exp :: "string \<Rightarrow> (string \<times> string) option" where
  "parse_exp s =
     (case s of
        [] \<Rightarrow> Some ([], s)
      | c # r \<Rightarrow>
          if c = CHR ''e'' \<or> c = CHR ''E'' then
            (let (sg, r') = (case r of d # q \<Rightarrow> if d = CHR ''+'' \<or> d = CHR ''-'' then ([d], q) else ([], r) | [] \<Rightarrow> ([], r))
             in if takeWhile is_digit r' = [] then None
                else Some (c # sg @ takeWhile is_digit r', dropWhile is_digit r'))
          else Some ([], s))"

definition parse_number :: "string \<Rightarrow> (json \<times> string) option" where
  "parse_number s =
     (let (neg, r) = (case s of c # q \<Rightarrow> if c = CHR ''-'' then (True, q) else (False, s) | [] \<Rightarrow> (False, s));
          ds = takeWhile is_digit r
      in if ds = [] \<or> (hd ds = CHR ''0'' \<and> 1 < length ds) then None
         else case parse_frac (dropWhile is_digit r) of
                None \<Rightarrow> None
              | Some (f, r1) \<Rightarrow>
                  (case parse_exp r1 of
                     None \<Rightarrow> None
                   | Some (e, r2) \<Rightarrow>
                       if f = [] \<and> e = []
                       then Some (JNum (if neg then - int (digits_val 0 ds) else int (digits_val 0 ds)), r2)
                       else Some (JReal ((if neg then ''-'' else []) @ ds @ f @ e), r2)))"

fun parse_value :: "nat \<Rightarrow> string \<Rightarrow> (json \<times> string) option"
  and parse_elems :: "nat \<Rightarrow> string \<Rightarrow> (json list \<times> string) option"
  and parse_members :: "nat \<Rightarrow> string \<Rightarrow> ((string \<times> json) list \<times> string) option"
where
  "parse_value 0 s = None"
| "parse_value (Suc n) s0 =
     (let s = skip_ws s0 in
      case s of
        [] \<Rightarrow> None
      | c # r \<Rightarrow>
          if c = DQ then map_option (\<lambda>(t, q). (JStr t, q)) (parse_chars r)
          else if c = CHR ''['' then
            (if startsWith (skip_ws r) '']'' then Some (JArr [], tl (skip_ws r))
             else map_option (\<lambda>(xs, q). (JArr xs, q)) (parse_elems n r))
          else if c = CHR ''{'' then
            (if startsWith (skip_ws r) ''}'' then Some (JObj [], tl (skip_ws r))
             else map_option (\<lambda>(kvs, q). (JObj (foldl (\<lambda>m (k, v). jmap_set k v m) [] kvs), q)) (parse_members n r))
          else if startsWith s ''null'' then Some (JNull, drop 4 s)
          else if startsWith s ''true'' then Some (JBool True, drop 4 s)
          else if startsWith s ''false'' then Some (JBool False, drop 5 s)
          else parse_number s)"
| "parse_elems 0 s = None"
| "parse_elems (Suc n) s =
     (case parse_value n s of
        None \<Rightarrow> None
      | Some (v, r) \<Rightarrow>
          (case skip_ws r of
             [] \<Rightarrow> None
           | c # q \<Rightarrow> if c = CHR '']'' then Some ([v], q)
                       else if c = CHR '','' then map_option (\<lambda>(vs, p). (v # vs, p)) (parse_elems n q) else None))"
| "parse_members 0 s = None"
| "parse_members (Suc n) s =
     (case skip_ws s of
        [] \<Rightarrow> None
      | d # t \<Rightarrow>
          if d \<noteq> DQ then None
          else case parse_chars t of
                 None \<Rightarrow> None
               | Some (k, r) \<Rightarrow>
                   (case skip_ws r of
                      [] \<Rightarrow> None
                    | e # r' \<Rightarrow>
                        if e \<noteq> CHR '':'' then None
                        else case parse_value n r' of
                               None \<Rightarrow> None
                             | Some (v, p) \<Rightarrow>
                                 (case skip_ws p of
                                    [] \<Rightarrow> None
                                  | c # q \<Rightarrow> if c = CHR ''}'' then Some ([(k, v)], q)
                                              else if c = CHR '','' then map_option (\<lambda>(kvs, z). ((k, v) # kvs, z)) (parse_members n q)
                                              else None)))"

definition JSON_parse :: "string \<Rightarrow> json option" where
  "JSON_parse s =
     (case parse_value (2 * length s + 2) s of
        None \<Rightarrow> None
      | Some (j, r) \<Rightarrow> if skip_ws r = [] then Some j else None)"

section \<open>Round trip\<close>

text \<open>Objects have distinct keys; there are no literals with a fraction or an exponent.\<close>

fun json_ok :: "json \<Rightarrow> bool" where
  "json_ok (JReal s) = False"
| "json_ok (JArr xs) = list_all json_ok xs"
| "json_ok (JObj kvs) = (distinct (map fst kvs) \<and> list_all (\<lambda>kv. json_ok (snd kv)) kvs)"
| "json_ok _ = True"

fun fuel :: "json \<Rightarrow> nat" where
  "fuel (JArr xs) = 2 + sum_list (map (\<lambda>x. Suc (fuel x)) xs)"
| "fuel (JObj kvs) = 2 + sum_list (map (\<lambda>kv. Suc (fuel (snd kv))) kvs)"
| "fuel _ = 1"

definition number_end :: "string \<Rightarrow> bool" where
  "number_end r = (case r of [] \<Rightarrow> True | c # _ \<Rightarrow> \<not> is_digit c \<and> c \<notin> {CHR ''.'', CHR ''e'', CHR ''E''})"

lemma hex_round [simp]: "n < 16 \<Longrightarrow> hex_val (hex_char n) = Some n"
  by (auto simp: hex_val_def hex_char_def Let_def)

lemma parse_chars_esc: "parse_chars (esc_char c @ s) = map_option (\<lambda>(t, q). (c # t, q)) (parse_chars s)"
proof -
  let ?n = "of_char c :: nat"
  have char: "c = char_of ?n" by simp
  consider "c = DQ \<or> c = BS" | "c \<noteq> DQ" "c \<noteq> BS" "?n \<in> {8, 9, 10, 12, 13}"
    | "c \<noteq> DQ" "c \<noteq> BS" "?n \<notin> {8, 9, 10, 12, 13}" "?n < 32" | "c \<noteq> DQ" "c \<noteq> BS" "\<not> ?n < 32" by blast
  then show ?thesis
  proof cases
    case 1
    then show ?thesis by (auto simp: esc_char_def simple_escape_def Let_def)
  next
    case 2
    have "char_of (8::nat) = CHR 0x08" "char_of (9::nat) = CHR 0x09" "char_of (10::nat) = CHR 0x0A"
      "char_of (12::nat) = CHR 0x0C" "char_of (13::nat) = CHR 0x0D" by code_simp+
    then have "c \<in> {CHR 0x08, CHR 0x09, CHR 0x0A, CHR 0x0C, CHR 0x0D}"
      using 2(3) char by (metis (no_types, lifting) empty_iff insert_iff)
    then show ?thesis by (auto simp: esc_char_def simple_escape_def Let_def)
  next
    case 3
    then have "16 * (?n div 16) + ?n mod 16 = ?n" "?n div 16 < 16" "?n mod 16 < 16" by auto
    moreover have "hex_val CHR ''0'' = Some 0" by (simp add: hex_val_def)
    ultimately have "unicode_escape [CHR ''0'', CHR ''0'', hex_char (?n div 16), hex_char (?n mod 16)] = Some c"
      by (simp add: unicode_escape_def)
    then show ?thesis using 3 by (simp add: esc_char_def Let_def)
  next
    case 4
    then show ?thesis by (simp add: esc_char_def Let_def)
  qed
qed

lemma parse_chars_quoted [simp]: "parse_chars (concat (map esc_char s) @ DQ # r) = Some (s, r)"
proof (induction s)
  case Nil
  show ?case by simp
next
  case (Cons c s)
  then show ?case by (simp add: parse_chars_esc del: parse_chars.simps)
qed

lemma show_nat_no_zero: "n \<noteq> 0 \<Longrightarrow> hd (show_nat n) \<noteq> CHR ''0''"
proof (induction n rule: show_nat.induct)
  case (1 n)
  show ?case
  proof (cases "n < 10")
    case True
    have "\<forall>n \<in> set [1..<10]. hd (show_nat n) \<noteq> CHR ''0''" by code_simp
    then show ?thesis using True 1(2) by simp
  next
    case False
    then have "n div 10 \<noteq> 0" by simp
    then have "hd (show_nat (n div 10)) \<noteq> CHR ''0''" using 1(1) False by blast
    then show ?thesis using False by (subst show_nat.simps) simp
  qed
qed

lemma show_nat_zero [simp]: "show_nat 0 = ''0''"
  by code_simp

lemma takeWhile_digits:
  assumes "number_end r"
  shows "takeWhile is_digit (show_nat n @ r) = show_nat n" "dropWhile is_digit (show_nat n @ r) = r"
proof -
  have "takeWhile is_digit r = []" "dropWhile is_digit r = r" using assms by (auto simp: number_end_def split: list.splits)
  then show "takeWhile is_digit (show_nat n @ r) = show_nat n" "dropWhile is_digit (show_nat n @ r) = r"
    using show_nat_digits [of n] by (simp_all add: takeWhile_append2 dropWhile_append2)
qed

lemma parse_number_show: 
  assumes "number_end r"
  shows "parse_number (show_int i @ r) = Some (JNum i, r)"
proof -
  have fe: "parse_frac r = Some ([], r)" "parse_exp r = Some ([], r)"
    using assms by (auto simp: parse_frac_def parse_exp_def number_end_def split: list.splits)
  have lz: "\<not> (hd (show_nat n) = CHR ''0'' \<and> 1 < length (show_nat n))" for n
    using show_nat_no_zero [of n] by (cases "n = 0") auto
  have sign: "(case show_nat n @ r of c # q \<Rightarrow> if c = CHR ''-'' then (True, q) else (False, show_nat n @ r)
      | [] \<Rightarrow> (False, show_nat n @ r)) = (False, show_nat n @ r)" for n
    using show_nat_no_sign [of n] by (cases "show_nat n") auto
  show ?thesis
    using fe lz takeWhile_digits [OF assms]
    by (cases "i < 0") (simp_all add: parse_number_def show_int_def sign Let_def)
qed

lemma number_end_simps [simp]:
  "number_end []" "number_end (CHR '','' # r)" "number_end (CHR '']'' # r)" "number_end (CHR ''}'' # r)"
  by (simp_all add: number_end_def is_digit_def)

text \<open>The first character of a printed value is none of white space and the closing brackets.\<close>

definition value_start :: "char \<Rightarrow> bool" where
  "value_start c \<longleftrightarrow> \<not> json_ws c \<and> c \<noteq> CHR '']'' \<and> c \<noteq> CHR ''}'' "

lemma show_int_start: "\<exists>c r. show_int i = c # r \<and> (is_digit c \<or> c = CHR ''-'')"
proof (cases "i < 0")
  case False
  obtain c r where "show_nat (nat i) = c # r" by (cases "show_nat (nat i)") auto
  then show ?thesis using False show_nat_digits [of "nat i"] by (auto simp: show_int_def)
qed (simp add: show_int_def)

lemma digit_start: "is_digit c \<or> c = CHR ''-'' \<Longrightarrow>
    value_start c \<and> c \<noteq> DQ \<and> c \<noteq> CHR ''['' \<and> c \<noteq> CHR ''{'' \<and> c \<noteq> CHR ''n'' \<and> c \<noteq> CHR ''t'' \<and> c \<noteq> CHR ''f''"
  by (auto simp: is_digit_def value_start_def json_ws_def)

lemma stringify_start: "json_ok j \<Longrightarrow> \<exists>c r. stringify j = c # r \<and> value_start c"
proof (cases j)
  case (JNum i)
  then show ?thesis using show_int_start [of i] digit_start by auto
qed (auto simp: quote_def value_start_def json_ws_def)

lemma skip_ws_stringify [simp]: "json_ok j \<Longrightarrow> skip_ws (stringify j @ r) = stringify j @ r"
  using stringify_start [of j] by (auto simp: value_start_def)

definition reads_back :: "json \<Rightarrow> bool" where
  "reads_back j \<longleftrightarrow> (\<forall>f r. fuel j \<le> f \<longrightarrow> number_end r \<longrightarrow> parse_value f (stringify j @ r) = Some (j, r))"

lemma reads_backD: "reads_back j \<Longrightarrow> fuel j \<le> f \<Longrightarrow> number_end r \<Longrightarrow> parse_value f (stringify j @ r) = Some (j, r)"
  by (simp add: reads_back_def)

lemma json_ws_simps [simp]:
  "\<not> json_ws (CHR '','')" "\<not> json_ws (CHR '']'')" "\<not> json_ws (CHR ''}'')" "\<not> json_ws (CHR '':'')" "\<not> json_ws DQ"
  "\<not> json_ws (CHR ''['')" "\<not> json_ws (CHR ''{'')"
  by (simp_all add: json_ws_def)

lemma parse_value_arr:
  "parse_value (Suc n) (CHR ''['' # r) =
     (if startsWith (skip_ws r) '']'' then Some (JArr [], tl (skip_ws r))
      else map_option (\<lambda>(xs, q). (JArr xs, q)) (parse_elems n r))"
  by simp

lemma parse_value_obj:
  "parse_value (Suc n) (CHR ''{'' # r) =
     (if startsWith (skip_ws r) ''}'' then Some (JObj [], tl (skip_ws r))
      else map_option (\<lambda>(kvs, q). (JObj (foldl (\<lambda>m (k, v). jmap_set k v m) [] kvs), q)) (parse_members n r))"
  by simp

lemma parse_elems_printed:
  assumes "xs \<noteq> []" "\<forall>x \<in> set xs. reads_back x" "sum_list (map (\<lambda>x. Suc (fuel x)) xs) \<le> f"
  shows "parse_elems f (join '','' (map stringify xs) @ CHR '']'' # r) = Some (xs, r)"
  using assms
proof (induction xs arbitrary: f)
  case (Cons x xs)
  obtain n where f: "f = Suc n" using Cons.prems(3) by (cases f) auto
  have "fuel x \<le> n" "sum_list (map (\<lambda>x. Suc (fuel x)) xs) \<le> n" using Cons.prems(3) f by auto
  then show ?case
    using Cons f by (cases xs) (auto simp: reads_backD)
qed simp

lemma parse_members_printed:
  assumes "kvs \<noteq> []" "\<forall>kv \<in> set kvs. reads_back (snd kv)" "sum_list (map (\<lambda>kv. Suc (fuel (snd kv))) kvs) \<le> f"
  shows "parse_members f (join '','' (map (\<lambda>(k, v). quote k @ '':'' @ stringify v) kvs) @ CHR ''}'' # r) = Some (kvs, r)"
  using assms
proof (induction kvs arbitrary: f)
  case (Cons kv kvs)
  obtain n where f: "f = Suc n" using Cons.prems(3) by (cases f) auto
  have "fuel (snd kv) \<le> n" "sum_list (map (\<lambda>kv. Suc (fuel (snd kv))) kvs) \<le> n" using Cons.prems(3) f by auto
  then show ?case
    using Cons f by (cases kvs; cases kv) (auto simp: reads_backD quote_def)
qed simp

lemma jmap_set_new: "k \<notin> fst ` set m \<Longrightarrow> jmap_set k v m = m @ [(k, v)]"
  by (induction m) auto

lemma foldl_jmap_set: "distinct (map fst (m @ kvs)) \<Longrightarrow> foldl (\<lambda>m (k, v). jmap_set k v m) m kvs = m @ kvs"
proof (induction kvs arbitrary: m)
  case (Cons kv kvs)
  obtain k v where kv: "kv = (k, v)" by (cases kv)
  then have "jmap_set k v m = m @ [(k, v)]" using Cons.prems by (intro jmap_set_new) auto
  then show ?case using Cons.IH [of "m @ [(k, v)]"] Cons.prems kv by simp
qed simp

lemma value_reads_back: "json_ok j \<Longrightarrow> reads_back j"
proof (induction j rule: json.induct)
  case (JNum i)
  have "parse_value f (show_int i @ r) = Some (JNum i, r)" if f1: "1 \<le> f" and e: "number_end r" for f r
  proof -
    obtain n where f: "f = Suc n" using f1 by (cases f) auto
    obtain c q where c: "show_int i = c # q" "is_digit c \<or> c = CHR ''-''" using show_int_start by blast
    note h = digit_start [OF c(2)]
    then have "parse_value f (show_int i @ r) = parse_number (show_int i @ r)"
      using f c(1) by (simp add: value_start_def startsWith_def)
    then show ?thesis using parse_number_show [OF e] by simp
  qed
  then show ?case by (simp add: reads_back_def)
next
  case (JArr xs)
  then have ih: "\<forall>x \<in> set xs. reads_back x" "\<forall>x \<in> set xs. json_ok x" by (auto simp: list_all_iff)
  have "parse_value f (stringify (JArr xs) @ r) = Some (JArr xs, r)" if f: "fuel (JArr xs) \<le> f" for f r
  proof -
    obtain n where n: "f = Suc n" "1 + sum_list (map (\<lambda>x. Suc (fuel x)) xs) \<le> n" using f by (cases f) auto
    show ?thesis
    proof (cases xs)
      case Nil
      then show ?thesis using n by (simp add: startsWith_def)
    next
      case (Cons x ys)
      obtain c q where c: "stringify x = c # q" "value_start c" using stringify_start [of x] ih(2) Cons by auto
      define t where "t = join '','' (map stringify xs) @ CHR '']'' # r"
      obtain q' where q': "t = c # q'" using c Cons by (cases ys) (auto simp: t_def)
      have m: "parse_elems n t = Some (xs, r)"
        unfolding t_def using Cons ih(1) n(2) by (intro parse_elems_printed) auto
      have "\<not> startsWith (skip_ws t) '']''" using c(2) by (simp add: q' startsWith_def value_start_def)
      moreover have "stringify (JArr xs) @ r = CHR ''['' # t" by (simp add: t_def)
      ultimately show ?thesis using n(1) by (simp only: parse_value_arr m) simp
    qed
  qed
  then show ?case by (simp add: reads_back_def)
next
  case (JObj kvs)
  then have ih: "\<forall>kv \<in> set kvs. reads_back (snd kv)" and d: "distinct (map fst kvs)"
    using JObj by (auto simp: list_all_iff)
  have "parse_value f (stringify (JObj kvs) @ r) = Some (JObj kvs, r)" if f: "fuel (JObj kvs) \<le> f" for f r
  proof -
    obtain n where n: "f = Suc n" "1 + sum_list (map (\<lambda>kv. Suc (fuel (snd kv))) kvs) \<le> n" using f by (cases f) auto
    show ?thesis
    proof (cases kvs)
      case Nil
      then show ?thesis using n by (simp add: startsWith_def)
    next
      case (Cons kv ys)
      define t where "t = join '','' (map (\<lambda>(k, v). quote k @ '':'' @ stringify v) kvs) @ CHR ''}'' # r"
      obtain q' where q': "t = DQ # q'"
        using Cons by (cases ys; cases kv) (auto simp: quote_def t_def)
      have m: "parse_members n t = Some (kvs, r)"
        unfolding t_def using Cons ih n(2) by (intro parse_members_printed) auto
      have "\<not> startsWith (skip_ws t) ''}''" by (simp add: q' startsWith_def)
      moreover have "stringify (JObj kvs) @ r = CHR ''{'' # t" by (simp add: t_def)
      ultimately show ?thesis
        using n(1) foldl_jmap_set [of "[]" kvs] d by (simp only: parse_value_obj m) simp
    qed
  qed
  then show ?case by (simp add: reads_back_def)
next
  case (JStr s)
  have "parse_value f (quote s @ r) = Some (JStr s, r)" if "1 \<le> f" for f r
    using that by (cases f) (auto simp: quote_def)
  then show ?case by (simp add: reads_back_def)
next
  case JNull
  have "parse_value f (stringify JNull @ r) = Some (JNull, r)" if "1 \<le> f" for f r
    using that by (cases f) (auto simp: startsWith_def json_ws_def)
  then show ?case by (simp add: reads_back_def)
next
  case (JBool b)
  have "parse_value f (stringify (JBool b) @ r) = Some (JBool b, r)" if "1 \<le> f" for f r
    using that by (cases f; cases b) (auto simp: startsWith_def json_ws_def)
  then show ?case by (simp add: reads_back_def)
qed simp

lemma length_join: "xs \<noteq> [] \<Longrightarrow> length (join '','' xs) + 1 = sum_list (map length xs) + length xs"
proof (induction xs)
  case (Cons x xs)
  then show ?case by (cases xs) auto
qed simp

lemma fuel_bound: "json_ok j \<Longrightarrow> fuel j \<le> 2 * length (stringify j)"
proof (induction j rule: json.induct)
  case (JArr xs)
  have "sum_list (map (\<lambda>x. Suc (fuel x)) xs) \<le> sum_list (map (\<lambda>x. 2 * length (stringify x) + 1) xs)"
    using JArr by (intro sum_list_mono) (auto simp: list_all_iff)
  also have "\<dots> = 2 * sum_list (map length (map stringify xs)) + length xs"
    by (induction xs) auto
  finally show ?case
    using length_join [of "map stringify xs"] by (cases "xs = []") (auto simp: o_def)
next
  case (JObj kvs)
  have "Suc (fuel (snd kv)) \<le> 2 * length (stringify (snd kv)) + 1" if "kv \<in> set kvs" for kv
    using JObj that by (cases kv) (auto simp: list_all_iff)
  then have "sum_list (map (\<lambda>kv. Suc (fuel (snd kv))) kvs) \<le> sum_list (map (\<lambda>kv. 2 * length (stringify (snd kv)) + 1) kvs)"
    by (intro sum_list_mono) auto
  also have "\<dots> \<le> 2 * sum_list (map length (map (\<lambda>(k, v). quote k @ '':'' @ stringify v) kvs)) + length kvs"
    by (induction kvs) (auto simp: split_def)
  finally show ?case
    using length_join [of "map (\<lambda>(k, v). quote k @ '':'' @ stringify v) kvs"] by (cases "kvs = []") auto
next
  case (JNum i)
  show ?case using show_int_start [of i] by auto
qed (auto simp: quote_def)

lemma JSON_round_trip [simp]: "json_ok j \<Longrightarrow> JSON_parse (stringify j) = Some j"
  using reads_backD [OF value_reads_back, of j "2 * length (stringify j) + 2" "[]"] fuel_bound [of j]
  by (simp add: JSON_parse_def)

lemma stringify_inj: "json_ok i \<Longrightarrow> json_ok j \<Longrightarrow> stringify i = stringify j \<Longrightarrow> i = j"
  by (metis JSON_round_trip option.inject)

text \<open>\<open>j.k\<close> and \<open>j?.k\<close>; a property that is missing is \<open>undefined\<close>.\<close>

fun json_get :: "json \<Rightarrow> string \<Rightarrow> json option" where
  "json_get (JObj kvs) k = map_of kvs k"
| "json_get _ k = None"

end
