(* ===== verification/Api_Client.thy ===== *)
theory Api_Client
  imports Json
begin

text \<open>
  The request layer of the web client, \<^verbatim>\<open>web/src/lib/api.ts\<close> 81--353: \<open>fetchApi\<close> with its token refresh, its
  retries and the fallback to the cache in \<open>localStorage\<close>. What happens outside (the token getter,
  the network, the clock, the store at the time of an attempt) comes in an \<open>exchange\<close> per attempt; the
  result tells what was sent, what was written to the store and what the promise resolved to.

  Shown here: a request that changes data is sent at most twice and the second time only after a
  401, with a fresh token; a response that was cached comes back unchanged when a later request
  fails; clearing a scope leaves other scopes alone.
\<close>

section \<open>Requests and responses\<close>

datatype api_error_kind = Auth | Forbidden | Not_found | Server | Network | Timeout | Unknown

record api_response =
  rs_data :: "json option"
  rs_error :: "string option"
  rs_status :: "nat option"
  rs_errorKind :: "api_error_kind option"
  rs_errorCode :: "string option"
  rs_fromCache :: bool
  rs_cacheAgeMs :: "int option"

record api_request =
  rq_method :: "string option"
  rq_endpoint :: string
  rq_body :: "json option"
  rq_headers :: "(string \<times> string) list"

definition REQUEST_TIMEOUT_MS :: int where
  "REQUEST_TIMEOUT_MS = 12000"

definition RETRYABLE_STATUSES :: "nat list" where
  "RETRYABLE_STATUSES = [429, 500, 502, 503, 504]"

definition CACHE_FALLBACK_STATUSES :: "nat list" where
  "CACHE_FALLBACK_STATUSES = [408, 429, 500, 502, 503, 504]"

definition CACHE_PREFIX :: string where
  "CACHE_PREFIX = ''csg-api-cache:''"

definition CACHE_MAX_AGE_MS :: int where
  "CACHE_MAX_AGE_MS = 1000 * 60 * 60 * 24 * 7"

text \<open>What an attempt meets: \<open>Error\<close> objects carry a message, other values may be thrown too.\<close>

datatype thrown = Abort_error | Error_thrown string | Other_thrown

datatype token_result = Token string | No_token | Token_throws thrown

datatype body_result = Text string | Body_throws thrown

datatype fetch_outcome = Response nat body_result | Fetch_throws thrown

text \<open>\<open>localStorage\<close>: \<open>None\<close> when it throws, else its entries.\<close>

type_synonym store = "(string \<times> string) list option"

record exchange =
  ex_token :: token_result
  ex_outcome :: fetch_outcome
  ex_store :: store
  ex_now :: int
  ex_online :: bool

datatype fetch_result = Resolved api_response | Rejected thrown

text \<open>\<open>response.ok\<close>\<close>

definition ok_status :: "nat \<Rightarrow> bool" where
  "ok_status n \<longleftrightarrow> 200 \<le> n \<and> n \<le> 299"

section \<open>Error texts\<close>

text \<open>How \<open>join\<close> prints an element of an array.\<close>

fun join_element :: "json \<Rightarrow> string" where
  "join_element JNull = []"
| "join_element (JBool b) = (if b then ''true'' else ''false'')"
| "join_element (JNum i) = show_int i"
| "join_element (JReal s) = s"
| "join_element (JStr s) = s"
| "join_element (JArr xs) = join '','' (map join_element xs)"
| "join_element (JObj kvs) = ''[object Object]''"

definition errorMessage :: "json \<Rightarrow> nat \<Rightarrow> string" where
  "errorMessage errorBody status =
     (let fallback = ''Request failed with status '' @ show_nat status in
      case json_get errorBody ''error'' of
        Some (JStr s) \<Rightarrow> s
      | _ \<Rightarrow> (case json_get errorBody ''errors'' of
                Some (JArr xs) \<Rightarrow> join '', '' (map join_element xs)
              | _ \<Rightarrow> fallback))"

definition apiErrorCode :: "json \<Rightarrow> string option" where
  "apiErrorCode errorBody = (case json_get errorBody ''code'' of Some (JStr s) \<Rightarrow> Some s | _ \<Rightarrow> None)"

definition errorKindForStatus :: "nat \<Rightarrow> api_error_kind" where
  "errorKindForStatus status =
     (if status = 401 then Auth else if status = 403 then Forbidden else if status = 404 then Not_found
      else if 500 \<le> status then Server else Unknown)"

definition networkErrorMessage :: "bool \<Rightarrow> thrown \<Rightarrow> string" where
  "networkErrorMessage online err =
     (if \<not> online then ''You appear to be offline. Showing saved data when available.''
      else case err of Error_thrown m \<Rightarrow> m | Abort_error \<Rightarrow> ''The operation was aborted.'' | Other_thrown \<Rightarrow> ''Network error'')"

text \<open>The wait before the next attempt; \<open>jitter\<close> is below 250.\<close>

definition waitForRetry :: "nat \<Rightarrow> int \<Rightarrow> int" where
  "waitForRetry attempt jitter = 400 * int attempt * int attempt + jitter"

section \<open>The cache\<close>

definition cacheKey :: "string \<Rightarrow> string \<Rightarrow> string" where
  "cacheKey scope endpoint = CACHE_PREFIX @ scope @ '':'' @ endpoint"

definition shouldCacheResponse :: "string \<Rightarrow> json \<Rightarrow> bool" where
  "shouldCacheResponse endpoint data \<longleftrightarrow>
     (case data of
        JArr _ \<Rightarrow> True
      | JObj _ \<Rightarrow> True
      | _ \<Rightarrow> False) \<and>
     \<not> (startsWith endpoint ''/api/v1/help_requests'' \<or> endpoint = ''/api/v1/support_queue'') \<and>
     (if endpoint = ''/api/v1/dashboard''
      then (case json_get data ''dashboard'' of
              None \<Rightarrow> False
            | Some d \<Rightarrow> (case json_get d ''enrolled'' of Some (JBool _) \<Rightarrow> True | _ \<Rightarrow> False))
      else if endpoint = ''/api/v1/resources''
      then (case json_get data ''resources'' of Some (JArr _) \<Rightarrow> True | _ \<Rightarrow> False)
      else if endpoint = ''/api/v1/recordings''
      then (case json_get data ''recordings'' of Some (JArr _) \<Rightarrow> True | _ \<Rightarrow> False) \<or>
           (case json_get data ''s3_recordings'' of Some (JArr _) \<Rightarrow> True | _ \<Rightarrow> False)
      else True)"

definition cache_entry :: "json \<Rightarrow> int \<Rightarrow> json" where
  "cache_entry data now = JObj [(''data'', data), (''savedAt'', JNum now)]"

text \<open>The write itself is lost when the store throws.\<close>

definition writeCachedResponse :: "string option \<Rightarrow> string \<Rightarrow> json \<Rightarrow> int \<Rightarrow> store \<Rightarrow> store" where
  "writeCachedResponse scope endpoint data now st =
     (case scope of
        None \<Rightarrow> st
      | Some sc \<Rightarrow>
          if sc = [] then st
          else map_option (jmap_set (cacheKey sc endpoint) (stringify (cache_entry data now))) st)"

text \<open>
  The age is read with the type the code declares for it: \<open>savedAt\<close> is a number, so entries where it
  is something else count as having none.
\<close>

definition readCachedResponse :: "string option \<Rightarrow> string \<Rightarrow> int \<Rightarrow> store \<Rightarrow> api_response option" where
  "readCachedResponse scope endpoint now st =
     (case (scope, st) of
        (Some sc, Some entries) \<Rightarrow>
          if sc = [] then None
          else (case jmap_get entries (cacheKey sc endpoint) of
                  None \<Rightarrow> None
                | Some raw \<Rightarrow>
                    (case JSON_parse raw of
                       None \<Rightarrow> None
                     | Some parsed \<Rightarrow>
                         (case (json_get parsed ''savedAt'', json_get parsed ''data'') of
                            (Some (JNum savedAt), Some data) \<Rightarrow>
                              if savedAt = 0 \<or> CACHE_MAX_AGE_MS < now - savedAt then None
                              else if \<not> shouldCacheResponse endpoint data then None
                              else Some \<lparr>rs_data = Some data, rs_error = None, rs_status = None, rs_errorKind = None,
                                         rs_errorCode = None, rs_fromCache = True, rs_cacheAgeMs = Some (now - savedAt)\<rparr>
                          | _ \<Rightarrow> None)))
      | _ \<Rightarrow> None)"

definition clearApiCache :: "string option \<Rightarrow> store \<Rightarrow> store" where
  "clearApiCache scope st =
     (case scope of
        None \<Rightarrow> st
      | Some sc \<Rightarrow>
          if sc = [] then st
          else map_option
            (filter (\<lambda>(key, _). \<not> (startsWith key (CACHE_PREFIX @ sc @ '':'') \<or> startsWith key (CACHE_PREFIX @ ''null:'')))) st)"

section \<open>\<open>fetchApi\<close>\<close>

definition request_method :: "api_request \<Rightarrow> string" where
  "request_method r =
     map (\<lambda>c. let n = (of_char c :: nat) in if 97 \<le> n \<and> n \<le> 122 then char_of (n - 32) else c)
       (case rq_method r of None \<Rightarrow> ''GET'' | Some m \<Rightarrow> if m = [] then ''GET'' else m)"

definition canRetry :: "api_request \<Rightarrow> bool" where
  "canRetry r \<longleftrightarrow> request_method r = ''GET'' \<or> request_method r = ''HEAD''"

definition canUseCache :: "api_request \<Rightarrow> bool \<Rightarrow> string option \<Rightarrow> bool" where
  "canUseCache r requireAuth scope \<longleftrightarrow>
     requireAuth \<and> request_method r = ''GET'' \<and> (case scope of None \<Rightarrow> False | Some sc \<Rightarrow> sc \<noteq> [])"

definition maxAttempts :: "api_request \<Rightarrow> nat" where
  "maxAttempts r = (if canRetry r then 3 else 2)"

text \<open>The outcome of one round of the loop: go on (force a token refresh? was a 401 retried?), or return.\<close>

datatype round = Again bool bool | Return fetch_result "json option"

definition fail_response :: "string \<Rightarrow> nat option \<Rightarrow> api_error_kind \<Rightarrow> string option \<Rightarrow> api_response" where
  "fail_response err status kind code =
     \<lparr>rs_data = None, rs_error = Some err, rs_status = status, rs_errorKind = Some kind, rs_errorCode = code,
      rs_fromCache = False, rs_cacheAgeMs = None\<rparr>"

definition done_response :: "json option \<Rightarrow> nat \<Rightarrow> api_response" where
  "done_response data status =
     \<lparr>rs_data = data, rs_error = None, rs_status = Some status, rs_errorKind = None, rs_errorCode = None,
      rs_fromCache = False, rs_cacheAgeMs = None\<rparr>"

text \<open>The \<open>catch\<close> block.\<close>

definition caught :: "api_request \<Rightarrow> bool \<Rightarrow> string option \<Rightarrow> exchange \<Rightarrow> nat \<Rightarrow> bool \<Rightarrow> thrown \<Rightarrow> round" where
  "caught r requireAuth scope x attempt did err =
     (let kind = (if err = Abort_error then Timeout else Network);
          message = (if kind = Timeout then ''Request timed out. Check your connection and try again.''
                     else networkErrorMessage (ex_online x) err)
      in if canRetry r \<and> attempt < maxAttempts r then Again False did
         else case (if canUseCache r requireAuth scope
                    then readCachedResponse scope (rq_endpoint r) (ex_now x) (ex_store x) else None) of
                Some cached \<Rightarrow> Return (Resolved (cached\<lparr>rs_error := Some message, rs_errorKind := Some kind\<rparr>)) None
              | None \<Rightarrow> Return (Resolved (fail_response message None kind None)) None)"

text \<open>A response that is not \<open>ok\<close>; a body that is not JSON counts as an empty object.\<close>

definition refused :: "api_request \<Rightarrow> bool \<Rightarrow> string option \<Rightarrow> exchange \<Rightarrow> nat \<Rightarrow> bool \<Rightarrow> nat \<Rightarrow> body_result \<Rightarrow> round" where
  "refused r requireAuth scope x attempt did status body =
     (let errorBody = (case body of
                         Body_throws _ \<Rightarrow> JObj []
                       | Text t \<Rightarrow> (case JSON_parse t of None \<Rightarrow> JObj [] | Some j \<Rightarrow> j));
          err = errorMessage errorBody status;
          code = apiErrorCode errorBody
      in if status = 401 \<and> \<not> did \<and> attempt < maxAttempts r then Again True True
         else if canRetry r \<and> status \<in> set RETRYABLE_STATUSES \<and> attempt < maxAttempts r then Again False did
         else case (if canUseCache r requireAuth scope \<and> status \<in> set CACHE_FALLBACK_STATUSES
                    then readCachedResponse scope (rq_endpoint r) (ex_now x) (ex_store x) else None) of
                Some cached \<Rightarrow>
                  Return (Resolved (cached\<lparr>rs_error := Some err, rs_errorCode := code, rs_status := Some status,
                                          rs_errorKind := Some (errorKindForStatus status)\<rparr>)) None
              | None \<Rightarrow> Return (Resolved (fail_response err (Some status) (errorKindForStatus status) code)) None)"

text \<open>One round after the token was read. \<open>syntaxMessage\<close> is the engine's text for a JSON syntax error.\<close>

definition attempt_round ::
  "(string \<Rightarrow> string) \<Rightarrow> api_request \<Rightarrow> bool \<Rightarrow> string option \<Rightarrow> exchange \<Rightarrow> nat \<Rightarrow> bool \<Rightarrow> round" where
  "attempt_round syntaxMessage r requireAuth scope x attempt did =
     (case ex_outcome x of
        Fetch_throws err \<Rightarrow> caught r requireAuth scope x attempt did err
      | Response status body \<Rightarrow>
          if \<not> ok_status status then refused r requireAuth scope x attempt did status body
          else if status = 204 then Return (Resolved (done_response None status)) None
          else (case body of
                  Body_throws err \<Rightarrow> caught r requireAuth scope x attempt did err
                | Text t \<Rightarrow>
                    if t = [] then Return (Resolved (done_response None status)) None
                    else (case JSON_parse t of
                            None \<Rightarrow> caught r requireAuth scope x attempt did (Error_thrown (syntaxMessage t))
                          | Some data \<Rightarrow>
                              Return (Resolved (done_response (Some data) status))
                                (if canUseCache r requireAuth scope \<and> shouldCacheResponse (rq_endpoint r) data
                                 then Some data else None))))"

text \<open>What goes over the wire in an attempt: was a token refresh forced, and the headers.\<close>

record sent =
  sn_attempt :: nat
  sn_forced :: bool
  sn_headers :: "(string \<times> string) list"

definition request_headers :: "api_request \<Rightarrow> token_result option \<Rightarrow> (string \<times> string) list" where
  "request_headers r tok =
     (let base = foldl (\<lambda>m (k, v). jmap_set k v m) [(''Content-Type'', ''application/json'')] (rq_headers r)
      in case tok of
           Some (Token t) \<Rightarrow> if t = [] then base else jmap_set ''Authorization'' (''Bearer '' @ t) base
         | _ \<Rightarrow> base)"

function fetch_loop ::
  "(string \<Rightarrow> string) \<Rightarrow> api_request \<Rightarrow> bool \<Rightarrow> bool \<Rightarrow> string option \<Rightarrow> (nat \<Rightarrow> exchange) \<Rightarrow> nat \<Rightarrow> bool \<Rightarrow> bool \<Rightarrow>
   sent list \<times> (nat \<times> json) option \<times> fetch_result" where
  "fetch_loop syn r requireAuth hasGetter scope env attempt force did =
     (if maxAttempts r < attempt
      then ([], None, Resolved (fail_response ''Request failed'' None Unknown None))
      else
        (let x = env attempt;
             asks = requireAuth \<and> hasGetter
         in case (asks, ex_token x) of
              (True, Token_throws e) \<Rightarrow> ([], None, Rejected e)
            | _ \<Rightarrow>
                (let entry = \<lparr>sn_attempt = attempt, sn_forced = (asks \<and> force),
                              sn_headers = request_headers r (if asks then Some (ex_token x) else None)\<rparr>
                 in case attempt_round syn r requireAuth scope x attempt did of
                      Return res w \<Rightarrow> ([entry], map_option (Pair attempt) w, res)
                    | Again f d \<Rightarrow>
                        (let (log, w, res) = fetch_loop syn r requireAuth hasGetter scope env (attempt + 1)
                               (if asks then f else force \<or> f) d
                         in (entry # log, w, res)))))"
  by pat_completeness auto
termination by (relation "measure (\<lambda>(_, r, _, _, _, _, attempt, _, _). Suc (maxAttempts r) - attempt)") auto

declare fetch_loop.simps [simp del]

definition fetchApi ::
  "(string \<Rightarrow> string) \<Rightarrow> api_request \<Rightarrow> bool \<Rightarrow> bool \<Rightarrow> string option \<Rightarrow> (nat \<Rightarrow> exchange) \<Rightarrow>
   sent list \<times> (nat \<times> json) option \<times> fetch_result" where
  "fetchApi syn r requireAuth hasGetter scope env = fetch_loop syn r requireAuth hasGetter scope env 1 False False"

section \<open>How often a request is sent\<close>

lemma again_cases:
  assumes "attempt_round syn r ra scope x attempt did = Again f d"
  shows "attempt < maxAttempts r" "f \<Longrightarrow> d \<and> \<not> did" "did \<Longrightarrow> d" "f \<or> d = did"
    "\<not> canRetry r \<Longrightarrow> f \<and> (\<exists>body. ex_outcome x = Response 401 body)"
  using assms
  by (auto simp: attempt_round_def caught_def refused_def Let_def ok_status_def
      split: fetch_outcome.splits body_result.splits option.splits if_splits)

text \<open>One round of the loop, as the proofs use it.\<close>

lemma fetch_loop_cases:
  obtains "maxAttempts r < attempt"
      "fetch_loop syn r ra g scope env attempt force did = ([], None, Resolved (fail_response ''Request failed'' None Unknown None))"
  | e where "attempt \<le> maxAttempts r" "fetch_loop syn r ra g scope env attempt force did = ([], None, Rejected e)"
      "ra \<and> g" "ex_token (env attempt) = Token_throws e"
  | entry res w where "attempt \<le> maxAttempts r" "attempt_round syn r ra scope (env attempt) attempt did = Return res w"
      "fetch_loop syn r ra g scope env attempt force did = ([entry], map_option (Pair attempt) w, res)"
      "sn_attempt entry = attempt" "sn_forced entry = (ra \<and> g \<and> force)"
  | entry f d log w res where "attempt \<le> maxAttempts r"
      "attempt_round syn r ra scope (env attempt) attempt did = Again f d"
      "fetch_loop syn r ra g scope env (attempt + 1) (if ra \<and> g then f else force \<or> f) d = (log, w, res)"
      "fetch_loop syn r ra g scope env attempt force did = (entry # log, w, res)"
      "sn_attempt entry = attempt" "sn_forced entry = (ra \<and> g \<and> force)"
proof (cases "maxAttempts r < attempt")
  case True
  then show ?thesis by (intro that(1)) (simp_all add: fetch_loop.simps)
next
  case False
  show ?thesis
  proof (cases "\<exists>e. ra \<and> g \<and> ex_token (env attempt) = Token_throws e")
    case True
    then show ?thesis using False by (elim exE, intro that(2)) (auto simp: fetch_loop.simps Let_def)
  next
    case notok: False
    let ?entry = "\<lparr>sn_attempt = attempt, sn_forced = (ra \<and> g) \<and> force,
      sn_headers = request_headers r (if ra \<and> g then Some (ex_token (env attempt)) else None)\<rparr>"
    show ?thesis
    proof (cases "attempt_round syn r ra scope (env attempt) attempt did")
      case (Return res w)
      have "fetch_loop syn r ra g scope env attempt force did = ([?entry], map_option (Pair attempt) w, res)"
        using False notok Return by (subst fetch_loop.simps) (auto simp: Let_def split: token_result.split bool.split)
      then show ?thesis using False Return by (intro that(3)) auto
    next
      case (Again f d)
      obtain log w res where rec: "fetch_loop syn r ra g scope env (attempt + 1) (if ra \<and> g then f else force \<or> f) d = (log, w, res)"
        by (metis surj_pair)
      have "fetch_loop syn r ra g scope env attempt force did = (?entry # log, w, res)"
        using False notok Again rec by (subst fetch_loop.simps) (auto simp: Let_def split: token_result.split bool.split)
      then show ?thesis using False Again rec by (intro that(4)) auto
    qed
  qed
qed

text \<open>What every log of the loop satisfies.\<close>

definition log_ok :: "api_request \<Rightarrow> (nat \<Rightarrow> exchange) \<Rightarrow> nat \<Rightarrow> bool \<Rightarrow> bool \<Rightarrow> sent list \<Rightarrow> bool" where
  "log_ok r env attempt force did log \<longleftrightarrow>
     map sn_attempt log = [attempt..<attempt + length log] \<and>
     length log \<le> Suc (maxAttempts r) - attempt \<and>
     length (filter sn_forced log) \<le> of_bool force + of_bool (\<not> did) \<and>
     (\<not> canRetry r \<longrightarrow>
        (did \<longrightarrow> length log \<le> 1) \<and>
        list_all (\<lambda>e. \<exists>body. ex_outcome (env (sn_attempt e)) = Response 401 body) (butlast log))"

lemma log_ok_simps [simp]:
  "log_ok r env attempt force did []"
  "attempt \<le> maxAttempts r \<Longrightarrow> sn_attempt e = attempt \<Longrightarrow> sn_forced e \<longrightarrow> force \<Longrightarrow> log_ok r env attempt force did [e]"
  by (auto simp: log_ok_def)

lemma log_ok_Cons:
  assumes "log_ok r env (attempt + 1) f d log" "attempt_round syn r ra scope (env attempt) attempt did = Again f' d"
    and "sn_attempt e = attempt" "sn_forced e \<longrightarrow> force" "f \<longrightarrow> f' \<or> force \<and> \<not> sn_forced e"
  shows "log_ok r env attempt force did (e # log)"
proof -
  note ag = again_cases [OF assms(2)]
  have "map sn_attempt (e # log) = [attempt..<attempt + length (e # log)]"
  proof -
    have "map sn_attempt log = [attempt + 1..<attempt + 1 + length log]" using assms(1) by (simp only: log_ok_def)
    then show ?thesis using assms(3) upt_conv_Cons [of attempt "attempt + length (e # log)"] by simp
  qed
  moreover have "length (e # log) \<le> Suc (maxAttempts r) - attempt"
    using assms(1) ag(1) by (auto simp: log_ok_def)
  moreover have "length (filter sn_forced (e # log)) \<le> of_bool force + of_bool (\<not> did)"
    using assms(1,4,5) ag(2,3,4) by (auto simp: log_ok_def of_bool_def split: if_splits)
  moreover have "\<not> canRetry r \<Longrightarrow> \<not> did \<and> length log \<le> 1"
    using assms(1) ag(2,5) by (auto simp: log_ok_def)
  moreover have "\<not> canRetry r \<Longrightarrow> list_all (\<lambda>e. \<exists>body. ex_outcome (env (sn_attempt e)) = Response 401 body) (butlast (e # log))"
    using assms(1,3) ag(5) by (auto simp: log_ok_def)
  ultimately show ?thesis unfolding log_ok_def by blast
qed

lemma fetch_loop_log:
  "fetch_loop syn r ra g scope env attempt force did = (log, w, res) \<Longrightarrow> log_ok r env attempt force did log"
proof (induction "Suc (maxAttempts r) - attempt" arbitrary: attempt force did log w res rule: less_induct)
  case less
  show ?case
  proof (rule fetch_loop_cases [of r attempt syn ra g scope env force did])
    fix e f d log' w' res'
    assume a: "attempt \<le> maxAttempts r" "attempt_round syn r ra scope (env attempt) attempt did = Again f d"
      "fetch_loop syn r ra g scope env (attempt + 1) (if ra \<and> g then f else force \<or> f) d = (log', w', res')"
      "fetch_loop syn r ra g scope env attempt force did = (e # log', w', res')"
      "sn_attempt e = attempt" "sn_forced e = (ra \<and> g \<and> force)"
    have "log_ok r env (attempt + 1) (if ra \<and> g then f else force \<or> f) d log'"
      using less.hyps [OF _ a(3)] a(1) by simp
    then have "log_ok r env attempt force did (e # log')"
      by (rule log_ok_Cons [where env = env and attempt = attempt, OF _ a(2,5)]) (use a(6) in \<open>auto split: if_splits\<close>)
    then show ?thesis using a(4) less.prems by simp
  qed (use less.prems in auto)
qed

section \<open>What the cache gives back\<close>

lemma startsWith_same [simp]: "startsWith (p @ r) (p @ q) \<longleftrightarrow> startsWith r q"
  by (simp add: startsWith_def)

lemma cacheKey_inj: "cacheKey sc a = cacheKey sc b \<longleftrightarrow> a = b"
  by (simp add: cacheKey_def)

lemma cache_entry_ok: "json_ok data \<Longrightarrow> json_ok (cache_entry data t)"
  by (simp add: cache_entry_def)

lemma read_after_write:
  assumes "json_ok data" "shouldCacheResponse endpoint data" "sc \<noteq> []" "t \<noteq> 0" "now - t \<le> CACHE_MAX_AGE_MS"
  shows "readCachedResponse (Some sc) endpoint now (writeCachedResponse (Some sc) endpoint data t (Some st)) =
    Some \<lparr>rs_data = Some data, rs_error = None, rs_status = None, rs_errorKind = None, rs_errorCode = None,
          rs_fromCache = True, rs_cacheAgeMs = Some (now - t)\<rparr>"
proof -
  have "JSON_parse (stringify (cache_entry data t)) = Some (cache_entry data t)"
    using assms(1) by (intro JSON_round_trip cache_entry_ok)
  then show ?thesis
    using assms(2-) by (simp add: readCachedResponse_def writeCachedResponse_def jmap_get_set cache_entry_def)
qed

text \<open>A failure that no retry gets around: the network, or a status the cache stands in for.\<close>

definition out_of_service :: "fetch_outcome \<Rightarrow> bool" where
  "out_of_service o1 = (case o1 of Fetch_throws _ \<Rightarrow> True | Response status _ \<Rightarrow> status \<in> set CACHE_FALLBACK_STATUSES)"

lemma service_round:
  assumes "out_of_service (ex_outcome x)" "canUseCache r ra scope"
    and "readCachedResponse scope (rq_endpoint r) (ex_now x) (ex_store x) = Some c"
  obtains f where "attempt_round syn r ra scope x attempt did = Again f did" "attempt < maxAttempts r"
  | e where "attempt_round syn r ra scope x attempt did = Return (Resolved e) None" "rs_data e = rs_data c" "rs_fromCache e = rs_fromCache c"
      "rs_cacheAgeMs e = rs_cacheAgeMs c" "rs_error e \<noteq> None"
proof (cases "ex_outcome x")
  case (Fetch_throws err)
  show ?thesis
  proof (cases "canRetry r \<and> attempt < maxAttempts r")
    case True
    then show ?thesis using Fetch_throws by (intro that(1)) (auto simp: attempt_round_def caught_def)
  next
    case False
    then show ?thesis
      using Fetch_throws assms(2,3) that(2) by (simp add: attempt_round_def caught_def Let_def)
  qed
next
  case (Response status body)
  then have st: "status \<in> set CACHE_FALLBACK_STATUSES" using assms(1) by (simp add: out_of_service_def)
  then have no: "\<not> ok_status status" "status \<noteq> 401" by (auto simp: CACHE_FALLBACK_STATUSES_def ok_status_def)
  show ?thesis
  proof (cases "canRetry r \<and> status \<in> set RETRYABLE_STATUSES \<and> attempt < maxAttempts r")
    case True
    then show ?thesis using Response no by (intro that(1)) (auto simp: attempt_round_def refused_def)
  next
    case False
    then show ?thesis
      using Response no st assms(2,3) that(2) by (simp add: attempt_round_def refused_def Let_def)
  qed
qed

definition token_ok :: "exchange \<Rightarrow> bool" where
  "token_ok x = (case ex_token x of Token_throws _ \<Rightarrow> False | _ \<Rightarrow> True)"

lemma fetch_loop_cached:
  assumes "\<And>n. out_of_service (ex_outcome (env n)) \<and> token_ok (env n) \<and>
      readCachedResponse scope (rq_endpoint r) (ex_now (env n)) (ex_store (env n)) = Some c"
    and "canUseCache r ra scope" "attempt \<le> maxAttempts r"
  shows "\<exists>log e. fetch_loop syn r ra g scope env attempt force did = (log, None, Resolved e) \<and>
    rs_data e = rs_data c \<and> rs_fromCache e = rs_fromCache c \<and> rs_cacheAgeMs e = rs_cacheAgeMs c \<and> rs_error e \<noteq> None"
  using assms(3)
proof (induction "Suc (maxAttempts r) - attempt" arbitrary: attempt force did rule: less_induct)
  case less
  note x = assms(1) [of attempt]
  show ?case
  proof (rule fetch_loop_cases [of r attempt syn ra g scope env force did])
    fix e f d log w res
    assume a: "attempt_round syn r ra scope (env attempt) attempt did = Again f d"
      "fetch_loop syn r ra g scope env (attempt + 1) (if ra \<and> g then f else force \<or> f) d = (log, w, res)"
      "fetch_loop syn r ra g scope env attempt force did = (e # log, w, res)"
    have "attempt < maxAttempts r" using again_cases(1) [OF a(1)] .
    then have "\<exists>log e. fetch_loop syn r ra g scope env (attempt + 1) (if ra \<and> g then f else force \<or> f) d = (log, None, Resolved e) \<and>
        rs_data e = rs_data c \<and> rs_fromCache e = rs_fromCache c \<and> rs_cacheAgeMs e = rs_cacheAgeMs c \<and> rs_error e \<noteq> None"
      using less.prems by (intro less.hyps) auto
    then show ?thesis using a(2,3) by auto
  next
    fix e w res
    assume a: "attempt_round syn r ra scope (env attempt) attempt did = Return res w"
      "fetch_loop syn r ra g scope env attempt force did = ([e], map_option (Pair attempt) w, res)"
    show ?thesis
      by (rule service_round [OF conjunct1 [OF x] assms(2) conjunct2 [OF conjunct2 [OF x]], of syn attempt did])
        (use a in auto)
  qed (use less.prems x in \<open>auto simp: token_ok_def\<close>)
qed

section \<open>Scopes\<close>

lemma find_filter_other:
  "(\<And>v. P (k, v)) \<Longrightarrow> map_of (filter P xs) k = map_of xs k"
  by (induction xs) auto

lemma find_filter_gone: "(\<And>v. \<not> P (k, v)) \<Longrightarrow> map_of (filter P xs) k = None"
  by (induction xs) auto

lemma clear_hides: "sc \<noteq> [] \<Longrightarrow> readCachedResponse (Some sc) endpoint now (clearApiCache (Some sc) st) = None"
proof -
  assume "sc \<noteq> []"
  moreover have "map_of (filter (\<lambda>(key, _). \<not> (startsWith key (CACHE_PREFIX @ sc @ '':'') \<or> startsWith key (CACHE_PREFIX @ ''null:''))) xs)
      (cacheKey sc endpoint) = None" for xs :: "(string \<times> string) list"
  proof (rule find_filter_gone)
    have "cacheKey sc endpoint = (CACHE_PREFIX @ sc @ '':'') @ endpoint" by (simp add: cacheKey_def)
    then have "startsWith (cacheKey sc endpoint) (CACHE_PREFIX @ sc @ '':'')" by (simp only: startsWith_append)
    then show "\<not> (case (cacheKey sc endpoint, v) of
        (key, _) \<Rightarrow> \<not> (startsWith key (CACHE_PREFIX @ sc @ '':'') \<or> startsWith key (CACHE_PREFIX @ ''null:'')))" for v by simp
  qed
  ultimately show ?thesis by (cases st) (simp_all add: clearApiCache_def readCachedResponse_def)
qed

definition clerk_scope :: "string \<Rightarrow> string" where
  "clerk_scope user = ''clerk:'' @ user"

lemma clerk_scope_apart:
  assumes "CHR '':'' \<notin> set a" "CHR '':'' \<notin> set b" "a \<noteq> b"
  shows "\<not> startsWith (cacheKey (clerk_scope b) endpoint) (CACHE_PREFIX @ clerk_scope a @ '':'')"
proof
  assume "startsWith (cacheKey (clerk_scope b) endpoint) (CACHE_PREFIX @ clerk_scope a @ '':'')"
  then obtain r where "b @ CHR '':'' # endpoint = a @ CHR '':'' # r"
    by (auto simp: startsWith_iff cacheKey_def clerk_scope_def)
  then show False using append_sep_inj [of "CHR '':''" b a] assms by blast
qed

lemma clear_keeps:
  assumes "CHR '':'' \<notin> set a" "CHR '':'' \<notin> set b" "a \<noteq> b"
  shows "readCachedResponse (Some (clerk_scope b)) endpoint now (clearApiCache (Some (clerk_scope a)) st) =
    readCachedResponse (Some (clerk_scope b)) endpoint now st"
proof -
  have "\<not> startsWith (cacheKey (clerk_scope b) endpoint) (CACHE_PREFIX @ ''null:'')"
    by (simp add: cacheKey_def clerk_scope_def startsWith_def)
  then have "map_of (filter (\<lambda>(key, _). \<not> (startsWith key (CACHE_PREFIX @ clerk_scope a @ '':'') \<or> startsWith key (CACHE_PREFIX @ ''null:''))) xs)
      (cacheKey (clerk_scope b) endpoint) = map_of xs (cacheKey (clerk_scope b) endpoint)" for xs :: "(string \<times> string) list"
    using clerk_scope_apart [OF assms, of endpoint] by (intro find_filter_other) auto
  then show ?thesis
    by (cases st) (simp_all add: clearApiCache_def readCachedResponse_def clerk_scope_def)
qed

section \<open>Properties\<close>

text \<open>
  C17: a request that is neither \<^verbatim>\<open>GET\<close> nor \<^verbatim>\<open>HEAD\<close> is sent at most twice, and every time it is repeated the
  attempt before was answered with 401; no other answer and no network error makes the client
  send it again. Other requests are sent at most three times. A token refresh is forced at most once.
\<close>

theorem fetchApi_attempts:
  assumes "fetchApi syn r ra g scope env = (log, w, res)"
  shows "map sn_attempt log = [1..<1 + length log] \<and> length log \<le> (if canRetry r then 3 else 2) \<and>
    length (filter sn_forced log) \<le> 1 \<and>
    (\<not> canRetry r \<longrightarrow> list_all (\<lambda>e. \<exists>body. ex_outcome (env (sn_attempt e)) = Response 401 body) (butlast log))"
  using fetch_loop_log [OF assms [unfolded fetchApi_def]] by (auto simp: log_ok_def maxAttempts_def)

definition post_request :: "string \<Rightarrow> api_request" where
  "post_request path = \<lparr>rq_method = Some ''POST'', rq_endpoint = path, rq_body = None, rq_headers = []\<rparr>"

definition get_request :: "string \<Rightarrow> api_request" where
  "get_request path = \<lparr>rq_method = None, rq_endpoint = path, rq_body = None, rq_headers = []\<rparr>"

definition sample_exchange :: "fetch_outcome \<Rightarrow> store \<Rightarrow> exchange" where
  "sample_exchange o1 st = \<lparr>ex_token = Token ''t'', ex_outcome = o1, ex_store = st, ex_now = 2000, ex_online = True\<rparr>"

lemma methods [simp]: "request_method (post_request p) = ''POST''" "request_method (get_request p) = ''GET''"
  by (simp_all add: request_method_def post_request_def get_request_def)

theorem fetchApi_attempts_witness:
  "case fetchApi (\<lambda>_. []) (post_request ''/api/v1/sessions'') True True None
      (\<lambda>n. sample_exchange (Response 401 (Text [])) (Some [])) of
     (log, w, res) \<Rightarrow> length log = 2 \<and> length (filter sn_forced log) \<le> 1"
proof -
  let ?env = "\<lambda>n::nat. sample_exchange (Response 401 (Text [])) (Some [])"
  obtain log w res where f: "fetchApi (\<lambda>_. []) (post_request ''/api/v1/sessions'') True True None ?env = (log, w, res)"
    by (metis surj_pair)
  moreover have "case fetchApi (\<lambda>_. []) (post_request ''/api/v1/sessions'') True True None ?env of (log, w, res) \<Rightarrow> length log = 2"
    by code_simp
  ultimately show ?thesis using fetchApi_attempts [OF f] by simp
qed

text \<open>
  C18: what was cached comes back. If a response was written to the cache and within seven days a
  request for the same endpoint in the same scope meets nothing but network errors and statuses 408, 429, 500, 502, 503, 504,
  then the promise resolves to the cached data, marked as cached, with its age and with an error.
  Hypothesis: the data has no number with a fraction.
\<close>

theorem fetchApi_falls_back_to_cache:
  assumes "json_ok data" "shouldCacheResponse (rq_endpoint r) data" "canUseCache r ra (Some sc)"
    and "t \<noteq> 0" "now - t \<le> CACHE_MAX_AGE_MS"
    and "\<And>n. out_of_service (ex_outcome (env n)) \<and> token_ok (env n) \<and> ex_now (env n) = now \<and>
      ex_store (env n) = writeCachedResponse (Some sc) (rq_endpoint r) data t (Some st)"
  shows "\<exists>log e. fetchApi syn r ra g (Some sc) env = (log, None, Resolved e) \<and> rs_data e = Some data \<and>
    rs_fromCache e \<and> rs_cacheAgeMs e = Some (now - t) \<and> rs_error e \<noteq> None"
proof -
  have "sc \<noteq> []" using assms(3) by (simp add: canUseCache_def)
  note c = read_after_write [OF assms(1,2) this assms(4,5), of st]
  have "maxAttempts r \<ge> 1" by (simp add: maxAttempts_def)
  moreover have "\<And>n. out_of_service (ex_outcome (env n)) \<and> token_ok (env n) \<and>
      readCachedResponse (Some sc) (rq_endpoint r) (ex_now (env n)) (ex_store (env n)) =
        Some \<lparr>rs_data = Some data, rs_error = None, rs_status = None, rs_errorKind = None, rs_errorCode = None,
          rs_fromCache = True, rs_cacheAgeMs = Some (now - t)\<rparr>"
    using assms(6) c by simp
  ultimately show ?thesis
    unfolding fetchApi_def
    using fetch_loop_cached [of env "Some sc" r _ ra 1 syn g False False, OF _ assms(3)] by fastforce
qed

theorem fetchApi_falls_back_to_cache_witness:
  "\<exists>log e. fetchApi (\<lambda>_. []) (get_request ''/api/v1/workspaces'') True True (Some ''clerk:u'')
      (\<lambda>n. sample_exchange (Response 503 (Text []))
        (writeCachedResponse (Some ''clerk:u'') ''/api/v1/workspaces'' (JObj [(''workspaces'', JArr [JNum 7])]) 1000 (Some []))) =
      (log, None, Resolved e) \<and>
    rs_data e = Some (JObj [(''workspaces'', JArr [JNum 7])]) \<and> rs_fromCache e \<and> rs_cacheAgeMs e = Some (2000 - 1000) \<and> rs_error e \<noteq> None"
proof -
  have e: "rq_endpoint (get_request p) = p" for p by (simp add: get_request_def)
  show ?thesis
    using fetchApi_falls_back_to_cache [of "JObj [(''workspaces'', JArr [JNum 7])]" "get_request ''/api/v1/workspaces''" True
        "''clerk:u''" 1000 2000 "\<lambda>n. sample_exchange (Response 503 (Text []))
        (writeCachedResponse (Some ''clerk:u'') ''/api/v1/workspaces'' (JObj [(''workspaces'', JArr [JNum 7])]) 1000 (Some []))" "[]"
        "\<lambda>_. []" True]
    by (simp add: e shouldCacheResponse_def startsWith_def canUseCache_def CACHE_MAX_AGE_MS_def out_of_service_def
        CACHE_FALLBACK_STATUSES_def sample_exchange_def token_ok_def)
qed

text \<open>
  C19: clearing the cache of a signed-in user removes what that user could read back and nothing of
  any other user. Identities of users contain no colon.
\<close>

theorem clearApiCache_is_exact:
  assumes "CHR '':'' \<notin> set a" "CHR '':'' \<notin> set b"
  shows "readCachedResponse (Some (clerk_scope b)) endpoint now (clearApiCache (Some (clerk_scope a)) st) =
    (if a = b then None else readCachedResponse (Some (clerk_scope b)) endpoint now st)"
proof (cases "a = b")
  case True
  have "clerk_scope b \<noteq> []" by (simp add: clerk_scope_def)
  then show ?thesis using True clear_hides by simp
next
  case False
  then show ?thesis using clear_keeps [OF assms] by simp
qed

theorem clearApiCache_is_exact_witness:
  "readCachedResponse (Some (clerk_scope ''u2'')) ''/api/v1/workspaces'' 5
      (clearApiCache (Some (clerk_scope ''u1'')) (writeCachedResponse (Some (clerk_scope ''u2'')) ''/api/v1/workspaces'' (JArr []) 4 (Some []))) =
   readCachedResponse (Some (clerk_scope ''u2'')) ''/api/v1/workspaces'' 5
      (writeCachedResponse (Some (clerk_scope ''u2'')) ''/api/v1/workspaces'' (JArr []) 4 (Some []))"
  by (subst clearApiCache_is_exact) simp_all

end
