(* ===== verification/Uri.thy ===== *)
theory Uri
  imports Prelude
begin

text \<open>
  \<^verbatim>\<open>encodeURIComponent\<close> and the encoding of \<^verbatim>\<open>URLSearchParams\<close> on the strings of the model, and which characters
  they can produce: whatever the input, no character that would end a path segment, start a query
  or a fragment, or separate parameters.
\<close>

definition ascii_alnum :: "char \<Rightarrow> bool" where
  "ascii_alnum c \<longleftrightarrow>
     c \<in> set ''ABCDEFGHIJKLMNOPQRSTUVWXYZabcdefghijklmnopqrstuvwxyz0123456789''"

definition upper_hex :: "nat \<Rightarrow> char" where
  "upper_hex d = ''0123456789ABCDEF'' ! d"

definition percent :: "nat \<Rightarrow> string" where
  "percent b = [CHR ''%'', upper_hex (b div 16 mod 16), upper_hex (b mod 16)]"

text \<open>The UTF-8 bytes of a character below U+0100.\<close>

definition utf8 :: "char \<Rightarrow> nat list" where
  "utf8 c = (let n = (of_char c :: nat) in if n < 128 then [n] else [192 + n div 64, 128 + n mod 64])"

definition encodeURIComponent :: "string \<Rightarrow> string" where
  "encodeURIComponent s =
     concat (map (\<lambda>c. if ascii_alnum c \<or> c \<in> set ''-_.!~*()'' \<or> c = CHR 0x27 then [c] else concat (map percent (utf8 c))) s)"

definition form_encode :: "string \<Rightarrow> string" where
  "form_encode s =
     concat (map (\<lambda>c. if ascii_alnum c \<or> c \<in> set ''*-._'' then [c] else if c = CHR '' '' then ''+''
                      else concat (map percent (utf8 c))) s)"

text \<open>Entries of \<^verbatim>\<open>URLSearchParams\<close>; \<open>set\<close> on a key that is there replaces its value.\<close>

definition search_params :: "(string \<times> string) list \<Rightarrow> string" where
  "search_params kvs = join ''&'' (map (\<lambda>(k, v). form_encode k @ ''='' @ form_encode v) kvs)"

section \<open>Which characters appear\<close>

definition data_char :: "char \<Rightarrow> bool" where
  "data_char c \<longleftrightarrow> ascii_alnum c \<or> c \<in> set ''-_.!~*()%+'' \<or> c = CHR 0x27"

lemma upper_hex_data: "d < 16 \<Longrightarrow> data_char (upper_hex d)"
proof -
  have "list_all (\<lambda>d. data_char (upper_hex d)) [0..<16]" by code_simp
  moreover assume "d < 16"
  ultimately show ?thesis by (simp add: list_all_iff)
qed

lemma percent_data: "list_all data_char (percent b)"
  by (simp add: percent_def upper_hex_data data_char_def [of "CHR ''%''"])

lemma percents_data: "list_all data_char (concat (map percent bs))"
  using percent_data by (auto simp: list_all_iff)

lemma concat_map_data: "(\<And>c. list_all data_char (f c)) \<Longrightarrow> list_all data_char (concat (map f s))"
  by (auto simp: list_all_iff)

lemma encodeURIComponent_data [simp]: "list_all data_char (encodeURIComponent s)"
  unfolding encodeURIComponent_def
  by (rule concat_map_data) (use percents_data in \<open>auto simp: data_char_def\<close>)

lemma form_encode_data [simp]: "list_all data_char (form_encode s)"
  unfolding form_encode_def
  by (rule concat_map_data) (use percents_data in \<open>auto simp: data_char_def\<close>)

lemma show_int_data [simp]: "list_all data_char (show_int i)"
proof -
  have "data_char c" if "is_digit c" for c
    using that by (auto simp: is_digit_def data_char_def ascii_alnum_def)
  then show ?thesis
    using show_nat_digits by (auto simp: show_int_def list_all_iff data_char_def)
qed

text \<open>A string that is one query: parameters separated by \<open>&\<close> and \<open>=\<close>, nothing else special.\<close>

definition query_chars :: "string \<Rightarrow> bool" where
  "query_chars s = list_all (\<lambda>c. data_char c \<or> c = CHR ''&'' \<or> c = CHR ''='') s"

lemma query_chars_append [simp]: "query_chars (s @ t) = (query_chars s \<and> query_chars t)"
  by (simp add: query_chars_def)

lemma query_chars_Cons [simp]: "query_chars (c # s) = ((data_char c \<or> c = CHR ''&'' \<or> c = CHR ''='') \<and> query_chars s)"
  by (simp add: query_chars_def)

lemma query_chars_data: "list_all data_char s \<Longrightarrow> query_chars s"
  by (auto simp: query_chars_def list_all_iff)

lemma query_chars_join: "list_all query_chars ws \<Longrightarrow> query_chars (join ''&'' ws)"
proof (induction ws)
  case (Cons w ws)
  then show ?case by (cases ws) (auto simp: query_chars_def)
qed (simp add: query_chars_def)

lemma search_params_chars [simp]: "query_chars (search_params kvs)"
  unfolding search_params_def
  by (rule query_chars_join) (simp add: list.pred_map o_def split_def query_chars_data list.pred_True)

end
