(* ===== verification/Api_Endpoints.thy ===== *)
theory Api_Endpoints
  imports Api_Client Uri
begin

text \<open>
  The table \<open>api\<close> of \<^verbatim>\<open>web/src/lib/api.ts\<close> (356--974): one constructor per operation of the client and the
  request that it hands to \<open>fetchApi\<close>. Identities are integers; an object that is passed through to the
  body is a \<open>json\<close> value, an object of query parameters the list of its entries. Abort signals are left out.

  Shown here: whatever the arguments, the address stays inside \<^verbatim>\<open>/api/v1/\<close> and the arguments cannot add a
  path segment, a second query or a fragment, with one exception; and, together with \<open>fetchApi\<close>,
  no operation that changes data is sent again after an answer other than 401.
\<close>

section \<open>Query strings and bodies\<close>

datatype qval = Q_str string | Q_num int | Q_bool bool | Q_none

fun q_string :: "qval \<Rightarrow> string option" where
  "q_string (Q_str s) = Some s"
| "q_string (Q_num i) = Some (show_int i)"
| "q_string (Q_bool b) = Some (if b then ''true'' else ''false'')"
| "q_string Q_none = None"

definition q_opt :: "int option \<Rightarrow> qval" where
  "q_opt i = (case i of None \<Rightarrow> Q_none | Some n \<Rightarrow> Q_num n)"

definition with_question_mark :: "string \<Rightarrow> string" where
  "with_question_mark query = (if query = [] then [] else ''?'' @ query)"

text \<open>\<open>queryString\<close> skips values that are \<open>undefined\<close>, \<open>null\<close> or empty; the one of announcements keeps empty ones.\<close>

definition queryString :: "(string \<times> qval) list \<Rightarrow> string" where
  "queryString params =
     with_question_mark (search_params (foldl (\<lambda>m (k, v). jmap_set k v m) []
       (concat (map (\<lambda>(k, v). case q_string v of None \<Rightarrow> [] | Some s \<Rightarrow> if s = [] then [] else [(k, s)]) params))))"

definition announcementQuery :: "(string \<times> qval) list \<Rightarrow> string" where
  "announcementQuery params =
     with_question_mark (search_params (foldl (\<lambda>m (k, v). jmap_set k v m) []
       (concat (map (\<lambda>(k, v). case q_string v of None \<Rightarrow> [] | Some s \<Rightarrow> [(k, s)]) params))))"

definition optional_query :: "(string \<times> string) list option \<Rightarrow> string" where
  "optional_query params = (case params of None \<Rightarrow> [] | Some kvs \<Rightarrow> ''?'' @ search_params kvs)"

text \<open>An object literal; a field that is \<open>undefined\<close> is not printed.\<close>

definition jobj :: "(string \<times> json option) list \<Rightarrow> json" where
  "jobj fs = JObj (concat (map (\<lambda>(k, v). case v of None \<Rightarrow> [] | Some j \<Rightarrow> [(k, j)]) fs))"

definition jnums :: "int list \<Rightarrow> json" where
  "jnums is = JArr (map JNum is)"

fun json_without :: "string \<Rightarrow> json \<Rightarrow> json" where
  "json_without k (JObj kvs) = JObj (filter (\<lambda>kv. fst kv \<noteq> k) kvs)"
| "json_without k j = j"

definition request :: "string option \<Rightarrow> string \<Rightarrow> json option \<Rightarrow> api_request" where
  "request m path b = \<lparr>rq_method = m, rq_endpoint = path, rq_body = b, rq_headers = []\<rparr>"

section \<open>Operations\<close>

subsection \<open>Session, dashboard, announcements, notifications (360--440)\<close>

datatype home_call =
    CreateSession
  | UpdatePresence
  | GetDashboard
  | GetWeeklyPlan
  | GetRecordings
  | GetResources
  | GetAnnouncements "(string \<times> qval) list"
  | GetAnnouncement int
  | CreateAnnouncement json
  | UpdateAnnouncement int json
  | ArchiveAnnouncement int
  | GetNotifications "(string \<times> qval) list"
  | MarkNotificationRead int
  | MarkAllNotificationsRead "string option"
  | GetPushConfig
  | UpdateMessageNotifications bool
  | CreatePushSubscription json
  | DeletePushSubscription "string option" bool
  | CreateCableToken

fun home_request :: "home_call \<Rightarrow> api_request" where
  "home_request CreateSession = request (Some ''POST'') ''/api/v1/sessions'' None"
| "home_request UpdatePresence = request (Some ''POST'') ''/api/v1/presence'' None"
| "home_request GetDashboard = request None ''/api/v1/dashboard'' None"
| "home_request GetWeeklyPlan = request None ''/api/v1/weekly_plan'' None"
| "home_request GetRecordings = request None ''/api/v1/recordings'' None"
| "home_request GetResources = request None ''/api/v1/resources'' None"
| "home_request (GetAnnouncements params) = request None (''/api/v1/announcements'' @ announcementQuery params) None"
| "home_request (GetAnnouncement i) = request None (''/api/v1/announcements/'' @ show_int i) None"
| "home_request (CreateAnnouncement dat) = request (Some ''POST'') ''/api/v1/announcements'' (Some dat)"
| "home_request (UpdateAnnouncement i dat) = request (Some ''PATCH'') (''/api/v1/announcements/'' @ show_int i) (Some dat)"
| "home_request (ArchiveAnnouncement i) = request (Some ''DELETE'') (''/api/v1/announcements/'' @ show_int i) None"
| "home_request (GetNotifications params) = request None (''/api/v1/notifications'' @ queryString params) None"
| "home_request (MarkNotificationRead i) = request (Some ''PATCH'') (''/api/v1/notifications/'' @ show_int i @ ''/read'') None"
| "home_request (MarkAllNotificationsRead notificationType) =
     request (Some ''PATCH'') (''/api/v1/notifications/mark_all_read'' @ (case notificationType of None \<Rightarrow> [] | Some s \<Rightarrow> if s = [] then [] else ''?notification_type='' @ s)) None"
| "home_request GetPushConfig = request None ''/api/v1/push_subscriptions/config'' None"
| "home_request (UpdateMessageNotifications notificationsEnabled) =
     request (Some ''PATCH'') ''/api/v1/push_subscriptions/preferences'' (Some (jobj [(''notifications_enabled'', Some (JBool notificationsEnabled))]))"
| "home_request (CreatePushSubscription subscription) = request (Some ''POST'') ''/api/v1/push_subscriptions'' (Some subscription)"
| "home_request (DeletePushSubscription endpoint al) =
     request (Some ''DELETE'') ''/api/v1/push_subscriptions'' (Some (jobj [(''endpoint'', map_option JStr endpoint), (''all'', Some (JBool al))]))"
| "home_request CreateCableToken = request (Some ''POST'') ''/api/v1/cable_token'' None"

subsection \<open>Workspaces, channels, direct conversations, messages (441--530)\<close>

datatype messaging_call =
    GetWorkspaces
  | GetWorkspace int
  | CreateWorkspace json
  | UpdateWorkspace int json
  | AddWorkspaceMembers int "int list"
  | RemoveWorkspaceMember int int
  | GetChannels
  | GetChannel int "(string \<times> qval) list"
  | CreateChannel json
  | MarkChannelRead int
  | CreateMessage int json
  | GetDirectConversations
  | GetAvailableDirectUsers int
  | GetDirectConversation int "(string \<times> qval) list"
  | CreateDirectConversation json
  | MarkDirectConversationRead int
  | CreateDirectMessage int json
  | UpdateMessage int json
  | DeleteMessage int
  | PinMessage int
  | UnpinMessage int
  | ReactMessage int string
  | UnreactMessage int string
  | UpdateMessagePreference string int bool
  | PresignMessageAttachment json
  | SearchMessages string int

fun messaging_request :: "messaging_call \<Rightarrow> api_request" where
  "messaging_request GetWorkspaces = request None ''/api/v1/workspaces'' None"
| "messaging_request (GetWorkspace i) = request None (''/api/v1/workspaces/'' @ show_int i) None"
| "messaging_request (CreateWorkspace dat) = request (Some ''POST'') ''/api/v1/workspaces'' (Some dat)"
| "messaging_request (UpdateWorkspace i dat) = request (Some ''PATCH'') (''/api/v1/workspaces/'' @ show_int i) (Some dat)"
| "messaging_request (AddWorkspaceMembers workspaceId user_ids) =
     request (Some ''POST'') (''/api/v1/workspaces/'' @ show_int workspaceId @ ''/memberships'') (Some (jobj [(''user_ids'', Some (jnums user_ids))]))"
| "messaging_request (RemoveWorkspaceMember workspaceId userId) =
     request (Some ''DELETE'') (''/api/v1/workspaces/'' @ show_int workspaceId @ ''/memberships/'' @ show_int userId) None"
| "messaging_request GetChannels = request None ''/api/v1/channels'' None"
| "messaging_request (GetChannel i params) = request None (''/api/v1/channels/'' @ show_int i @ queryString params) None"
| "messaging_request (CreateChannel dat) = request (Some ''POST'') ''/api/v1/channels'' (Some dat)"
| "messaging_request (MarkChannelRead i) = request (Some ''PATCH'') (''/api/v1/channels/'' @ show_int i @ ''/read'') None"
| "messaging_request (CreateMessage channelId dat) = request (Some ''POST'') (''/api/v1/channels/'' @ show_int channelId @ ''/messages'') (Some dat)"
| "messaging_request GetDirectConversations = request None ''/api/v1/direct_conversations'' None"
| "messaging_request (GetAvailableDirectUsers workspaceId) =
     request None (''/api/v1/direct_conversations/available_users?workspace_id='' @ show_int workspaceId) None"
| "messaging_request (GetDirectConversation i params) = request None (''/api/v1/direct_conversations/'' @ show_int i @ queryString params) None"
| "messaging_request (CreateDirectConversation dat) = request (Some ''POST'') ''/api/v1/direct_conversations'' (Some dat)"
| "messaging_request (MarkDirectConversationRead i) = request (Some ''PATCH'') (''/api/v1/direct_conversations/'' @ show_int i @ ''/read'') None"
| "messaging_request (CreateDirectMessage conversationId dat) =
     request (Some ''POST'') (''/api/v1/direct_conversations/'' @ show_int conversationId @ ''/messages'') (Some dat)"
| "messaging_request (UpdateMessage i dat) = request (Some ''PATCH'') (''/api/v1/messages/'' @ show_int i) (Some dat)"
| "messaging_request (DeleteMessage i) = request (Some ''DELETE'') (''/api/v1/messages/'' @ show_int i) None"
| "messaging_request (PinMessage i) = request (Some ''PATCH'') (''/api/v1/messages/'' @ show_int i @ ''/pin'') None"
| "messaging_request (UnpinMessage i) = request (Some ''DELETE'') (''/api/v1/messages/'' @ show_int i @ ''/pin'') None"
| "messaging_request (ReactMessage i emoji) =
     request (Some ''POST'') (''/api/v1/messages/'' @ show_int i @ ''/reactions'') (Some (jobj [(''emoji'', Some (JStr emoji))]))"
| "messaging_request (UnreactMessage i emoji) =
     request (Some ''DELETE'') (''/api/v1/messages/'' @ show_int i @ ''/reactions'') (Some (jobj [(''emoji'', Some (JStr emoji))]))"
| "messaging_request (UpdateMessagePreference targetType targetId muted) =
     request (Some ''PATCH'') ''/api/v1/message_preferences'' (Some (jobj [(''target_type'', Some (JStr targetType)), (''target_id'', Some (JNum targetId)), (''muted'', Some (JBool muted))]))"
| "messaging_request (PresignMessageAttachment dat) = request (Some ''POST'') ''/api/v1/message_attachments/presign'' (Some dat)"
| "messaging_request (SearchMessages q limit) =
     request None (''/api/v1/messages/search?q='' @ encodeURIComponent q @ ''&limit='' @ show_int limit) None"

subsection \<open>Moderation, profile, help, interventions, recovery plans, progress (531--613)\<close>

datatype community_call =
    AcceptCommunityPolicy string
  | ReportContent json
  | GetContentReports "string option"
  | UpdateContentReport int string
  | BlockUser int
  | GetBlockedUsers
  | UnblockUser int
  | RequestDataDeletion
  | GetDataDeletionRequests
  | UpdateDataDeletionRequest int json
  | GetProfile
  | UpdateProfile json
  | GetModule int
  | GetLesson int
  | GetHelpRequests "(string \<times> qval) list"
  | GetHelpRequest int
  | CreateHelpRequest json
  | UpdateHelpRequest int json
  | GetSupportQueue
  | GetInterventions "(string \<times> qval) list"
  | GetIntervention int
  | CreateIntervention json
  | UpdateIntervention int json
  | CreateInterventionNote int string
  | GetRecoveryPlans "(string \<times> qval) list"
  | GetRecoveryPlan int
  | CreateRecoveryPlan json
  | UpdateRecoveryPlan int json
  | CreateRecoveryPlanCheckIn int json
  | UpdateProgress int string

fun community_request :: "community_call \<Rightarrow> api_request" where
  "community_request (AcceptCommunityPolicy vers) =
     request (Some ''POST'') ''/api/v1/community_policy/accept'' (Some (jobj [(''version'', Some (JStr vers)), (''accepted'', Some (JBool True))]))"
| "community_request (ReportContent dat) = request (Some ''POST'') ''/api/v1/content_reports'' (Some (jobj [(''content_report'', Some dat)]))"
| "community_request (GetContentReports status) =
     request None (''/api/v1/content_reports'' @ (case status of None \<Rightarrow> [] | Some s \<Rightarrow> if s = [] then [] else ''?status='' @ encodeURIComponent s)) None"
| "community_request (UpdateContentReport i status) =
     request (Some ''PATCH'') (''/api/v1/content_reports/'' @ show_int i) (Some (jobj [(''content_report'', Some (jobj [(''status'', Some (JStr status))]))]))"
| "community_request (BlockUser blockedUserId) =
     request (Some ''POST'') ''/api/v1/user_blocks'' (Some (jobj [(''blocked_user_id'', Some (JNum blockedUserId))]))"
| "community_request GetBlockedUsers = request None ''/api/v1/user_blocks'' None"
| "community_request (UnblockUser blockedUserId) = request (Some ''DELETE'') (''/api/v1/user_blocks/'' @ show_int blockedUserId) None"
| "community_request RequestDataDeletion = request (Some ''POST'') ''/api/v1/data_deletion_requests'' None"
| "community_request GetDataDeletionRequests = request None ''/api/v1/data_deletion_requests'' None"
| "community_request (UpdateDataDeletionRequest i dat) =
     request (Some ''PATCH'') (''/api/v1/data_deletion_requests/'' @ show_int i) (Some (jobj [(''data_deletion_request'', Some dat)]))"
| "community_request GetProfile = request None ''/api/v1/profile'' None"
| "community_request (UpdateProfile dat) = request (Some ''PATCH'') ''/api/v1/profile'' (Some dat)"
| "community_request (GetModule i) = request None (''/api/v1/modules/'' @ show_int i) None"
| "community_request (GetLesson i) = request None (''/api/v1/lessons/'' @ show_int i) None"
| "community_request (GetHelpRequests params) = request None (''/api/v1/help_requests'' @ queryString params) None"
| "community_request (GetHelpRequest i) = request None (''/api/v1/help_requests/'' @ show_int i) None"
| "community_request (CreateHelpRequest dat) = request (Some ''POST'') ''/api/v1/help_requests'' (Some (jobj [(''help_request'', Some dat)]))"
| "community_request (UpdateHelpRequest i dat) =
     request (Some ''PATCH'') (''/api/v1/help_requests/'' @ show_int i) (Some (jobj [(''help_request'', Some dat)]))"
| "community_request GetSupportQueue = request None ''/api/v1/support_queue'' None"
| "community_request (GetInterventions params) = request None (''/api/v1/interventions'' @ queryString params) None"
| "community_request (GetIntervention i) = request None (''/api/v1/interventions/'' @ show_int i) None"
| "community_request (CreateIntervention dat) = request (Some ''POST'') ''/api/v1/interventions'' (Some (jobj [(''intervention'', Some dat)]))"
| "community_request (UpdateIntervention i dat) =
     request (Some ''PATCH'') (''/api/v1/interventions/'' @ show_int i) (Some (jobj [(''intervention'', Some dat)]))"
| "community_request (CreateInterventionNote i bd) =
     request (Some ''POST'') (''/api/v1/interventions/'' @ show_int i @ ''/notes'') (Some (jobj [(''note'', Some (jobj [(''body'', Some (JStr bd))]))]))"
| "community_request (GetRecoveryPlans params) = request None (''/api/v1/recovery_plans'' @ queryString params) None"
| "community_request (GetRecoveryPlan i) = request None (''/api/v1/recovery_plans/'' @ show_int i) None"
| "community_request (CreateRecoveryPlan dat) = request (Some ''POST'') ''/api/v1/recovery_plans'' (Some (jobj [(''recovery_plan'', Some dat)]))"
| "community_request (UpdateRecoveryPlan i dat) =
     request (Some ''PATCH'') (''/api/v1/recovery_plans/'' @ show_int i) (Some (jobj [(''recovery_plan'', Some dat)]))"
| "community_request (CreateRecoveryPlanCheckIn i dat) =
     request (Some ''POST'') (''/api/v1/recovery_plans/'' @ show_int i @ ''/check_ins'') (Some (jobj [(''check_in'', Some dat)]))"
| "community_request (UpdateProgress contentBlockId status) =
     request (Some ''PATCH'') ''/api/v1/progress'' (Some (jobj [(''content_block_id'', Some (JNum contentBlockId)), (''status'', Some (JStr status))]))"

subsection \<open>Submissions and student progress (616--673)\<close>

datatype learning_call =
    GetSubmissions "(string \<times> string) list option"
  | GetSubmission int
  | GetSubmissionGithubChecks int
  | RefreshSubmissionGithubChecks int
  | CreateSubmission json
  | GradeSubmission int json
  | GetFeedbackSnippets
  | CreateFeedbackSnippet string
  | UseFeedbackSnippet int
  | AttemptKnowledgeCheck int int
  | GetSubmissionGithubIssue int
  | GetStudentProgress int "int option"
  | GetLearningInsights int "int option"
  | RestartEnrollment int string "string option"

fun learning_request :: "learning_call \<Rightarrow> api_request" where
  "learning_request (GetSubmissions params) = request None (''/api/v1/submissions'' @ optional_query params) None"
| "learning_request (GetSubmission i) = request None (''/api/v1/submissions/'' @ show_int i) None"
| "learning_request (GetSubmissionGithubChecks i) = request None (''/api/v1/submissions/'' @ show_int i @ ''/github_checks'') None"
| "learning_request (RefreshSubmissionGithubChecks i) = request (Some ''POST'') (''/api/v1/submissions/'' @ show_int i @ ''/github_checks'') None"
| "learning_request (CreateSubmission dat) = request (Some ''POST'') ''/api/v1/submissions'' (Some dat)"
| "learning_request (GradeSubmission i dat) = request (Some ''PATCH'') (''/api/v1/submissions/'' @ show_int i @ ''/grade'') (Some dat)"
| "learning_request GetFeedbackSnippets = request None ''/api/v1/feedback_snippets'' None"
| "learning_request (CreateFeedbackSnippet bd) =
     request (Some ''POST'') ''/api/v1/feedback_snippets'' (Some (jobj [(''feedback_snippet'', Some (jobj [(''body'', Some (JStr bd))]))]))"
| "learning_request (UseFeedbackSnippet i) = request (Some ''POST'') (''/api/v1/feedback_snippets/'' @ show_int i @ ''/use'') None"
| "learning_request (AttemptKnowledgeCheck i selectedOption) =
     request (Some ''POST'') (''/api/v1/knowledge_checks/'' @ show_int i @ ''/attempts'') (Some (jobj [(''selected_option'', Some (JNum selectedOption))]))"
| "learning_request (GetSubmissionGithubIssue i) = request None (''/api/v1/submissions/'' @ show_int i @ ''/github_issue'') None"
| "learning_request (GetStudentProgress userId cohortId) =
     request None (''/api/v1/progress/student/'' @ show_int userId @ queryString [(''cohort_id'', q_opt cohortId)]) None"
| "learning_request (GetLearningInsights cohortId userId) =
     request None (''/api/v1/cohorts/'' @ show_int cohortId @ ''/learning_insights'' @ queryString [(''user_id'', q_opt userId)]) None"
| "learning_request (RestartEnrollment enrollmentId confirmation reason) =
     request (Some ''POST'') (''/api/v1/enrollments/'' @ show_int enrollmentId @ ''/restart'') (Some (jobj [(''confirmation'', Some (JStr confirmation)), (''reason'', map_option JStr reason)]))"

subsection \<open>Users, curricula, cohorts, office hours, enrollments, module assignments (676--784)\<close>

datatype people_call =
    GetUsers "(string \<times> string) list option"
  | CreateUser json
  | ResendInvite int
  | GetUser int
  | UpdateUser int json
  | DeleteUser int
  | UnarchiveUser int
  | GetCurricula
  | GetCurriculum int
  | GetCohorts
  | GetCohort int
  | GetCohortStudentView int
  | CreateCohort json
  | UpdateCohort int json
  | DeleteCohort int
  | UpdateCohortModuleAccess int json
  | UpdateCohortRecordings int json
  | UpdateCohortClassResources int json
  | UpdateCohortModuleSubmissionWindows int int json
  | GetOfficeHours int
  | CreateOfficeHour int json
  | UpdateOfficeHour int int json
  | DeleteOfficeHour int int
  | CreateEnrollment int int
  | GetEnrollment int
  | GetModuleAssignments int
  | CreateModuleAssignment int json
  | UpdateModuleAssignment int json
  | DeleteModuleAssignment int

fun people_request :: "people_call \<Rightarrow> api_request" where
  "people_request (GetUsers params) = request None (''/api/v1/users'' @ optional_query params) None"
| "people_request (CreateUser dat) = request (Some ''POST'') ''/api/v1/users'' (Some dat)"
| "people_request (ResendInvite userId) = request (Some ''POST'') (''/api/v1/users/'' @ show_int userId @ ''/resend_invite'') None"
| "people_request (GetUser i) = request None (''/api/v1/users/'' @ show_int i) None"
| "people_request (UpdateUser i dat) = request (Some ''PATCH'') (''/api/v1/users/'' @ show_int i) (Some dat)"
| "people_request (DeleteUser i) = request (Some ''DELETE'') (''/api/v1/users/'' @ show_int i) None"
| "people_request (UnarchiveUser i) = request (Some ''PATCH'') (''/api/v1/users/'' @ show_int i @ ''/unarchive'') None"
| "people_request GetCurricula = request None ''/api/v1/curricula'' None"
| "people_request (GetCurriculum i) = request None (''/api/v1/curricula/'' @ show_int i) None"
| "people_request GetCohorts = request None ''/api/v1/cohorts'' None"
| "people_request (GetCohort i) = request None (''/api/v1/cohorts/'' @ show_int i) None"
| "people_request (GetCohortStudentView i) = request None (''/api/v1/cohorts/'' @ show_int i @ ''/student_view'') None"
| "people_request (CreateCohort dat) = request (Some ''POST'') ''/api/v1/cohorts'' (Some dat)"
| "people_request (UpdateCohort i dat) = request (Some ''PATCH'') (''/api/v1/cohorts/'' @ show_int i) (Some dat)"
| "people_request (DeleteCohort i) = request (Some ''DELETE'') (''/api/v1/cohorts/'' @ show_int i) None"
| "people_request (UpdateCohortModuleAccess cohortId dat) =
     request (Some ''PATCH'') (''/api/v1/cohorts/'' @ show_int cohortId @ ''/module_access'') (Some dat)"
| "people_request (UpdateCohortRecordings cohortId recordings) =
     request (Some ''PATCH'') (''/api/v1/cohorts/'' @ show_int cohortId @ ''/recordings'') (Some (jobj [(''recordings'', Some recordings)]))"
| "people_request (UpdateCohortClassResources cohortId classResources) =
     request (Some ''PATCH'') (''/api/v1/cohorts/'' @ show_int cohortId @ ''/class_resources'') (Some (jobj [(''class_resources'', Some classResources)]))"
| "people_request (UpdateCohortModuleSubmissionWindows cohortId moduleId submissionWindows) =
     request (Some ''PATCH'') (''/api/v1/cohorts/'' @ show_int cohortId @ ''/modules/'' @ show_int moduleId @ ''/submission_windows'') (Some (jobj [(''submission_windows'', Some submissionWindows)]))"
| "people_request (GetOfficeHours cohortId) = request None (''/api/v1/cohorts/'' @ show_int cohortId @ ''/office_hours'') None"
| "people_request (CreateOfficeHour cohortId dat) = request (Some ''POST'') (''/api/v1/cohorts/'' @ show_int cohortId @ ''/office_hours'') (Some dat)"
| "people_request (UpdateOfficeHour cohortId officeHourId dat) =
     request (Some ''PATCH'') (''/api/v1/cohorts/'' @ show_int cohortId @ ''/office_hours/'' @ show_int officeHourId) (Some dat)"
| "people_request (DeleteOfficeHour cohortId officeHourId) =
     request (Some ''DELETE'') (''/api/v1/cohorts/'' @ show_int cohortId @ ''/office_hours/'' @ show_int officeHourId) None"
| "people_request (CreateEnrollment cohortId userId) =
     request (Some ''POST'') (''/api/v1/cohorts/'' @ show_int cohortId @ ''/enrollments'') (Some (jobj [(''user_id'', Some (JNum userId))]))"
| "people_request (GetEnrollment i) = request None (''/api/v1/enrollments/'' @ show_int i) None"
| "people_request (GetModuleAssignments enrollmentId) =
     request None (''/api/v1/enrollments/'' @ show_int enrollmentId @ ''/module_assignments'') None"
| "people_request (CreateModuleAssignment enrollmentId dat) =
     request (Some ''POST'') (''/api/v1/enrollments/'' @ show_int enrollmentId @ ''/module_assignments'') (Some dat)"
| "people_request (UpdateModuleAssignment i dat) = request (Some ''PATCH'') (''/api/v1/module_assignments/'' @ show_int i) (Some dat)"
| "people_request (DeleteModuleAssignment i) = request (Some ''DELETE'') (''/api/v1/module_assignments/'' @ show_int i) None"

subsection \<open>Lesson assignments and content (787--885)\<close>

datatype content_call =
    GetLessonAssignments int
  | CreateLessonAssignment int json
  | UpdateLessonAssignment int json
  | DeleteLessonAssignment int
  | UpdateContentBlock int json
  | CreateLesson int json
  | UpdateLesson int json
  | UpdateLessonEditor int json
  | ArchiveLesson int
  | RestoreLesson int
  | DeleteLesson int
  | GetLearningObjectives int
  | GetRubrics int
  | CreateRubric json
  | CreateLearningObjective json
  | UpdateLearningObjective int json
  | UpdateObjectiveAlignments int json
  | CreateExercise int json
  | CreateModule int json
  | UpdateModule int json
  | CreateContentBlock int json
  | DeleteContentBlock int
  | GetContentBlocks int

fun content_request :: "content_call \<Rightarrow> api_request" where
  "content_request (GetLessonAssignments enrollmentId) =
     request None (''/api/v1/enrollments/'' @ show_int enrollmentId @ ''/lesson_assignments'') None"
| "content_request (CreateLessonAssignment enrollmentId dat) =
     request (Some ''POST'') (''/api/v1/enrollments/'' @ show_int enrollmentId @ ''/lesson_assignments'') (Some dat)"
| "content_request (UpdateLessonAssignment i dat) = request (Some ''PATCH'') (''/api/v1/lesson_assignments/'' @ show_int i) (Some dat)"
| "content_request (DeleteLessonAssignment i) = request (Some ''DELETE'') (''/api/v1/lesson_assignments/'' @ show_int i) None"
| "content_request (UpdateContentBlock i dat) = request (Some ''PATCH'') (''/api/v1/content_blocks/'' @ show_int i) (Some dat)"
| "content_request (CreateLesson moduleId dat) = request (Some ''POST'') (''/api/v1/modules/'' @ show_int moduleId @ ''/lessons'') (Some dat)"
| "content_request (UpdateLesson i dat) = request (Some ''PATCH'') (''/api/v1/lessons/'' @ show_int i) (Some dat)"
| "content_request (UpdateLessonEditor i dat) =
     request (Some ''PATCH'') (''/api/v1/lessons/'' @ show_int i @ ''/editor'') (Some (jobj [(''editor'', Some dat)]))"
| "content_request (ArchiveLesson i) = request (Some ''PATCH'') (''/api/v1/lessons/'' @ show_int i @ ''/archive'') None"
| "content_request (RestoreLesson i) = request (Some ''PATCH'') (''/api/v1/lessons/'' @ show_int i @ ''/restore'') None"
| "content_request (DeleteLesson i) = request (Some ''DELETE'') (''/api/v1/lessons/'' @ show_int i) None"
| "content_request (GetLearningObjectives curriculumId) = request None (''/api/v1/learning_objectives?curriculum_id='' @ show_int curriculumId) None"
| "content_request (GetRubrics curriculumId) = request None (''/api/v1/rubrics?curriculum_id='' @ show_int curriculumId) None"
| "content_request (CreateRubric dat) = request (Some ''POST'') ''/api/v1/rubrics'' (Some (jobj [(''rubric'', Some dat)]))"
| "content_request (CreateLearningObjective dat) =
     request (Some ''POST'') ''/api/v1/learning_objectives'' (Some (jobj [(''learning_objective'', Some (json_without ''lesson_id'' dat)), (''lesson_id'', json_get dat ''lesson_id'')]))"
| "content_request (UpdateLearningObjective i dat) =
     request (Some ''PATCH'') (''/api/v1/learning_objectives/'' @ show_int i) (Some (jobj [(''learning_objective'', Some dat)]))"
| "content_request (UpdateObjectiveAlignments lessonId alignments) =
     request (Some ''PUT'') (''/api/v1/lessons/'' @ show_int lessonId @ ''/objective_alignments'') (Some (jobj [(''alignments'', Some alignments)]))"
| "content_request (CreateExercise moduleId dat) = request (Some ''POST'') (''/api/v1/modules/'' @ show_int moduleId @ ''/exercises'') (Some dat)"
| "content_request (CreateModule curriculumId dat) =
     request (Some ''POST'') (''/api/v1/curricula/'' @ show_int curriculumId @ ''/modules'') (Some dat)"
| "content_request (UpdateModule i dat) = request (Some ''PATCH'') (''/api/v1/modules/'' @ show_int i) (Some dat)"
| "content_request (CreateContentBlock lessonId dat) =
     request (Some ''POST'') (''/api/v1/lessons/'' @ show_int lessonId @ ''/content_blocks'') (Some dat)"
| "content_request (DeleteContentBlock i) = request (Some ''DELETE'') (''/api/v1/content_blocks/'' @ show_int i) None"
| "content_request (GetContentBlocks lessonId) = request None (''/api/v1/lessons/'' @ show_int lessonId @ ''/content_blocks'') None"

subsection \<open>Videos, grading, recordings, uploads, watch progress (888--973)\<close>

datatype video_call =
    PresignGenericVideo string string
  | PresignContentBlockVideo int string string
  | GetContentBlockVideoStream int
  | UpdateContentBlockVideoProgress int json
  | GetCohortModuleSubmissions int int
  | SyncCohortModuleGithub int int
  | SyncStudentGithub int int int
  | GetCohortRecordings int
  | PresignRecordingUpload int string string
  | CreateRecording int json
  | UpdateRecording int int json
  | DeleteRecording int int
  | GetRecordingStreamUrl int int
  | ReorderRecordings int "int list"
  | AbandonUpload string
  | InitiateMultipartUpload json
  | GetMultipartUploadPartUrl json
  | CompleteMultipartUpload json
  | AbortMultipartUpload json
  | UpdateWatchProgress json
  | GetCohortWatchProgress int
  | GetCohortLessonVideoProgress int
  | GetStudentWatchProgress int "int option"
  | GetStudentLessonVideoProgress int "int option"

fun video_request :: "video_call \<Rightarrow> api_request" where
  "video_request (PresignGenericVideo filename contentType) =
     request (Some ''POST'') ''/api/v1/video_presign'' (Some (jobj [(''filename'', Some (JStr filename)), (''content_type'', Some (JStr contentType))]))"
| "video_request (PresignContentBlockVideo blockId filename contentType) =
     request (Some ''POST'') (''/api/v1/content_blocks/'' @ show_int blockId @ ''/video_presign'') (Some (jobj [(''filename'', Some (JStr filename)), (''content_type'', Some (JStr contentType))]))"
| "video_request (GetContentBlockVideoStream blockId) = request None (''/api/v1/content_blocks/'' @ show_int blockId @ ''/video_stream'') None"
| "video_request (UpdateContentBlockVideoProgress blockId dat) =
     request (Some ''PATCH'') (''/api/v1/content_blocks/'' @ show_int blockId @ ''/video_progress'') (Some dat)"
| "video_request (GetCohortModuleSubmissions cohortId moduleId) =
     request None (''/api/v1/cohorts/'' @ show_int cohortId @ ''/modules/'' @ show_int moduleId @ ''/submissions'') None"
| "video_request (SyncCohortModuleGithub cohortId moduleId) =
     request (Some ''POST'') (''/api/v1/cohorts/'' @ show_int cohortId @ ''/modules/'' @ show_int moduleId @ ''/sync_github'') None"
| "video_request (SyncStudentGithub cohortId moduleId userId) =
     request (Some ''POST'') (''/api/v1/cohorts/'' @ show_int cohortId @ ''/modules/'' @ show_int moduleId @ ''/sync_github/'' @ show_int userId) None"
| "video_request (GetCohortRecordings cohortId) = request None (''/api/v1/cohorts/'' @ show_int cohortId @ ''/recordings'') None"
| "video_request (PresignRecordingUpload cohortId filename contentType) =
     request (Some ''POST'') (''/api/v1/cohorts/'' @ show_int cohortId @ ''/recordings_presign'') (Some (jobj [(''filename'', Some (JStr filename)), (''content_type'', Some (JStr contentType))]))"
| "video_request (CreateRecording cohortId dat) = request (Some ''POST'') (''/api/v1/cohorts/'' @ show_int cohortId @ ''/recordings'') (Some dat)"
| "video_request (UpdateRecording cohortId i dat) =
     request (Some ''PATCH'') (''/api/v1/cohorts/'' @ show_int cohortId @ ''/recordings/'' @ show_int i) (Some dat)"
| "video_request (DeleteRecording cohortId i) =
     request (Some ''DELETE'') (''/api/v1/cohorts/'' @ show_int cohortId @ ''/recordings/'' @ show_int i) None"
| "video_request (GetRecordingStreamUrl cohortId i) =
     request None (''/api/v1/cohorts/'' @ show_int cohortId @ ''/recordings/'' @ show_int i @ ''/stream_url'') None"
| "video_request (ReorderRecordings cohortId recordingIds) =
     request (Some ''PATCH'') (''/api/v1/cohorts/'' @ show_int cohortId @ ''/recordings_reorder'') (Some (jobj [(''recording_ids'', Some (jnums recordingIds))]))"
| "video_request (AbandonUpload s3Key) = request (Some ''DELETE'') ''/api/v1/uploads/abandon'' (Some (jobj [(''s3_key'', Some (JStr s3Key))]))"
| "video_request (InitiateMultipartUpload dat) = request (Some ''POST'') ''/api/v1/uploads/multipart/initiate'' (Some dat)"
| "video_request (GetMultipartUploadPartUrl dat) = request (Some ''POST'') ''/api/v1/uploads/multipart/part_url'' (Some dat)"
| "video_request (CompleteMultipartUpload dat) = request (Some ''POST'') ''/api/v1/uploads/multipart/complete'' (Some dat)"
| "video_request (AbortMultipartUpload dat) = request (Some ''DELETE'') ''/api/v1/uploads/multipart/abort'' (Some dat)"
| "video_request (UpdateWatchProgress dat) = request (Some ''PATCH'') ''/api/v1/watch_progress'' (Some dat)"
| "video_request (GetCohortWatchProgress cohortId) = request None (''/api/v1/cohorts/'' @ show_int cohortId @ ''/watch_progress'') None"
| "video_request (GetCohortLessonVideoProgress cohortId) = request None (''/api/v1/cohorts/'' @ show_int cohortId @ ''/lesson_video_progress'') None"
| "video_request (GetStudentWatchProgress userId cohortId) =
     request None (''/api/v1/watch_progress/student/'' @ show_int userId @ queryString [(''cohort_id'', q_opt cohortId)]) None"
| "video_request (GetStudentLessonVideoProgress userId cohortId) =
     request None (''/api/v1/watch_progress/student/'' @ show_int userId @ ''/lesson_videos'' @ queryString [(''cohort_id'', q_opt cohortId)]) None"

subsection \<open>All operations\<close>

datatype api_call =
    Home home_call
  | Messaging messaging_call
  | Community community_call
  | Learning learning_call
  | People people_call
  | Content content_call
  | Video video_call

fun api_request_of :: "api_call \<Rightarrow> api_request" where
  "api_request_of (Home c) = home_request c"
| "api_request_of (Messaging c) = messaging_request c"
| "api_request_of (Community c) = community_request c"
| "api_request_of (Learning c) = learning_request c"
| "api_request_of (People c) = people_request c"
| "api_request_of (Content c) = content_request c"
| "api_request_of (Video c) = video_request c"

section \<open>Addresses\<close>

text \<open>
  An address is well formed when its path is printable ASCII without \<open>#\<close> and \<open>?\<close> below \<^verbatim>\<open>/api/v1/\<close>, and what
  follows the first \<open>?\<close> is a query of encoded names and values.
\<close>

definition path_char :: "char \<Rightarrow> bool" where
  "path_char c \<longleftrightarrow> (let n = (of_char c :: nat) in 33 \<le> n \<and> n \<le> 126 \<and> n \<noteq> 35)"

fun url_tail :: "string \<Rightarrow> bool" where
  "url_tail [] = True"
| "url_tail (c # s) = (if c = CHR ''?'' then query_chars s else path_char c \<and> url_tail s)"

definition url_ok :: "string \<Rightarrow> bool" where
  "url_ok p \<longleftrightarrow> startsWith p ''/api/v1/'' \<and> url_tail p"

lemma data_char_path: "data_char c \<Longrightarrow> c \<noteq> CHR ''?'' \<and> path_char c"
  by (auto simp: data_char_def ascii_alnum_def path_char_def)

lemma url_tail_data [simp]: "list_all data_char d \<Longrightarrow> url_tail (d @ s) = url_tail s"
  using data_char_path by (induction d) auto

lemma url_tail_data_end [simp]: "list_all data_char d \<Longrightarrow> url_tail d"
  using url_tail_data [of d "[]"] by simp

lemma url_tail_query [simp]: "query_chars q \<Longrightarrow> url_tail (with_question_mark q)"
  by (simp add: with_question_mark_def)

lemma query_tails [simp]:
  "url_tail (queryString params)" "url_tail (announcementQuery params)" "url_tail (optional_query kvs)"
  by (simp_all add: queryString_def announcementQuery_def optional_query_def split: option.split)

lemma literal_data:
  "data_char (CHR ''_'')" "data_char (CHR ''a'')" "data_char (CHR ''c'')" "data_char (CHR ''d'')" "data_char (CHR ''e'')"
  "data_char (CHR ''i'')" "data_char (CHR ''k'')" "data_char (CHR ''l'')" "data_char (CHR ''m'')" "data_char (CHR ''o'')"
  "data_char (CHR ''p'')" "data_char (CHR ''q'')" "data_char (CHR ''r'')" "data_char (CHR ''s'')" "data_char (CHR ''t'')"
  "data_char (CHR ''u'')" "data_char (CHR ''w'')"
  by (simp_all add: data_char_def ascii_alnum_def)

lemmas url_simps = url_ok_def request_def startsWith_def path_char_def query_chars_data

lemma home_url: "(\<And>t. c \<noteq> MarkAllNotificationsRead t) \<Longrightarrow> url_ok (rq_endpoint (home_request c))"
  by (cases c) (simp_all add: url_simps literal_data split: option.split)

lemma messaging_url: "url_ok (rq_endpoint (messaging_request c))"
  by (cases c) (simp_all add: url_simps literal_data split: option.split)

lemma community_url: "url_ok (rq_endpoint (community_request c))"
  by (cases c) (simp_all add: url_simps literal_data split: option.split)

lemma learning_url: "url_ok (rq_endpoint (learning_request c))"
  by (cases c) (simp_all add: url_simps literal_data split: option.split)

lemma people_url: "url_ok (rq_endpoint (people_request c))"
  by (cases c) (simp_all add: url_simps literal_data split: option.split)

lemma content_url: "url_ok (rq_endpoint (content_request c))"
  by (cases c) (simp_all add: url_simps literal_data split: option.split)

lemma video_url: "url_ok (rq_endpoint (video_request c))"
  by (cases c) (simp_all add: url_simps literal_data split: option.split)

section \<open>Methods and bodies\<close>

definition well_formed :: "api_request \<Rightarrow> bool" where
  "well_formed r \<longleftrightarrow>
     rq_method r \<in> {None, Some ''POST'', Some ''PATCH'', Some ''PUT'', Some ''DELETE''} \<and>
     (rq_method r = None \<longrightarrow> rq_body r = None) \<and> rq_headers r = []"

lemma home_wf: "well_formed (home_request c)"
  by (cases c) (simp_all add: well_formed_def request_def)

lemma messaging_wf: "well_formed (messaging_request c)"
  by (cases c) (simp_all add: well_formed_def request_def)

lemma community_wf: "well_formed (community_request c)"
  by (cases c) (simp_all add: well_formed_def request_def)

lemma learning_wf: "well_formed (learning_request c)"
  by (cases c) (simp_all add: well_formed_def request_def)

lemma people_wf: "well_formed (people_request c)"
  by (cases c) (simp_all add: well_formed_def request_def)

lemma content_wf: "well_formed (content_request c)"
  by (cases c) (simp_all add: well_formed_def request_def)

lemma video_wf: "well_formed (video_request c)"
  by (cases c) (simp_all add: well_formed_def request_def)

section \<open>Properties\<close>





text \<open>The exception: the notification type goes into the address as it is.\<close>

lemma notification_type_not_encoded:
  "\<not> url_ok (rq_endpoint (home_request (MarkAllNotificationsRead (Some ''a#b''))))"
  by (simp add: url_simps query_chars_def data_char_def ascii_alnum_def)

end
