(* ===== verification/Mobile_Api.thy ===== *)
theory Mobile_Api
  imports Api_Endpoints
begin

text \<open>
  The client of the mobile app, \<^verbatim>\<open>mobile/src/lib/api.ts\<close>: \<open>CsgApi.request\<close> and \<open>transcribeVoice\<close> with their single retry,
  the table of operations and the address of the web socket. An attempt meets the same \<open>exchange\<close> as the
  web client's; whether the caller has aborted is part of the environment.

  Shown here: at most one repetition, with a fresh token, and of operations that change data only after a
  401; every failure becomes an \<open>ApiError\<close>, except an abort by the caller and a successful answer whose body is
  not JSON; the addresses are safe for all arguments.
\<close>

section \<open>Requests\<close>

definition MOBILE_RETRYABLE :: "nat list" where
  "MOBILE_RETRYABLE = [429, 500, 502, 503, 504]"

datatype mobile_result =
    Value "json option"
  | Api_error string "nat option" "json option"
  | Raised thrown

text \<open>JavaScript truth of a JSON value; a literal is zero when it has no digit but 0 before its exponent.\<close>

fun json_truthy :: "json \<Rightarrow> bool" where
  "json_truthy JNull = False"
| "json_truthy (JBool b) = b"
| "json_truthy (JNum i) = (i \<noteq> 0)"
| "json_truthy (JReal s) = list_ex (\<lambda>c. c \<in> set ''123456789'') (takeWhile (\<lambda>c. c \<noteq> CHR ''e'' \<and> c \<noteq> CHR ''E'') s)"
| "json_truthy (JStr s) = (s \<noteq> [])"
| "json_truthy (JArr xs) = True"
| "json_truthy (JObj kvs) = True"

definition error_payload :: "body_result \<Rightarrow> json" where
  "error_payload body =
     (case body of Body_throws _ \<Rightarrow> JObj [] | Text t \<Rightarrow> (case JSON_parse t of None \<Rightarrow> JObj [] | Some j \<Rightarrow> j))"

text \<open>
  \<^verbatim>\<open>payload.error || payload.errors?.join(', ') || `Request failed (${status})`\<close>; \<open>None\<close> when it throws a
  \<open>TypeError\<close> (the payload is \<open>null\<close>, or \<open>errors\<close> has no \<open>join\<close>).
\<close>

definition payload_message :: "json \<Rightarrow> nat \<Rightarrow> string option" where
  "payload_message payload status =
     (let fallback = ''Request failed ('' @ show_nat status @ '')'';
          own = (case json_get payload ''error'' of Some e \<Rightarrow> if json_truthy e then Some (join_element e) else None | None \<Rightarrow> None)
      in if payload = JNull then None
         else case own of
                Some m \<Rightarrow> Some m
              | None \<Rightarrow>
                  (case json_get payload ''errors'' of
                     None \<Rightarrow> Some fallback
                   | Some JNull \<Rightarrow> Some fallback
                   | Some (JArr xs) \<Rightarrow>
                       (let m = join '', '' (map join_element xs) in Some (if m = [] then fallback else m))
                   | Some _ \<Rightarrow> None))"

record call_texts =
  tx_timeout :: string
  tx_unreachable :: string

definition request_texts :: call_texts where
  "request_texts =
     \<lparr>tx_timeout = ''The request timed out. Check your connection and try again.'',
      tx_unreachable = ''Could not reach Code School. Check your connection and try again.''\<rparr>"

definition voice_texts :: call_texts where
  "voice_texts =
     \<lparr>tx_timeout = ''Transcription timed out. Your recording is still available to retry.'',
      tx_unreachable = ''Could not reach Code School. Your recording is still available to retry.''\<rparr>"

text \<open>The \<open>catch\<close> block, for an error that is not an \<open>ApiError\<close>.\<close>

definition mobile_caught :: "call_texts \<Rightarrow> bool \<Rightarrow> thrown \<Rightarrow> mobile_result" where
  "mobile_caught tx callerAborted err =
     (if err = Abort_error \<and> callerAborted then Raised err
      else if err = Abort_error then Api_error (tx_timeout tx) None None
      else Api_error (tx_unreachable tx) None None)"

definition mobile_refused :: "call_texts \<Rightarrow> bool \<Rightarrow> nat \<Rightarrow> body_result \<Rightarrow> mobile_result" where
  "mobile_refused tx callerAborted status body =
     (case payload_message (error_payload body) status of
        None \<Rightarrow> mobile_caught tx callerAborted Other_thrown
      | Some m \<Rightarrow> Api_error m (Some status) (json_get (error_payload body) ''code''))"

text \<open>\<^verbatim>\<open>return response.json()\<close> is not awaited in the \<open>try\<close>, so its failure does not reach the \<open>catch\<close>.\<close>

definition json_result :: "(string \<Rightarrow> string) \<Rightarrow> body_result \<Rightarrow> mobile_result" where
  "json_result syntaxMessage body =
     (case body of
        Body_throws e \<Rightarrow> Raised e
      | Text t \<Rightarrow> (case JSON_parse t of None \<Rightarrow> Raised (Error_thrown (syntaxMessage t)) | Some j \<Rightarrow> Value (Some j)))"

text \<open>
  One call from attempt \<open>attempt\<close> on: the statuses of a first attempt that are tried again are given by
  \<open>again\<close>. The log holds, per attempt that reached the network, whether the token cache was skipped.
\<close>

function mobile_attempts ::
  "(string \<Rightarrow> string) \<Rightarrow> call_texts \<Rightarrow> (nat \<Rightarrow> bool) \<Rightarrow> bool \<Rightarrow> (nat \<Rightarrow> exchange) \<Rightarrow> (nat \<Rightarrow> bool) \<Rightarrow> nat \<Rightarrow>
   bool list \<times> mobile_result" where
  "mobile_attempts syn tx again empty204 env aborted attempt =
     (case ex_token (env attempt) of
        Token_throws e \<Rightarrow> ([], mobile_caught tx (aborted attempt) e)
      | _ \<Rightarrow>
          (case ex_outcome (env attempt) of
             Fetch_throws e \<Rightarrow> ([0 < attempt], mobile_caught tx (aborted attempt) e)
           | Response status body \<Rightarrow>
               if \<not> ok_status status then
                 (if attempt = 0 \<and> again status then
                    (let (log, res) = mobile_attempts syn tx again empty204 env aborted (attempt + 1)
                     in ((0 < attempt) # log, res))
                  else ([0 < attempt], mobile_refused tx (aborted attempt) status body))
               else if empty204 \<and> status = 204 then ([0 < attempt], Value None)
               else ([0 < attempt], json_result syn body)))"
  by pat_completeness auto
termination by (relation "measure (\<lambda>(_, _, _, _, _, _, attempt). 1 - attempt)") auto

declare mobile_attempts.simps [simp del]

definition mobile_get :: "api_request \<Rightarrow> bool" where
  "mobile_get r \<longleftrightarrow> (case rq_method r of None \<Rightarrow> True | Some m \<Rightarrow> m = [] \<or> m = ''GET'')"

definition CsgApi_request ::
  "(string \<Rightarrow> string) \<Rightarrow> api_request \<Rightarrow> (nat \<Rightarrow> exchange) \<Rightarrow> (nat \<Rightarrow> bool) \<Rightarrow> bool list \<times> mobile_result" where
  "CsgApi_request syn r env aborted =
     mobile_attempts syn request_texts (\<lambda>status. status = 401 \<or> (mobile_get r \<and> status \<in> set MOBILE_RETRYABLE)) True env aborted 0"

definition transcribeVoice ::
  "(string \<Rightarrow> string) \<Rightarrow> (nat \<Rightarrow> exchange) \<Rightarrow> (nat \<Rightarrow> bool) \<Rightarrow> bool list \<times> mobile_result" where
  "transcribeVoice syn env aborted = mobile_attempts syn voice_texts (\<lambda>status. status = 401) False env aborted 0"

section \<open>Operations\<close>

definition mobile_query :: "(string \<times> qval) list \<Rightarrow> string" where
  "mobile_query values =
     with_question_mark (join ''&'' (concat (map (\<lambda>(k, v). case q_string v of
         None \<Rightarrow> [] | Some s \<Rightarrow> if s = [] then [] else [encodeURIComponent k @ ''='' @ encodeURIComponent s]) values)))"

datatype conversation_kind = Channel_kind | Dm_kind

definition conversation_path :: "conversation_kind \<Rightarrow> int \<Rightarrow> string" where
  "conversation_path kind i =
     (if kind = Channel_kind then ''/api/v1/channels/'' @ show_int i else ''/api/v1/direct_conversations/'' @ show_int i)"

definition jnull :: "string option \<Rightarrow> json" where
  "jnull s = (case s of None \<Rightarrow> JNull | Some t \<Rightarrow> JStr t)"

text \<open>\<^verbatim>\<open>{ k: v, ...input }\<close>\<close>

fun json_merge :: "(string \<times> json) list \<Rightarrow> json \<Rightarrow> json" where
  "json_merge kvs (JObj rest) = JObj (foldl (\<lambda>m (k, v). jmap_set k v m) kvs rest)"
| "json_merge kvs _ = JObj kvs"

subsection \<open>Sessions, learning, staff, recordings (151--204)\<close>

datatype mobile_learning_call =
    M_session
  | M_communityPolicy
  | M_acceptCommunityPolicy string
  | M_reportContent json
  | M_blockUser int
  | M_blockedUsers
  | M_unblockUser int
  | M_requestDataDeletion
  | M_dashboard
  | M_weeklyPlan
  | M_profile
  | M_updateProfile json
  | M_webHandoff string
  | M_resources
  | M_lesson int
  | M_helpRequests "(string \<times> qval) list"
  | M_helpRequest int
  | M_createHelpRequest json
  | M_updateHelpRequest int json
  | M_supportQueue
  | M_intervention int
  | M_updateIntervention int json
  | M_progress int
  | M_updateProgress int string
  | M_createSubmission json
  | M_updateSubmission int json
  | M_submissions "(string \<times> qval) list"
  | M_submission int
  | M_gradeSubmission int string string "json option"
  | M_feedbackSnippets
  | M_createFeedbackSnippet string
  | M_useFeedbackSnippet int
  | M_attemptKnowledgeCheck int int
  | M_studentProgress int "int option"
  | M_restartEnrollment int string "string option"
  | M_studentRecordingProgress int "int option"
  | M_studentLessonVideoProgress int "int option"
  | M_contentVideoStream int
  | M_updateContentVideoProgress int json
  | M_recordings
  | M_cohorts
  | M_presignRecordingUpload int string string
  | M_initiateMultipartUpload int string string int
  | M_multipartPartUrl string string int
  | M_completeMultipartUpload string string json
  | M_abortMultipartUpload string string
  | M_abandonUpload string
  | M_createRecording int json
  | M_recordingStream int int
  | M_updateWatchProgress int json

fun mobile_learning_request :: "mobile_learning_call \<Rightarrow> api_request" where
  "mobile_learning_request M_session = request (Some ''POST'') ''/api/v1/sessions'' None"
| "mobile_learning_request M_communityPolicy = request None ''/api/v1/community_policy'' None"
| "mobile_learning_request (M_acceptCommunityPolicy vers) =
     request (Some ''POST'') ''/api/v1/community_policy/accept'' (Some (jobj [(''version'', Some (JStr vers)), (''accepted'', Some (JBool True))]))"
| "mobile_learning_request (M_reportContent input) =
     request (Some ''POST'') ''/api/v1/content_reports'' (Some (jobj [(''content_report'', Some input)]))"
| "mobile_learning_request (M_blockUser blockedUserId) =
     request (Some ''POST'') ''/api/v1/user_blocks'' (Some (jobj [(''blocked_user_id'', Some (JNum blockedUserId))]))"
| "mobile_learning_request M_blockedUsers = request None ''/api/v1/user_blocks'' None"
| "mobile_learning_request (M_unblockUser blockedUserId) = request (Some ''DELETE'') (''/api/v1/user_blocks/'' @ show_int blockedUserId) None"
| "mobile_learning_request M_requestDataDeletion = request (Some ''POST'') ''/api/v1/data_deletion_requests'' None"
| "mobile_learning_request M_dashboard = request None ''/api/v1/dashboard'' None"
| "mobile_learning_request M_weeklyPlan = request None ''/api/v1/weekly_plan'' None"
| "mobile_learning_request M_profile = request None ''/api/v1/profile'' None"
| "mobile_learning_request (M_updateProfile dat) = request (Some ''PATCH'') ''/api/v1/profile'' (Some dat)"
| "mobile_learning_request (M_webHandoff destination) =
     request (Some ''POST'') ''/api/v1/web_handoffs'' (Some (jobj [(''destination'', Some (JStr destination))]))"
| "mobile_learning_request M_resources = request None ''/api/v1/resources'' None"
| "mobile_learning_request (M_lesson i) = request None (''/api/v1/lessons/'' @ show_int i) None"
| "mobile_learning_request (M_helpRequests params) = request None (''/api/v1/help_requests'' @ mobile_query params) None"
| "mobile_learning_request (M_helpRequest i) = request None (''/api/v1/help_requests/'' @ show_int i) None"
| "mobile_learning_request (M_createHelpRequest input) =
     request (Some ''POST'') ''/api/v1/help_requests'' (Some (jobj [(''help_request'', Some input)]))"
| "mobile_learning_request (M_updateHelpRequest i input) =
     request (Some ''PATCH'') (''/api/v1/help_requests/'' @ show_int i) (Some (jobj [(''help_request'', Some input)]))"
| "mobile_learning_request M_supportQueue = request None ''/api/v1/support_queue'' None"
| "mobile_learning_request (M_intervention i) = request None (''/api/v1/interventions/'' @ show_int i) None"
| "mobile_learning_request (M_updateIntervention i input) =
     request (Some ''PATCH'') (''/api/v1/interventions/'' @ show_int i) (Some (jobj [(''intervention'', Some input)]))"
| "mobile_learning_request (M_progress lessonId) = request None (''/api/v1/progress?lesson_id='' @ show_int lessonId) None"
| "mobile_learning_request (M_updateProgress contentBlockId status) =
     request (Some ''PATCH'') ''/api/v1/progress''
       (Some (jobj [(''content_block_id'', Some (JNum contentBlockId)), (''status'', Some (JStr status))]))"
| "mobile_learning_request (M_createSubmission input) = request (Some ''POST'') ''/api/v1/submissions'' (Some input)"
| "mobile_learning_request (M_updateSubmission i input) = request (Some ''PATCH'') (''/api/v1/submissions/'' @ show_int i) (Some input)"
| "mobile_learning_request (M_submissions params) = request None (''/api/v1/submissions'' @ mobile_query params) None"
| "mobile_learning_request (M_submission i) = request None (''/api/v1/submissions/'' @ show_int i) None"
| "mobile_learning_request (M_gradeSubmission i grade feedback criterionResults) =
     request (Some ''PATCH'') (''/api/v1/submissions/'' @ show_int i @ ''/grade'')
       (Some (jobj [(''grade'', Some (JStr grade)), (''feedback'', Some (JStr feedback)), (''criterion_results'', criterionResults)]))"
| "mobile_learning_request M_feedbackSnippets = request None ''/api/v1/feedback_snippets'' None"
| "mobile_learning_request (M_createFeedbackSnippet bd) =
     request (Some ''POST'') ''/api/v1/feedback_snippets'' (Some (jobj [(''feedback_snippet'', Some (jobj [(''body'', Some (JStr bd))]))]))"
| "mobile_learning_request (M_useFeedbackSnippet i) = request (Some ''POST'') (''/api/v1/feedback_snippets/'' @ show_int i @ ''/use'') None"
| "mobile_learning_request (M_attemptKnowledgeCheck i selectedOption) =
     request (Some ''POST'') (''/api/v1/knowledge_checks/'' @ show_int i @ ''/attempts'')
       (Some (jobj [(''selected_option'', Some (JNum selectedOption))]))"
| "mobile_learning_request (M_studentProgress studentId cohortId) =
     request None (''/api/v1/progress/student/'' @ show_int studentId @ mobile_query [(''cohort_id'', q_opt cohortId)]) None"
| "mobile_learning_request (M_restartEnrollment enrollmentId confirmation reason) =
     request (Some ''POST'') (''/api/v1/enrollments/'' @ show_int enrollmentId @ ''/restart'')
       (Some (jobj [(''confirmation'', Some (JStr confirmation)), (''reason'', map_option JStr reason)]))"
| "mobile_learning_request (M_studentRecordingProgress studentId cohortId) =
     request None (''/api/v1/watch_progress/student/'' @ show_int studentId @ mobile_query [(''cohort_id'', q_opt cohortId)]) None"
| "mobile_learning_request (M_studentLessonVideoProgress studentId cohortId) =
     request None (''/api/v1/watch_progress/student/'' @ show_int studentId @ ''/lesson_videos'' @ mobile_query [(''cohort_id'', q_opt cohortId)]) None"
| "mobile_learning_request (M_contentVideoStream i) = request None (''/api/v1/content_blocks/'' @ show_int i @ ''/video_stream'') None"
| "mobile_learning_request (M_updateContentVideoProgress i input) =
     request (Some ''PATCH'') (''/api/v1/content_blocks/'' @ show_int i @ ''/video_progress'') (Some input)"
| "mobile_learning_request M_recordings = request None ''/api/v1/recordings'' None"
| "mobile_learning_request M_cohorts = request None ''/api/v1/cohorts'' None"
| "mobile_learning_request (M_presignRecordingUpload cohortId filename contentType) =
     request (Some ''POST'') (''/api/v1/cohorts/'' @ show_int cohortId @ ''/recordings_presign'')
       (Some (jobj [(''filename'', Some (JStr filename)), (''content_type'', Some (JStr contentType))]))"
| "mobile_learning_request (M_initiateMultipartUpload cohortId filename contentType fileSize) =
     request (Some ''POST'') ''/api/v1/uploads/multipart/initiate''
       (Some (jobj [(''cohort_id'', Some (JNum cohortId)), (''filename'', Some (JStr filename)), (''content_type'', Some (JStr contentType)), (''file_size'', Some (JNum fileSize))]))"
| "mobile_learning_request (M_multipartPartUrl s3Key uploadId partNumber) =
     request (Some ''POST'') ''/api/v1/uploads/multipart/part_url''
       (Some (jobj [(''s3_key'', Some (JStr s3Key)), (''upload_id'', Some (JStr uploadId)), (''part_number'', Some (JNum partNumber))]))"
| "mobile_learning_request (M_completeMultipartUpload s3Key uploadId parts) =
     request (Some ''POST'') ''/api/v1/uploads/multipart/complete''
       (Some (jobj [(''s3_key'', Some (JStr s3Key)), (''upload_id'', Some (JStr uploadId)), (''parts'', Some parts)]))"
| "mobile_learning_request (M_abortMultipartUpload s3Key uploadId) =
     request (Some ''DELETE'') ''/api/v1/uploads/multipart/abort''
       (Some (jobj [(''s3_key'', Some (JStr s3Key)), (''upload_id'', Some (JStr uploadId))]))"
| "mobile_learning_request (M_abandonUpload s3Key) = request (Some ''DELETE'') (''/api/v1/uploads/abandon?s3_key='' @ encodeURIComponent s3Key) None"
| "mobile_learning_request (M_createRecording cohortId input) =
     request (Some ''POST'') (''/api/v1/cohorts/'' @ show_int cohortId @ ''/recordings'') (Some input)"
| "mobile_learning_request (M_recordingStream cohortId recordingId) =
     request None (''/api/v1/cohorts/'' @ show_int cohortId @ ''/recordings/'' @ show_int recordingId @ ''/stream_url'') None"
| "mobile_learning_request (M_updateWatchProgress recordingId input) =
     request (Some ''PATCH'') ''/api/v1/watch_progress'' (Some (json_merge [(''recording_id'', JNum recordingId)] input))"

subsection \<open>Messages, announcements, notifications, devices (205--245)\<close>

datatype mobile_messaging_call =
    M_workspaces
  | M_workspace int
  | M_createWorkspace json
  | M_updateWorkspace int json
  | M_addWorkspaceMembers int "int list"
  | M_removeWorkspaceMember int int
  | M_users
  | M_channels
  | M_createChannel json
  | M_updateChannel int json
  | M_archiveChannel int
  | M_directConversations
  | M_announcements "(string \<times> qval) list"
  | M_announcement int
  | M_createAnnouncement json
  | M_updateAnnouncement int json
  | M_archiveAnnouncement int
  | M_markAnnouncementsRead
  | M_notifications "(string \<times> qval) list"
  | M_markNotificationRead int
  | M_markAllNotificationsRead "string option"
  | M_pushConfig
  | M_updateGlobalNotifications bool
  | M_channel int "(string \<times> qval) list"
  | M_directConversation int "(string \<times> qval) list"
  | M_markRead conversation_kind int
  | M_sendMessage conversation_kind int "string + json"
  | M_updateMessage int string "int list"
  | M_messageThread int
  | M_deleteMessage int
  | M_pinMessage int bool
  | M_react int string bool
  | M_updatePreference conversation_kind int bool
  | M_presignAttachment conversation_kind int string string
  | M_availableUsers int
  | M_createDm int "int list"
  | M_createCohortDm int "int list"
  | M_cableToken
  | M_registerDevice string string "string option" "string option"
  | M_unregisterDevice string
  | M_search string

fun mobile_messaging_request :: "mobile_messaging_call \<Rightarrow> api_request" where
  "mobile_messaging_request M_workspaces = request None ''/api/v1/workspaces'' None"
| "mobile_messaging_request (M_workspace i) = request None (''/api/v1/workspaces/'' @ show_int i) None"
| "mobile_messaging_request (M_createWorkspace dat) = request (Some ''POST'') ''/api/v1/workspaces'' (Some dat)"
| "mobile_messaging_request (M_updateWorkspace i dat) = request (Some ''PATCH'') (''/api/v1/workspaces/'' @ show_int i) (Some dat)"
| "mobile_messaging_request (M_addWorkspaceMembers i userIds) =
     request (Some ''POST'') (''/api/v1/workspaces/'' @ show_int i @ ''/memberships'') (Some (jobj [(''user_ids'', Some (jnums userIds))]))"
| "mobile_messaging_request (M_removeWorkspaceMember i userId) =
     request (Some ''DELETE'') (''/api/v1/workspaces/'' @ show_int i @ ''/memberships/'' @ show_int userId) None"
| "mobile_messaging_request M_users = request None ''/api/v1/users'' None"
| "mobile_messaging_request M_channels = request None ''/api/v1/channels'' None"
| "mobile_messaging_request (M_createChannel dat) = request (Some ''POST'') ''/api/v1/channels'' (Some dat)"
| "mobile_messaging_request (M_updateChannel i dat) = request (Some ''PATCH'') (''/api/v1/channels/'' @ show_int i) (Some dat)"
| "mobile_messaging_request (M_archiveChannel i) = request (Some ''DELETE'') (''/api/v1/channels/'' @ show_int i) None"
| "mobile_messaging_request M_directConversations = request None ''/api/v1/direct_conversations'' None"
| "mobile_messaging_request (M_announcements params) = request None (''/api/v1/announcements'' @ mobile_query params) None"
| "mobile_messaging_request (M_announcement i) = request None (''/api/v1/announcements/'' @ show_int i) None"
| "mobile_messaging_request (M_createAnnouncement dat) = request (Some ''POST'') ''/api/v1/announcements'' (Some dat)"
| "mobile_messaging_request (M_updateAnnouncement i dat) = request (Some ''PATCH'') (''/api/v1/announcements/'' @ show_int i) (Some dat)"
| "mobile_messaging_request (M_archiveAnnouncement i) = request (Some ''DELETE'') (''/api/v1/announcements/'' @ show_int i) None"
| "mobile_messaging_request M_markAnnouncementsRead =
     request (Some ''PATCH'') ''/api/v1/notifications/mark_all_read?notification_type=announcement'' None"
| "mobile_messaging_request (M_notifications params) = request None (''/api/v1/notifications'' @ mobile_query params) None"
| "mobile_messaging_request (M_markNotificationRead i) = request (Some ''PATCH'') (''/api/v1/notifications/'' @ show_int i @ ''/read'') None"
| "mobile_messaging_request (M_markAllNotificationsRead notificationType) =
     request (Some ''PATCH'')
       (''/api/v1/notifications/mark_all_read'' @ mobile_query [(''notification_type'', case notificationType of None \<Rightarrow> Q_none | Some t \<Rightarrow> Q_str t)]) None"
| "mobile_messaging_request M_pushConfig = request None ''/api/v1/push_subscriptions/config'' None"
| "mobile_messaging_request (M_updateGlobalNotifications enabled) =
     request (Some ''PATCH'') ''/api/v1/push_subscriptions/preferences'' (Some (jobj [(''notifications_enabled'', Some (JBool enabled))]))"
| "mobile_messaging_request (M_channel i params) = request None (''/api/v1/channels/'' @ show_int i @ mobile_query params) None"
| "mobile_messaging_request (M_directConversation i params) = request None (''/api/v1/direct_conversations/'' @ show_int i @ mobile_query params) None"
| "mobile_messaging_request (M_markRead kind i) = request (Some ''PATCH'') (conversation_path kind i @ ''/read'') None"
| "mobile_messaging_request (M_sendMessage kind i input) =
     request (Some ''POST'') (conversation_path kind i @ ''/messages'')
       (Some (case input of Inl t \<Rightarrow> jobj [(''body'', Some (JStr t)), (''send_push'', Some (JBool True))] | Inr j \<Rightarrow> j))"
| "mobile_messaging_request (M_updateMessage i bd mentionUserIds) =
     request (Some ''PATCH'') (''/api/v1/messages/'' @ show_int i)
       (Some (jobj [(''body'', Some (JStr bd)), (''mention_user_ids'', Some (jnums mentionUserIds))]))"
| "mobile_messaging_request (M_messageThread i) = request None (''/api/v1/messages/'' @ show_int i @ ''/thread'') None"
| "mobile_messaging_request (M_deleteMessage i) = request (Some ''DELETE'') (''/api/v1/messages/'' @ show_int i) None"
| "mobile_messaging_request (M_pinMessage i remove) =
     request (Some (if remove then ''DELETE'' else ''PATCH'')) (''/api/v1/messages/'' @ show_int i @ ''/pin'') None"
| "mobile_messaging_request (M_react i emoji remove) =
     request (Some (if remove then ''DELETE'' else ''POST'')) (''/api/v1/messages/'' @ show_int i @ ''/reactions'')
       (Some (jobj [(''emoji'', Some (JStr emoji))]))"
| "mobile_messaging_request (M_updatePreference kind i muted) =
     request (Some ''PATCH'') ''/api/v1/message_preferences''
       (Some (jobj [(''target_type'', Some (JStr (if kind = Channel_kind then ''Channel'' else ''DirectConversation''))),
                    (''target_id'', Some (JNum i)), (''muted'', Some (JBool muted))]))"
| "mobile_messaging_request (M_presignAttachment kind i filename contentType) =
     request (Some ''POST'') ''/api/v1/message_attachments/presign''
       (Some (jobj [(if kind = Channel_kind then ''channel_id'' else ''direct_conversation_id'', Some (JNum i)),
                    (''filename'', Some (JStr filename)), (''content_type'', Some (JStr contentType))]))"
| "mobile_messaging_request (M_availableUsers workspaceId) =
     request None (''/api/v1/direct_conversations/available_users?workspace_id='' @ show_int workspaceId) None"
| "mobile_messaging_request (M_createDm workspaceId userIds) =
     request (Some ''POST'') ''/api/v1/direct_conversations''
       (Some (jobj [(''workspace_id'', Some (JNum workspaceId)), (''user_ids'', Some (jnums userIds))]))"
| "mobile_messaging_request (M_createCohortDm cohortId userIds) =
     request (Some ''POST'') ''/api/v1/direct_conversations''
       (Some (jobj [(''cohort_id'', Some (JNum cohortId)), (''user_ids'', Some (jnums userIds))]))"
| "mobile_messaging_request M_cableToken = request (Some ''POST'') ''/api/v1/cable_token'' None"
| "mobile_messaging_request (M_registerDevice token platform deviceId appVersion) =
     request (Some ''POST'') ''/api/v1/mobile_push_tokens''
       (Some (jobj [(''token'', Some (JStr token)), (''platform'', Some (JStr platform)), (''device_id'', Some (jnull deviceId)), (''app_version'', Some (jnull appVersion))]))"
| "mobile_messaging_request (M_unregisterDevice token) =
     request (Some ''DELETE'') (''/api/v1/mobile_push_tokens?token='' @ encodeURIComponent token) None"
| "mobile_messaging_request (M_search query) = request None (''/api/v1/messages/search?q='' @ encodeURIComponent query @ ''&limit=30'') None"

text \<open>The address of the web socket: \<open>http\<close> becomes \<open>ws\<close>, \<open>https\<close> becomes \<open>wss\<close>.\<close>

definition websocketUrl :: "string \<Rightarrow> string \<Rightarrow> string" where
  "websocketUrl apiUrl token =
     (let b1 = (if startsWith apiUrl ''http:'' then ''ws:'' @ drop 5 apiUrl else apiUrl);
          b2 = (if startsWith b1 ''https:'' then ''wss:'' @ drop 6 b1 else b1)
      in b2 @ ''/cable?token='' @ encodeURIComponent token)"

section \<open>Attempts\<close>

lemma mobile_attempts_log:
  assumes "mobile_attempts syn tx again e204 env aborted 0 = (log, res)"
  shows "log \<in> {[], [False], [False, True]} \<and>
    (log = [False, True] \<longrightarrow> (\<exists>status body. ex_outcome (env 0) = Response status body \<and> again status))"
proof -
  obtain log1 res1 where one: "mobile_attempts syn tx again e204 env aborted 1 = (log1, res1)" by (metis surj_pair)
  then have "log1 \<in> {[], [True]}"
    by (subst (asm) mobile_attempts.simps) (auto split: token_result.splits fetch_outcome.splits if_splits)
  then show ?thesis
    using assms one
    by (subst (asm) mobile_attempts.simps) (auto split: token_result.splits fetch_outcome.splits if_splits)
qed

text \<open>When a failure is not an \<open>ApiError\<close>.\<close>

definition raised_ok :: "(nat \<Rightarrow> exchange) \<Rightarrow> (nat \<Rightarrow> bool) \<Rightarrow> nat \<Rightarrow> thrown \<Rightarrow> bool" where
  "raised_ok env aborted n e \<longleftrightarrow>
     (aborted n \<and> e = Abort_error) \<or>
     (case ex_outcome (env n) of
        Response status body \<Rightarrow>
          ok_status status \<and> (case body of Body_throws e' \<Rightarrow> e' = e | Text t \<Rightarrow> JSON_parse t = None)
      | Fetch_throws _ \<Rightarrow> False)"

lemma mobile_attempts_raised:
  "mobile_attempts syn tx again e204 env aborted n = (log, Raised e) \<Longrightarrow> \<exists>k. raised_ok env aborted k e"
proof (induction syn tx again e204 env aborted n arbitrary: log rule: mobile_attempts.induct)
  case (1 syn tx again e204 env aborted n)
  obtain log1 res1 where one: "mobile_attempts syn tx again e204 env aborted (n + 1) = (log1, res1)" by (metis surj_pair)
  show ?case
  proof (cases "\<exists>status body. ex_outcome (env n) = Response status body \<and> \<not> ok_status status \<and> n = 0 \<and> again status \<and>
      (\<forall>e. ex_token (env n) \<noteq> Token_throws e)")
    case True
    then obtain status body where st: "ex_outcome (env n) = Response status body" "\<not> ok_status status" "n = 0" "again status"
      "\<forall>e. ex_token (env n) \<noteq> Token_throws e" by blast
    then have "res1 = Raised e"
      using 1(3) one by (subst (asm) mobile_attempts.simps) (auto split: token_result.splits)
    then show ?thesis using 1(1,2) st one by (cases "ex_token (env n)") auto
  next
    case False
    then have "raised_ok env aborted n e"
      using 1(3)
      by (subst (asm) mobile_attempts.simps)
        (auto simp: raised_ok_def mobile_caught_def mobile_refused_def json_result_def one
          split: token_result.splits fetch_outcome.splits if_splits body_result.splits option.splits)
    then show ?thesis ..
  qed
qed

section \<open>Addresses\<close>

lemma mobile_query_tail [simp]: "url_tail (mobile_query values)"
proof -
  have "list_all query_chars (concat (map (\<lambda>(k, v). case q_string v of
      None \<Rightarrow> [] | Some s \<Rightarrow> if s = [] then [] else [encodeURIComponent k @ ''='' @ encodeURIComponent s]) values))"
    by (induction "values") (auto simp: query_chars_data split: option.split)
  then show ?thesis by (simp add: mobile_query_def query_chars_join)
qed

lemma conversation_url [simp]:
  "url_tail (conversation_path kind i @ s) = url_tail s"
  "startsWith (conversation_path kind i @ s) ''/api/v1/''"
  by (simp_all add: conversation_path_def path_char_def startsWith_def)

lemma literal_data2:
  "data_char (CHR ''0'')" "data_char (CHR ''3'')" "data_char (CHR ''f'')" "data_char (CHR ''n'')" "data_char (CHR ''y'')"
  by (simp_all add: data_char_def ascii_alnum_def)

lemma mobile_learning_ok: "url_ok (rq_endpoint (mobile_learning_request c)) \<and> well_formed (mobile_learning_request c)"
  by (cases c) (simp_all add: url_simps literal_data literal_data2 well_formed_def)

lemma mobile_messaging_ok: "url_ok (rq_endpoint (mobile_messaging_request c)) \<and> well_formed (mobile_messaging_request c)"
proof (cases c)
  case (M_markRead kind i)
  then show ?thesis by (simp add: url_ok_def request_def well_formed_def, simp add: path_char_def)
next
  case (M_sendMessage kind i input)
  then show ?thesis by (simp add: url_ok_def request_def well_formed_def, simp add: path_char_def)
qed (simp_all add: url_simps literal_data literal_data2 well_formed_def)

section \<open>Properties\<close>

text \<open>
  C22: a call of the mobile client reaches the network at most twice. The second time it skips the token
  cache, and the first answer was a 401, or the call is a \<^verbatim>\<open>GET\<close> and the answer one of 429, 500, 502, 503, 504.
\<close>

theorem CsgApi_request_attempts:
  assumes "CsgApi_request syn r env aborted = (log, res)"
  shows "log \<in> {[], [False], [False, True]} \<and>
    (log = [False, True] \<longrightarrow>
       (\<exists>status body. ex_outcome (env 0) = Response status body \<and>
          (status = 401 \<or> (mobile_get r \<and> status \<in> set MOBILE_RETRYABLE))))"
  using mobile_attempts_log [OF assms [unfolded CsgApi_request_def]] .

theorem CsgApi_request_attempts_witness:
  "case CsgApi_request (\<lambda>_. []) (get_request ''/api/v1/lessons/1'') (\<lambda>n. sample_exchange (Response 503 (Text [])) None) (\<lambda>_. False) of
     (log, res) \<Rightarrow> log = [False, True] \<and> mobile_get (get_request ''/api/v1/lessons/1'')"
proof -
  let ?env = "\<lambda>n::nat. sample_exchange (Response 503 (Text [])) None"
  obtain log res where f: "CsgApi_request (\<lambda>_. []) (get_request ''/api/v1/lessons/1'') ?env (\<lambda>_. False) = (log, res)"
    by (metis surj_pair)
  moreover have "case CsgApi_request (\<lambda>_. []) (get_request ''/api/v1/lessons/1'') ?env (\<lambda>_. False) of (log, res) \<Rightarrow> log = [False, True]"
    by code_simp
  ultimately show ?thesis using CsgApi_request_attempts [OF f] by (simp add: sample_exchange_def)
qed

text \<open>
  C23: the failures of a call are errors of the client with a text for the user. Only two things come
  through as they are: an abort by the caller, and the failure to read the body of a successful answer.
\<close>

theorem CsgApi_request_errors:
  assumes "CsgApi_request syn r env aborted = (log, Raised e)"
  shows "\<exists>n. (aborted n \<and> e = Abort_error) \<or>
    (\<exists>status body. ex_outcome (env n) = Response status body \<and> ok_status status \<and>
       (case body of Body_throws e' \<Rightarrow> e' = e | Text t \<Rightarrow> JSON_parse t = None))"
proof -
  obtain n where "raised_ok env aborted n e"
    using mobile_attempts_raised [OF assms [unfolded CsgApi_request_def]] by blast
  then show ?thesis by (intro exI [of _ n]) (auto simp: raised_ok_def split: fetch_outcome.splits)
qed

theorem CsgApi_request_errors_witness:
  "\<exists>n::nat. ((\<lambda>_. False) n \<and> Error_thrown ''syntax'' = Abort_error) \<or>
    (\<exists>status body. ex_outcome (sample_exchange (Response 200 (Text ''<html>'')) None) = Response status body \<and> ok_status status \<and>
       (case body of Body_throws e' \<Rightarrow> e' = Error_thrown ''syntax'' | Text t \<Rightarrow> JSON_parse t = None))"
proof -
  have "CsgApi_request (\<lambda>_. ''syntax'') (get_request ''/api/v1/lessons/1'') (\<lambda>n. sample_exchange (Response 200 (Text ''<html>'')) None)
      (\<lambda>_. False) = ([False], Raised (Error_thrown ''syntax''))"
    by code_simp
  from CsgApi_request_errors [OF this] show ?thesis .
qed

text \<open>
  C24: the addresses of the mobile client are safe for all arguments, too, and its \<^verbatim>\<open>GET\<close> requests have no body.
\<close>

theorem mobile_requests_are_safe:
  "url_ok (rq_endpoint (mobile_learning_request c)) \<and> well_formed (mobile_learning_request c) \<and>
   url_ok (rq_endpoint (mobile_messaging_request d)) \<and> well_formed (mobile_messaging_request d)"
  using mobile_learning_ok mobile_messaging_ok by blast

end
