(* ===== verification/JsRegex.thy ===== *)
theory JsRegex
  imports Prelude
begin

text \<open>
  Regular expressions as ECMAScript matches them: backtracking, greedy and lazy repetition, groups,
  anchors and lookahead. \<open>rmatch\<close> lists all ways to match at a position in the order in which the engine tries them;
  the first one counts. A position is the text before it (reversed) and the text after it. Groups
  inside a repetition are not used by the modelled code.
\<close>

datatype re =
    Ch "char \<Rightarrow> bool"
  | Emp
  | Sq re re
  | Or re re
  | Star re
  | LazyStar re
  | Grp nat re
  | Bol
  | BolM
  | Eol
  | Ahead re
  | NotAhead re

type_synonym groups = "(nat \<times> string) list"

function (sequential) rmatch :: "re \<Rightarrow> groups \<Rightarrow> string \<Rightarrow> string \<Rightarrow> (groups \<times> string \<times> string) list" where
  "rmatch (Ch p) g b a = (case a of [] \<Rightarrow> [] | x # a' \<Rightarrow> if p x then [(g, x # b, a')] else [])"
| "rmatch Emp g b a = [(g, b, a)]"
| "rmatch (Sq r s) g b a = concat (map (\<lambda>(g', b', a'). rmatch s g' b' a') (rmatch r g b a))"
| "rmatch (Or r s) g b a = rmatch r g b a @ rmatch s g b a"
| "rmatch (Star r) g b a =
     concat (map (\<lambda>(g', b', a'). if length a' < length a then rmatch (Star r) g' b' a' else []) (rmatch r g b a)) @ [(g, b, a)]"
| "rmatch (LazyStar r) g b a =
     (g, b, a) # concat (map (\<lambda>(g', b', a'). if length a' < length a then rmatch (LazyStar r) g' b' a' else []) (rmatch r g b a))"
| "rmatch (Grp n r) g b a =
     map (\<lambda>(g', b', a'). (jmap_set n (rev (take (length b' - length b) b')) g', b', a')) (rmatch r g b a)"
| "rmatch Bol g b a = (if b = [] then [(g, b, a)] else [])"
| "rmatch BolM g b a = (if b = [] \<or> hd b = CHR 0x0A \<or> hd b = CHR 0x0D then [(g, b, a)] else [])"
| "rmatch Eol g b a = (if a = [] then [(g, b, a)] else [])"
| "rmatch (Ahead r) g b a = (case rmatch r g b a of [] \<Rightarrow> [] | (g', _, _) # _ \<Rightarrow> [(g', b, a)])"
| "rmatch (NotAhead r) g b a = (if rmatch r g b a = [] then [(g, b, a)] else [])"
  by pat_completeness auto
termination by (relation "measures [\<lambda>(r, _, _, _). size r, \<lambda>(_, _, _, a). length a]") auto

declare rmatch.simps(5,6) [simp del]

text \<open>\<^verbatim>\<open>exec\<close> from a position: groups, the text before the match (reversed) and the text after it (with what is before reversed).\<close>

fun scan :: "re \<Rightarrow> string \<Rightarrow> string \<Rightarrow> (groups \<times> string \<times> string \<times> string) option" where
  "scan r b [] = (case rmatch r [] b [] of [] \<Rightarrow> None | (g, b', a') # _ \<Rightarrow> Some (g, b, b', a'))"
| "scan r b (x # a) =
     (case rmatch r [] b (x # a) of [] \<Rightarrow> scan r (x # b) a | (g, b', a') # _ \<Rightarrow> Some (g, b, b', a'))"

definition re_test :: "re \<Rightarrow> string \<Rightarrow> bool" where
  "re_test r s \<longleftrightarrow> scan r [] s \<noteq> None"

text \<open>\<open>s.match(r)[n]\<close>; a group that took no part is the empty string here.\<close>

definition re_group :: "re \<Rightarrow> nat \<Rightarrow> string \<Rightarrow> string option" where
  "re_group r n s =
     (case scan r [] s of None \<Rightarrow> None | Some (g, _) \<Rightarrow> Some (case jmap_get g n of None \<Rightarrow> [] | Some t \<Rightarrow> t))"

text \<open>\<^verbatim>\<open>replace\<close> with a global pattern: \<open>f\<close> gets the groups and the matched text.\<close>

function replace_from :: "re \<Rightarrow> (groups \<Rightarrow> string \<Rightarrow> string) \<Rightarrow> string \<Rightarrow> string \<Rightarrow> string" where
  "replace_from r f b a =
     (case rmatch r [] b a of
        (g, b', a') # _ \<Rightarrow>
          if length a' < length a then f g (take (length a - length a') a) @ replace_from r f b' a'
          else f g [] @ (case a of [] \<Rightarrow> [] | x # q \<Rightarrow> x # replace_from r f (x # b) q)
      | [] \<Rightarrow> (case a of [] \<Rightarrow> [] | x # q \<Rightarrow> x # replace_from r f (x # b) q))"
  by pat_completeness auto
termination by (relation "measure (\<lambda>(_, _, _, a). length a)") auto

declare replace_from.simps [simp del]

definition re_replace :: "re \<Rightarrow> (groups \<Rightarrow> string \<Rightarrow> string) \<Rightarrow> string \<Rightarrow> string" where
  "re_replace r f s = replace_from r f [] s"

text \<open>The replacement strings \<^verbatim>\<open>''\<close>, \<^verbatim>\<open>' '\<close> and \<^verbatim>\<open>'$1'\<close>.\<close>

definition by_text :: "string \<Rightarrow> groups \<Rightarrow> string \<Rightarrow> string" where
  "by_text t g m = t"

definition by_group :: "nat \<Rightarrow> groups \<Rightarrow> string \<Rightarrow> string" where
  "by_group n g m = (case jmap_get g n of None \<Rightarrow> [] | Some t \<Rightarrow> t)"

text \<open>
  A text cut along the matches of a global pattern: the pieces between them, unless empty, and the matches with their groups.
  The patterns of the code do not match the empty text; one that does ends the cutting here.
\<close>

datatype piece = Between string | Match groups string

fun piece_text :: "piece \<Rightarrow> string" where
  "piece_text (Between t) = t"
| "piece_text (Match g t) = t"

definition between_piece :: "string \<Rightarrow> piece list" where
  "between_piece t = (if t = [] then [] else [Between t])"

function cuts :: "re \<Rightarrow> string \<Rightarrow> string \<Rightarrow> piece list" where
  "cuts r b a =
     (case scan r b a of
        None \<Rightarrow> between_piece a
      | Some (g, b1, b2, a2) \<Rightarrow>
          between_piece (take (length b1 - length b) a) @
          Match g (rev (take (length b2 - length b1) b2)) #
          (if length a2 < length a then cuts r b2 a2 else between_piece a2))"
  by pat_completeness auto
termination by (relation "measure (\<lambda>(_, _, a). length a)") auto

declare cuts.simps [simp del]

definition re_cuts :: "re \<Rightarrow> string \<Rightarrow> piece list" where
  "re_cuts r s = cuts r [] s"

section \<open>Notation for the patterns of the code\<close>

fun Lit :: "string \<Rightarrow> re" where
  "Lit [] = Emp"
| "Lit (c # s) = Sq (Ch (\<lambda>x. x = c)) (Lit s)"

fun Sqs :: "re list \<Rightarrow> re" where
  "Sqs [] = Emp"
| "Sqs [r] = r"
| "Sqs (r # rs) = Sq r (Sqs rs)"

definition Cls :: "string \<Rightarrow> re" where "Cls s = Ch (\<lambda>x. x \<in> set s)"
definition NotCls :: "string \<Rightarrow> re" where "NotCls s = Ch (\<lambda>x. x \<notin> set s)"
definition Ws :: re where "Ws = Ch js_ws"
definition Digit :: re where "Digit = Ch is_digit"
definition Dot :: re where "Dot = Ch (\<lambda>x. x \<noteq> CHR 0x0A \<and> x \<noteq> CHR 0x0D)"
definition Any :: re where "Any = Ch (\<lambda>x. True)"
definition Opt :: "re \<Rightarrow> re" where "Opt r = Or r Emp"
definition Plus :: "re \<Rightarrow> re" where "Plus r = Sq r (Star r)"

fun UpTo :: "nat \<Rightarrow> re \<Rightarrow> re" where
  "UpTo 0 r = Emp"
| "UpTo (Suc n) r = Or (Sq r (UpTo n r)) Emp"

section \<open>A match is a piece of the text\<close>

definition consumes :: "string \<Rightarrow> string \<Rightarrow> string \<Rightarrow> string \<Rightarrow> bool" where
  "consumes b a b' a' \<longleftrightarrow> (\<exists>w. a = w @ a' \<and> b' = rev w @ b)"

lemma consumes_refl [simp]: "consumes b a b a"
  by (auto simp: consumes_def)

lemma consumes_trans: "consumes b a b1 a1 \<Longrightarrow> consumes b1 a1 b2 a2 \<Longrightarrow> consumes b a b2 a2"
  by (force simp: consumes_def)

lemma consumes_Cons [simp]: "consumes b (x # a) (x # b) a"
  by (auto simp: consumes_def intro: exI [of _ "[x]"])

lemma consumes_length: "consumes b a b' a' \<Longrightarrow> length a' \<le> length a"
  by (auto simp: consumes_def)

lemma rmatch_consumes: "(g', b', a') \<in> set (rmatch r g b a) \<Longrightarrow> consumes b a b' a'"
proof (induction r g b a arbitrary: g' b' a' rule: rmatch.induct)
  case (3 r s g b a)
  then obtain g1 b1 a1 where m: "(g1, b1, a1) \<in> set (rmatch r g b a)" "(g', b', a') \<in> set (rmatch s g1 b1 a1)" by auto
  show ?case using consumes_trans [OF 3(1) [OF m(1)] 3(2) [OF m(1) refl refl m(2)]] .
next
  case (5 r g b a)
  show ?case
  proof (cases "(g', b', a') = (g, b, a)")
    case False
    then obtain g1 b1 a1 where m: "(g1, b1, a1) \<in> set (rmatch r g b a)" "length a1 < length a"
        "(g', b', a') \<in> set (rmatch (Star r) g1 b1 a1)"
      using 5(3) rmatch.simps(5) [of r g b a] by (auto split: if_splits)
    show ?thesis using consumes_trans [OF 5(1) [OF m(1)] 5(2) [OF m(1) refl refl m(2,3)]] .
  qed simp
next
  case (6 r g b a)
  show ?case
  proof (cases "(g', b', a') = (g, b, a)")
    case False
    then obtain g1 b1 a1 where m: "(g1, b1, a1) \<in> set (rmatch r g b a)" "length a1 < length a"
        "(g', b', a') \<in> set (rmatch (LazyStar r) g1 b1 a1)"
      using 6(3) rmatch.simps(6) [of r g b a] by (auto split: if_splits)
    show ?thesis using consumes_trans [OF 6(1) [OF m(1)] 6(2) [OF m(1) refl refl m(2,3)]] .
  qed simp
qed (auto split: list.splits if_splits)

lemma scan_consumes: "scan r b a = Some (g, b1, b2, a2) \<Longrightarrow> \<exists>a1. consumes b a b1 a1 \<and> consumes b1 a1 b2 a2"
proof (induction r b a rule: scan.induct)
  case (1 r b)
  then show ?case
    using rmatch_consumes [of g b2 a2 r "[]" b "[]"] by (intro exI [of _ "[]"]) (auto split: list.splits)
next
  case (2 r b x a)
  show ?case
  proof (cases "rmatch r [] b (x # a)")
    case Nil
    then obtain a1 where "consumes (x # b) a b1 a1" "consumes b1 a1 b2 a2" using 2 by auto
    then show ?thesis using consumes_trans [OF consumes_Cons] by blast
  next
    case (Cons m ms)
    then have "b1 = b" "(g, b2, a2) \<in> set (rmatch r [] b (x # a))" using 2(2) by (auto split: prod.splits)
    then show ?thesis using rmatch_consumes [of g b2 a2] by (intro exI [of _ "x # a"]) simp
  qed
qed

lemma scan_text:
  assumes "scan r [] s = Some (g, b1, b2, a2)"
  shows "\<exists>m. s = rev b1 @ m @ a2 \<and> b2 = rev m @ b1"
proof -
  obtain a1 where "consumes [] s b1 a1" "consumes b1 a1 b2 a2" using scan_consumes [OF assms] by blast
  then show ?thesis by (auto simp: consumes_def)
qed

section \<open>The first match\<close>

text \<open>The engine returns the first match; these rules compute it without listing the others.\<close>

definition first_is :: "re \<Rightarrow> groups \<Rightarrow> string \<Rightarrow> string \<Rightarrow> groups \<Rightarrow> string \<Rightarrow> string \<Rightarrow> bool" where
  "first_is r g b a g' b' a' \<longleftrightarrow> (\<exists>ms. rmatch r g b a = (g', b', a') # ms)"

definition fails :: "re \<Rightarrow> groups \<Rightarrow> string \<Rightarrow> string \<Rightarrow> bool" where
  "fails r g b a \<longleftrightarrow> rmatch r g b a = []"

lemma first_Sq [intro]:
  "first_is r g b a g1 b1 a1 \<Longrightarrow> first_is s g1 b1 a1 g2 b2 a2 \<Longrightarrow> first_is (Sq r s) g b a g2 b2 a2"
  by (auto simp: first_is_def)

lemma first_Ch: "p x \<Longrightarrow> first_is (Ch p) g b (x # a) g (x # b) a"
  by (simp add: first_is_def)

lemma first_Emp: "first_is Emp g b a g b a"
  by (simp add: first_is_def)

lemma first_Bol: "first_is Bol g [] a g [] a"
  by (simp add: first_is_def)

lemma first_Eol: "first_is Eol g b [] g b []"
  by (simp add: first_is_def)

lemma first_Or1: "first_is r g b a g' b' a' \<Longrightarrow> first_is (Or r s) g b a g' b' a'"
  by (auto simp: first_is_def)

lemma first_Or2: "fails r g b a \<Longrightarrow> first_is s g b a g' b' a' \<Longrightarrow> first_is (Or r s) g b a g' b' a'"
  by (auto simp: first_is_def fails_def)

lemma first_Grp:
  "first_is r g b a g' (rev w @ b) a' \<Longrightarrow> first_is (Grp n r) g b a (jmap_set n w g') (rev w @ b) a'"
  by (auto simp: first_is_def)

lemma first_Star: "first_is (Star (Ch p)) g b (w @ a) g (rev w @ b) a" if "\<forall>c \<in> set w. p c" "a = [] \<or> \<not> p (hd a)"
  using that(1)
proof (induction w arbitrary: b)
  case Nil
  then show ?case
    using that(2) by (cases a) (auto simp: first_is_def rmatch.simps(5))
next
  case (Cons x w)
  then obtain ms where "rmatch (Star (Ch p)) g (x # b) (w @ a) = (g, rev w @ x # b, a) # ms"
    by (auto simp: first_is_def)
  then show ?case using Cons(2) by (simp add: first_is_def rmatch.simps(5) [of _ _ _ "x # _"])
qed

lemma first_Plus:
  "w \<noteq> [] \<Longrightarrow> \<forall>c \<in> set w. p c \<Longrightarrow> a = [] \<or> \<not> p (hd a) \<Longrightarrow> first_is (Plus (Ch p)) g b (w @ a) g (rev w @ b) a"
  by (cases w) (auto simp: Plus_def intro!: first_Sq [OF first_Ch] dest: first_Star [of _ p a g])

text \<open>A lazy repetition stops at the first place where the rest of the pattern matches.\<close>

lemma first_lazy:
  assumes "\<And>u v. w = u @ v \<Longrightarrow> v \<noteq> [] \<Longrightarrow> k (g, rev u @ b, v @ a) = []" "k (g, rev w @ b, a) = m # ms"
  shows "\<exists>ns. concat (map k (rmatch (LazyStar (Ch (\<lambda>x. True))) g b (w @ a))) = m # ns"
  using assms
proof (induction w arbitrary: b)
  case Nil
  then show ?case by (simp add: rmatch.simps(6))
next
  case (Cons x w)
  have "\<exists>ns. concat (map k (rmatch (LazyStar (Ch (\<lambda>x. True))) g (x # b) (w @ a))) = m # ns"
  proof (rule Cons(1))
    show "k (g, rev u @ x # b, v @ a) = []" if "w = u @ v" "v \<noteq> []" for u v
      using Cons(2) [of "x # u" v] that by simp
  qed (use Cons(3) in simp)
  moreover have "k (g, b, x # w @ a) = []" using Cons(2) [of "[]" "x # w"] by simp
  ultimately show ?case by (simp add: rmatch.simps(6) [of _ _ _ "x # _"])
qed

lemma fails_Sq1: "fails r g b a \<Longrightarrow> fails (Sq r s) g b a"
  by (simp add: fails_def)

lemma star_none: "a = [] \<or> \<not> p (hd a) \<Longrightarrow> rmatch (Star (Ch p)) g b a = [(g, b, a)]"
  by (cases a) (auto simp: rmatch.simps(5))

lemma scan_first: "first_is r [] b a g b' a' \<Longrightarrow> scan r b a = Some (g, b, b', a')"
  by (cases a) (auto simp: first_is_def)

lemma scan_Bol: "b \<noteq> [] \<Longrightarrow> scan (Sq Bol r) b a = None"
  by (induction a arbitrary: b) auto

lemma scan_Bol_None: "fails (Sq Bol r) [] [] a \<Longrightarrow> scan (Sq Bol r) [] a = None"
  by (cases a) (auto simp: fails_def scan_Bol)

lemma re_test_Bol: "re_test (Sq Bol r) s \<longleftrightarrow> rmatch r [] [] s \<noteq> []"
  by (cases s) (auto simp: re_test_def scan_Bol split: list.splits)

lemma re_group_first: "first_is r [] [] s g b' a' \<Longrightarrow> jmap_get g n = Some t \<Longrightarrow> re_group r n s = Some t"
  by (simp add: re_group_def scan_first)

lemma re_group_Bol_None: "fails (Sq Bol r) [] [] a \<Longrightarrow> re_group (Sq Bol r) n a = None"
  by (simp add: re_group_def scan_Bol_None)

section \<open>Cutting loses nothing\<close>

lemma between_piece_text [simp]: "concat (map piece_text (between_piece t)) = t"
  by (simp add: between_piece_def)

lemma cuts_text: "concat (map piece_text (cuts r b a)) = a"
proof (induction r b a rule: cuts.induct)
  case (1 r b a)
  show ?case
  proof (cases "scan r b a")
    case None
    then show ?thesis by (simp add: cuts.simps [of r b a])
  next
    case (Some m)
    obtain g b1 b2 a2 where m: "m = (g, b1, b2, a2)" by (cases m)
    obtain w v where "a = w @ v @ a2" "b1 = rev w @ b" "b2 = rev v @ b1"
      using scan_consumes [OF Some [unfolded m]] by (auto simp: consumes_def)
    then show ?thesis using 1 [OF Some m [symmetric] refl refl] Some m by (subst cuts.simps) auto
  qed
qed

lemma re_cuts_text: "concat (map piece_text (re_cuts r s)) = s"
  by (simp add: re_cuts_def cuts_text)

lemma re_cuts_length: "p \<in> set (re_cuts r s) \<Longrightarrow> length (piece_text p) \<le> length s"
proof -
  assume "p \<in> set (re_cuts r s)"
  then have "length (piece_text p) \<le> length (concat (map piece_text (re_cuts r s)))"
    by (auto simp: length_concat comp_def intro: member_le_sum_list)
  then show ?thesis by (simp add: re_cuts_text)
qed

section \<open>What a match consists of\<close>

lemma star_match:
  "(g', b', a') \<in> set (rmatch (Star (Ch p)) g b a) \<Longrightarrow> \<exists>w. a = w @ a' \<and> b' = rev w @ b \<and> g' = g \<and> (\<forall>c \<in> set w. p c)"
proof (induction a arbitrary: b)
  case Nil
  then show ?case by (auto simp: rmatch.simps(5))
next
  case (Cons x a)
  show ?case
  proof (cases "p x \<and> (g', b', a') \<in> set (rmatch (Star (Ch p)) g (x # b) a)")
    case True
    then obtain w where "a = w @ a'" "b' = rev w @ x # b" "g' = g" "\<forall>c \<in> set w. p c" using Cons(1) by blast
    then show ?thesis using True by (intro exI [of _ "x # w"]) simp
  next
    case False
    then show ?thesis using Cons(2) by (subst (asm) rmatch.simps(5)) (auto split: if_splits)
  qed
qed

lemma scan_member:
  "scan r b a = Some (g, b1, b2, a2) \<Longrightarrow> \<exists>a1. rev b @ a = rev b1 @ a1 \<and> (g, b2, a2) \<in> set (rmatch r [] b1 a1)"
proof (induction r b a rule: scan.induct)
  case (1 r b)
  then show ?case by (auto split: list.splits)
next
  case (2 r b x a)
  then show ?case by (cases "rmatch r [] b (x # a)") auto
qed

text \<open>What a match of a compound pattern consists of.\<close>

lemma rmatch_SqD:
  "m \<in> set (rmatch (Sq r s) g b a) \<Longrightarrow> \<exists>g1 b1 a1. (g1, b1, a1) \<in> set (rmatch r g b a) \<and> m \<in> set (rmatch s g1 b1 a1)"
  by auto

lemma rmatch_LitD: "m \<in> set (rmatch (Lit p) g b a) \<Longrightarrow> \<exists>a'. a = p @ a' \<and> m = (g, rev p @ b, a')"
  by (induction p arbitrary: b a) (fastforce split: list.splits if_splits)+

lemma rmatch_GrpD:
  "(g', b', a') \<in> set (rmatch (Grp n r) g b a) \<Longrightarrow>
     \<exists>g1. (g1, b', a') \<in> set (rmatch r g b a) \<and> g' = jmap_set n (rev (take (length b' - length b) b')) g1"
  by auto

lemma rmatch_NotAheadD: "m \<in> set (rmatch (NotAhead r) g b a) \<Longrightarrow> m = (g, b, a)"
  by (auto split: if_splits)

lemma rmatch_EolD: "m \<in> set (rmatch Eol g b a) \<Longrightarrow> m = (g, b, []) \<and> a = []"
  by (auto split: if_splits)

lemma rmatch_start_or: "m \<in> set (rmatch (Or Bol (Ch p)) g b a) \<Longrightarrow> m = (g, b, a) \<and> b = [] \<or> (\<exists>x a'. a = x # a' \<and> p x \<and> m = (g, x # b, a'))"
  by (auto split: list.splits if_splits)

lemma cuts_match:
  "Match g t \<in> set (cuts r b a) \<Longrightarrow> \<exists>b1 a1 b2 a2. rev b @ a = rev b1 @ a1 \<and> (g, b2, a2) \<in> set (rmatch r [] b1 a1)"
proof (induction r b a rule: cuts.induct)
  case (1 r b a)
  show ?case
  proof (cases "scan r b a")
    case None
    then show ?thesis using 1(2) by (simp add: cuts.simps [of r b a] between_piece_def split: if_splits)
  next
    case (Some m)
    obtain g' b1 b2 a2 where m: "m = (g', b1, b2, a2)" by (cases m)
    have whole: "rev b @ a = rev b2 @ a2" using scan_consumes [OF Some [unfolded m]] by (auto simp: consumes_def)
    show ?thesis
    proof (cases "g = g'")
      case True
      then show ?thesis using scan_member [OF Some [unfolded m]] by blast
    next
      case False
      then have "length a2 < length a \<and> Match g t \<in> set (cuts r b2 a2)"
        using 1(2) Some m by (auto simp: cuts.simps [of r b a] between_piece_def split: if_splits)
      then show ?thesis using 1(1) [OF Some m [symmetric] refl refl] whole by auto
    qed
  qed
qed

text \<open>The least number of characters a pattern takes.\<close>

fun min_len :: "re \<Rightarrow> nat" where
  "min_len (Ch p) = 1"
| "min_len (Sq r s) = min_len r + min_len s"
| "min_len (Or r s) = min (min_len r) (min_len s)"
| "min_len (Grp n r) = min_len r"
| "min_len _ = 0"

lemma rmatch_min_len: "(g', b', a') \<in> set (rmatch r g b a) \<Longrightarrow> length a' + min_len r \<le> length a"
proof (induction r arbitrary: g b a g' b' a')
  case (Sq r s)
  obtain g1 b1 a1 where m: "(g1, b1, a1) \<in> set (rmatch r g b a)" "(g', b', a') \<in> set (rmatch s g1 b1 a1)"
    using rmatch_SqD [OF Sq(3)] by blast
  show ?case using Sq(1) [OF m(1)] Sq(2) [OF m(2)] by simp
next
  case (Grp n r)
  obtain g1 where "(g1, b', a') \<in> set (rmatch r g b a)" using rmatch_GrpD [OF Grp(2)] by blast
  from Grp(1) [OF this] show ?case by simp
next
  case (Star r)
  show ?case using consumes_length [OF rmatch_consumes [OF Star(2)]] by simp
next
  case (LazyStar r)
  show ?case using consumes_length [OF rmatch_consumes [OF LazyStar(2)]] by simp
next
  case (Or r s)
  then show ?case by (fastforce simp: min_def)
qed (auto split: list.splits if_splits)

lemma scan_min_len: "scan r b a = Some (g, b1, b2, a2) \<Longrightarrow> length a2 + min_len r \<le> length a"
proof -
  assume s: "scan r b a = Some (g, b1, b2, a2)"
  obtain a1 where a1: "rev b @ a = rev b1 @ a1" "(g, b2, a2) \<in> set (rmatch r [] b1 a1)" using scan_member [OF s] by blast
  have "length b \<le> length b1" using scan_consumes [OF s] by (auto simp: consumes_def)
  moreover have "length b + length a = length b1 + length a1" using a1(1) by (metis length_append length_rev)
  ultimately show ?thesis using rmatch_min_len [OF a1(2)] by linarith
qed

end
