(* ===== verification/Message_Format.thy ===== *)
theory Message_Format
  imports JsRegex
begin

text \<open>
  \<^verbatim>\<open>web/src/lib/messageFormat.ts\<close> and \<^verbatim>\<open>mobile/src/lib/message-format.ts\<close>: a message body
  is split into blocks for display, the editor's document becomes Markdown, and a body becomes a one-line preview.
  The block parser is the same text in both files. The URL parser of the platform is a parameter.
\<close>

section \<open>Blocks\<close>

datatype MessageBlock =
    Paragraph string
  | BulletList "string list"
  | OrderedList "string list"
  | Blockquote string
  | Code (code: string) (language: string)
  | Spacer

datatype list_type = BulletType | OrderedType

text \<open>The local variables of \<^verbatim>\<open>appendTextBlocks\<close>.\<close>

record text_state =
  blocks :: "MessageBlock list"
  paragraph_lines :: "string list"
  listType :: "list_type option"
  listItems :: "string list"
  quoteLines :: "string list"

definition strip_newlines :: "string \<Rightarrow> string" where
  "strip_newlines s = rev (dropWhile (\<lambda>c. c = NL) (rev (dropWhile (\<lambda>c. c = NL) s)))"

definition flushParagraph :: "text_state \<Rightarrow> text_state" where
  "flushParagraph s =
     (let v = trim (join [NL] (paragraph_lines s))
      in s\<lparr>blocks := (if v \<noteq> [] then blocks s @ [Paragraph v] else blocks s), paragraph_lines := []\<rparr>)"

definition list_block :: "list_type \<Rightarrow> string list \<Rightarrow> MessageBlock" where
  "list_block t items = (case t of BulletType \<Rightarrow> BulletList items | OrderedType \<Rightarrow> OrderedList items)"

definition flushList :: "text_state \<Rightarrow> text_state" where
  "flushList s =
     s\<lparr>blocks := (case listType s of
                    Some t \<Rightarrow> if listItems s \<noteq> [] then blocks s @ [list_block t (listItems s)] else blocks s
                  | None \<Rightarrow> blocks s),
       listType := None, listItems := []\<rparr>"

definition flushQuote :: "text_state \<Rightarrow> text_state" where
  "flushQuote s =
     (let v = trim (join [NL] (quoteLines s))
      in s\<lparr>blocks := (if v \<noteq> [] then blocks s @ [Blockquote v] else blocks s), quoteLines := []\<rparr>)"

definition flushAll :: "text_state \<Rightarrow> text_state" where
  "flushAll s = flushQuote (flushList (flushParagraph s))"

definition bullet_re :: re where
  "bullet_re = Sqs [Bol, Star Ws, Cls ''-*'', Plus Ws, Grp 1 (Plus Dot), Eol]"

definition ordered_re :: re where
  "ordered_re = Sqs [Bol, Star Ws, Plus Digit, Cls ''.)'', Plus Ws, Grp 1 (Plus Dot), Eol]"

definition quote_re :: re where
  "quote_re = Sqs [Bol, Star Ws, Lit ''>'', Opt Ws, Grp 1 (Star Dot), Eol]"

definition add_item :: "list_type \<Rightarrow> string \<Rightarrow> text_state \<Rightarrow> text_state" where
  "add_item t item s0 =
     (let s = flushQuote (flushParagraph s0);
          s = (if listType s \<noteq> None \<and> listType s \<noteq> Some t then flushList s else s)
      in s\<lparr>listType := Some t, listItems := listItems s @ [trim item]\<rparr>)"

definition text_line :: "string \<Rightarrow> text_state \<Rightarrow> text_state" where
  "text_line line s =
     (if trim line = [] then
        (let s = flushAll s
         in if blocks s \<noteq> [] \<and> last (blocks s) \<noteq> Spacer then s\<lparr>blocks := blocks s @ [Spacer]\<rparr> else s)
      else case re_group bullet_re 1 line of
        Some item \<Rightarrow> add_item BulletType item s
      | None \<Rightarrow> (case re_group ordered_re 1 line of
        Some item \<Rightarrow> add_item OrderedType item s
      | None \<Rightarrow> (case re_group quote_re 1 line of
        Some q \<Rightarrow> (let s = flushList (flushParagraph s) in s\<lparr>quoteLines := quoteLines s @ [q]\<rparr>)
      | None \<Rightarrow> (let s = flushQuote (flushList s) in s\<lparr>paragraph_lines := paragraph_lines s @ [line]\<rparr>))))"

definition text_start :: "MessageBlock list \<Rightarrow> text_state" where
  "text_start bs = \<lparr>blocks = bs, paragraph_lines = [], listType = None, listItems = [], quoteLines = []\<rparr>"

definition appendTextBlocks :: "MessageBlock list \<Rightarrow> string \<Rightarrow> MessageBlock list" where
  "appendTextBlocks bs t = blocks (flushAll (fold text_line (split_on NL (strip_newlines t)) (text_start bs)))"

definition fencePattern :: re where
  "fencePattern =
     Sqs [Cls ''`'', Lit ''``'', Grp 1 (Star (NotCls [NL, CHR ''`''])), Opt (Lit [NL]), Grp 2 (LazyStar Any),
          Or (Lit ''```'') Eol]"

definition group_text :: "groups \<Rightarrow> nat \<Rightarrow> string" where
  "group_text g n = (case jmap_get g n of None \<Rightarrow> [] | Some t \<Rightarrow> t)"

lemma fencePattern_starts: "\<exists>r. fencePattern = Sq (Ch (\<lambda>x. x \<in> set ''`'')) r"
  by (simp add: fencePattern_def Cls_def)

lemma scan_fence_shrinks: "scan fencePattern b a = Some (g, b1, b2, a2) \<Longrightarrow> length a2 < length a"
  using scan_min_len [of fencePattern b a] by (simp add: fencePattern_def Cls_def)

text \<open>
  The loop over the fences. \<open>b\<close> is the text before \<^verbatim>\<open>cursor\<close>, reversed, and \<open>a\<close> the text after it. A match takes
  at least one back quote, so the loop ends.
\<close>

function parse_loop :: "MessageBlock list \<Rightarrow> string \<Rightarrow> string \<Rightarrow> MessageBlock list" where
  "parse_loop bs b a =
     (case scan fencePattern b a of
        None \<Rightarrow> (if a \<noteq> [] then appendTextBlocks bs a else bs)
      | Some (g, b1, b2, a2) \<Rightarrow>
          (let before = take (length b1 - length b) a;
               bs = (if before \<noteq> [] then appendTextBlocks bs before else bs)
           in parse_loop (bs @ [Code (strip_newlines (group_text g 2)) (trim (group_text g 1))]) b2 a2))"
  by pat_completeness auto
termination by (relation "measure (\<lambda>(_, _, a). length a)") (auto dest: scan_fence_shrinks)

declare parse_loop.simps [simp del]

definition pop_spacers :: "MessageBlock list \<Rightarrow> MessageBlock list" where
  "pop_spacers bs = rev (dropWhile (\<lambda>b. b = Spacer) (rev bs))"

definition parseMessageBlocks :: "string \<Rightarrow> MessageBlock list" where
  "parseMessageBlocks body =
     (let bs = pop_spacers (parse_loop [] [] body) in if bs \<noteq> [] then bs else [Paragraph body])"

section \<open>Cleaning a body\<close>

definition fence_line_re :: re where "fence_line_re = Sqs [Bol, Star Ws, Lit ''```'']"

definition empty_item_re :: re where
  "empty_item_re = Sqs [Bol, Star Ws, Or (Cls ''-*'') (Sq (Plus Digit) (Cls ''.)'')), Star Ws, Eol]"

fun keep_lines :: "bool \<Rightarrow> string list \<Rightarrow> string list" where
  "keep_lines inside [] = []"
| "keep_lines inside (l # ls) =
     (if re_test fence_line_re l then l # keep_lines (\<not> inside) ls
      else if inside \<or> \<not> re_test empty_item_re l then l # keep_lines inside ls
      else keep_lines inside ls)"

fun crlf_to_lf :: "string \<Rightarrow> string" where
  "crlf_to_lf (c # d # s) =
     (if c = CHR 0x0D \<and> d = NL then NL # crlf_to_lf s else c # crlf_to_lf (d # s))"
| "crlf_to_lf s = s"

text \<open>\<^verbatim>\<open>replace(/\n{3,}/g, '\n\n')\<close>: the counter is the number of line feeds just before.\<close>

fun squeeze_newlines :: "nat \<Rightarrow> string \<Rightarrow> string" where
  "squeeze_newlines k [] = []"
| "squeeze_newlines k (c # s) =
     (if c = NL then (if k < 2 then NL # squeeze_newlines (Suc k) s else squeeze_newlines (Suc k) s)
      else c # squeeze_newlines 0 s)"

definition normalizeMessageMarkdown :: "string \<Rightarrow> string" where
  "normalizeMessageMarkdown body =
     trim (squeeze_newlines 0 (join [NL] (keep_lines False (split_on NL (crlf_to_lf body)))))"

section \<open>The editor's document\<close>

datatype mark = Mark (mark_type: string) (mark_href: "string option")

datatype JSONContent =
  Node (node_type: string) (node_text: string) (node_marks: "mark list") (node_content: "JSONContent list")

definition applyMark :: "string \<Rightarrow> mark \<Rightarrow> string" where
  "applyMark v m =
     (if mark_type m = ''bold'' then ''**'' @ v @ ''**''
      else if mark_type m = ''italic'' then ''_'' @ v @ ''_''
      else if mark_type m = ''underline'' then ''++'' @ v @ ''++''
      else if mark_type m = ''strike'' then ''~~'' @ v @ ''~~''
      else if mark_type m = ''code'' then ''`'' @ v @ ''`''
      else if mark_type m = ''link'' then
        ''['' @ v @ ''](''
          @ (case mark_href m of None \<Rightarrow> v | Some h \<Rightarrow> if h \<noteq> [] then h else v) @ '')''
      else v)"

definition applyMarks :: "string \<Rightarrow> mark list \<Rightarrow> string" where
  "applyMarks t ms = foldl applyMark t ms"

definition continuation :: "string list \<Rightarrow> string" where
  "continuation values =
     join [NL] (map (\<lambda>v. join [NL] (map (\<lambda>l. ''  '' @ l) (split_on NL v))) (filter (\<lambda>v. v \<noteq> []) values))"

text \<open>One item of a list from the Markdown of its children.\<close>

definition list_item :: "string list \<Rightarrow> string" where
  "list_item values =
     (let firstLine = (case values of [] \<Rightarrow> [] | v # _ \<Rightarrow> v); c = continuation (drop 1 values)
      in if c \<noteq> [] then trimEnd (firstLine @ [NL] @ c) else trimEnd firstLine)"

definition number_items :: "bool \<Rightarrow> string list \<Rightarrow> string" where
  "number_items ordered items =
     join [NL] (map (\<lambda>(i, item). (if ordered then show_nat (i + 1) @ ''.'' else ''-'') @ '' '' @ item)
                    (zip [0..<length items] items))"

definition quote_lines :: "string \<Rightarrow> string" where
  "quote_lines v = join [NL] (map (\<lambda>l. ''> '' @ l) (split_on NL v))"

definition join_children :: "string \<Rightarrow> string list \<Rightarrow> string" where
  "join_children ty children =
     (if ty = ''doc'' then trim (join [NL, NL] children)
      else if ty = ''paragraph'' then join [] children
      else if ty = ''hardBreak'' then [NL]
      else if ty = ''codeBlock'' then ''```'' @ [NL] @ join [] children @ [NL] @ ''```''
      else if ty = ''blockquote'' then quote_lines (join [NL] children)
      else join [] children)"

lemma size_child [simp]: "x \<in> set (node_content n) \<Longrightarrow> size x < size n"
  by (cases n) (auto dest: size_list_estimation' [of _ _ _ size] simp: less_Suc_eq_le trans_le_add2)

function editorJsonToMarkdown :: "JSONContent \<Rightarrow> string" and serializeList :: "JSONContent \<Rightarrow> bool \<Rightarrow> string" where
  "editorJsonToMarkdown node =
     (if node_type node = ''text'' then applyMarks (node_text node) (node_marks node)
      else if node_type node = ''bulletList'' \<or> node_type node = ''orderedList'' then
        serializeList node (node_type node = ''orderedList'')
      else join_children (node_type node) (map editorJsonToMarkdown (node_content node)))"
| "serializeList node ordered =
     number_items ordered
       (filter (\<lambda>item. trim item \<noteq> [])
         (map (\<lambda>item. list_item (map editorJsonToMarkdown (node_content item))) (node_content node)))"
  by pat_completeness auto
termination
proof (relation "measure (\<lambda>x. case x of Inl n \<Rightarrow> 2 * size n + 1 | Inr (n, _) \<Rightarrow> 2 * size n)")
  fix node item x assume "item \<in> set (node_content node)" "x \<in> set (node_content item)"
  then have "size x < size item" "size item < size node" by simp_all
  then show "(Inl x, Inr (node, ordered)) \<in> measure (\<lambda>x. case x of Inl n \<Rightarrow> 2 * size n + 1 | Inr (n, _) \<Rightarrow> 2 * size n)" for ordered
    by simp
qed auto

declare editorJsonToMarkdown.simps [simp del] serializeList.simps [simp del]

section \<open>The shape of the blocks\<close>

fun spaced :: "MessageBlock list \<Rightarrow> bool" where
  "spaced (a # b # bs) = (\<not> (a = Spacer \<and> b = Spacer) \<and> spaced (b # bs))"
| "spaced _ = True"

definition trimmed :: "string \<Rightarrow> bool" where
  "trimmed s \<longleftrightarrow> s \<noteq> [] \<and> \<not> js_ws (hd s) \<and> \<not> js_ws (last s)"

fun block_ok :: "MessageBlock \<Rightarrow> bool" where
  "block_ok (Paragraph t) = trimmed t"
| "block_ok (BulletList items) = (items \<noteq> [])"
| "block_ok (OrderedList items) = (items \<noteq> [])"
| "block_ok (Blockquote t) = trimmed t"
| "block_ok (Code c l) = ((c \<noteq> [] \<longrightarrow> hd c \<noteq> NL \<and> last c \<noteq> NL) \<and> (l \<noteq> [] \<longrightarrow> trimmed l))"
| "block_ok Spacer = True"

definition blocks_ok :: "MessageBlock list \<Rightarrow> bool" where
  "blocks_ok bs \<longleftrightarrow> spaced bs \<and> list_all block_ok bs \<and> (bs \<noteq> [] \<longrightarrow> hd bs \<noteq> Spacer)"

lemma spaced_snoc: "spaced (bs @ [b]) \<longleftrightarrow> spaced bs \<and> \<not> (bs \<noteq> [] \<and> last bs = Spacer \<and> b = Spacer)"
  by (induction bs rule: spaced.induct) auto

lemma blocks_ok_snoc:
  "blocks_ok bs \<Longrightarrow> block_ok b \<Longrightarrow> b = Spacer \<longrightarrow> bs \<noteq> [] \<and> last bs \<noteq> Spacer \<Longrightarrow> blocks_ok (bs @ [b])"
  by (cases bs) (auto simp: blocks_ok_def spaced_snoc simp flip: append.append_Cons)

lemma dropWhile_hd: "dropWhile P xs \<noteq> [] \<Longrightarrow> \<not> P (hd (dropWhile P xs))"
  by (induction xs) auto

lemma strip_both_ends:
  fixes P :: "'a \<Rightarrow> bool" and xs :: "'a list"
  defines "r \<equiv> rev (dropWhile P (rev (dropWhile P xs)))"
  assumes ne: "r \<noteq> []"
  shows "\<not> P (hd r) \<and> \<not> P (last r)"
proof -
  define u where "u = dropWhile P xs"
  have r: "r = rev (dropWhile P (rev u))" by (simp add: r_def u_def)
  have "u \<noteq> []" using ne r by auto
  then have h: "\<not> P (hd u)" using dropWhile_hd [of P xs] by (simp add: u_def)
  have "u = r @ rev (takeWhile P (rev u))" unfolding r by (metis rev_append rev_rev_ident takeWhile_dropWhile_id)
  then have "hd u = hd r" using ne by (metis hd_append2)
  moreover have "\<not> P (last r)" using ne dropWhile_hd [of P "rev u"] by (simp add: r last_rev)
  ultimately show ?thesis using h by simp
qed

lemma trim_trimmed: "trim s \<noteq> [] \<Longrightarrow> trimmed (trim s)"
  using strip_both_ends [of js_ws s] by (simp add: trimmed_def trim_def trimEnd_def trimStart_def)

lemma strip_newlines_ends: "strip_newlines s \<noteq> [] \<Longrightarrow> hd (strip_newlines s) \<noteq> NL \<and> last (strip_newlines s) \<noteq> NL"
  using strip_both_ends [of "\<lambda>c. c = NL" s] by (simp add: strip_newlines_def)

definition text_ok :: "text_state \<Rightarrow> bool" where "text_ok s \<longleftrightarrow> blocks_ok (blocks s)"

lemma flush_ok [intro]:
  shows flushParagraph_ok: "text_ok s \<Longrightarrow> text_ok (flushParagraph s)"
    and flushList_ok: "text_ok s \<Longrightarrow> text_ok (flushList s)"
    and flushQuote_ok: "text_ok s \<Longrightarrow> text_ok (flushQuote s)"
  by (auto simp: text_ok_def flushParagraph_def flushList_def flushQuote_def Let_def list_block_def
      split: option.splits list_type.splits intro!: blocks_ok_snoc trim_trimmed)

lemma flushAll_ok [intro]: "text_ok s \<Longrightarrow> text_ok (flushAll s)"
  unfolding flushAll_def by (intro flush_ok)

lemma text_ok_update [simp]:
  "text_ok (s\<lparr>listType := t, listItems := i\<rparr>) = text_ok s" "text_ok (s\<lparr>quoteLines := q\<rparr>) = text_ok s"
  "text_ok (s\<lparr>paragraph_lines := p\<rparr>) = text_ok s"
  by (simp_all add: text_ok_def)

lemma add_item_ok: "text_ok s \<Longrightarrow> text_ok (add_item t item s)"
  by (simp add: add_item_def Let_def flush_ok)

lemma text_line_ok: "text_ok s \<Longrightarrow> text_ok (text_line l s)"
proof (cases "trim l = []")
  case True
  assume "text_ok s"
  then have "text_ok (flushAll s)" by (rule flushAll_ok)
  then show ?thesis
    using True by (auto simp: text_line_def Let_def text_ok_def intro: blocks_ok_snoc)
next
  case False
  assume "text_ok s"
  then show ?thesis using False by (auto simp: text_line_def Let_def add_item_ok flush_ok split: option.splits)
qed

lemma appendTextBlocks_ok: "blocks_ok bs \<Longrightarrow> blocks_ok (appendTextBlocks bs t)"
proof -
  have fold: "text_ok s \<Longrightarrow> text_ok (fold text_line ls s)" for ls s
    by (induction ls arbitrary: s) (auto simp: text_line_ok)
  assume "blocks_ok bs"
  then have "text_ok (text_start bs)" by (simp add: text_ok_def text_start_def)
  then have "text_ok (flushAll (fold text_line (split_on NL (strip_newlines t)) (text_start bs)))"
    by (intro flushAll_ok fold)
  then show ?thesis by (simp add: text_ok_def appendTextBlocks_def)
qed

lemma code_block_ok: "block_ok (Code (strip_newlines c) (trim l))"
  by (auto simp: trim_trimmed dest: strip_newlines_ends)

lemma parse_loop_ok: "blocks_ok bs \<Longrightarrow> blocks_ok (parse_loop bs b a)"
proof (induction bs b a rule: parse_loop.induct)
  case (1 bs b a)
  show ?case
  proof (cases "scan fencePattern b a")
    case None
    then show ?thesis using 1 by (simp add: parse_loop.simps [of bs b a] appendTextBlocks_ok)
  next
    case (Some m)
    obtain g b1 b2 a2 where m: "m = (g, b1, b2, a2)" by (cases m)
    show ?thesis
      using 1 Some unfolding m
      by (subst parse_loop.simps) (simp add: Let_def appendTextBlocks_ok blocks_ok_snoc [OF _ code_block_ok])
  qed
qed

lemma pop_spacers_ok:
  assumes "blocks_ok bs" "pop_spacers bs \<noteq> []"
  shows "blocks_ok (pop_spacers bs) \<and> last (pop_spacers bs) \<noteq> Spacer"
proof -
  have "spaced (xs @ ys) \<Longrightarrow> spaced xs" for xs ys by (induction xs rule: spaced.induct) auto
  moreover have b: "bs = pop_spacers bs @ rev (takeWhile (\<lambda>b. b = Spacer) (rev bs))"
    unfolding pop_spacers_def by (metis rev_append rev_rev_ident takeWhile_dropWhile_id)
  ultimately have "spaced (pop_spacers bs)" "list_all block_ok (pop_spacers bs)" "hd (pop_spacers bs) \<noteq> Spacer"
    using assms unfolding blocks_ok_def by (metis list_all_append hd_append2 Nil_is_append_conv)+
  moreover have "last (pop_spacers bs) \<noteq> Spacer"
    using assms(2) dropWhile_hd [of "\<lambda>b. b = Spacer" "rev bs"] by (simp add: pop_spacers_def last_rev)
  ultimately show ?thesis by (simp add: blocks_ok_def)
qed

text \<open>
  C25: whatever the body, the block parser returns and its result is never empty. The blocks are well shaped,
  unless it is the whole body as one paragraph: no spacer comes first, last or after another, every paragraph
  and quotation is trimmed and not empty, no list is empty, and code has no line feed at its ends.
\<close>

theorem parseMessageBlocks_shape:
  "parseMessageBlocks body \<noteq> [] \<and>
   (parseMessageBlocks body = [Paragraph body] \<or>
    blocks_ok (parseMessageBlocks body) \<and> last (parseMessageBlocks body) \<noteq> Spacer)"
  using pop_spacers_ok [OF parse_loop_ok [of "[]" "[]" body]]
  by (auto simp: parseMessageBlocks_def Let_def blocks_ok_def)

section \<open>The editor's lists and code come back\<close>

definition plain_char :: "char \<Rightarrow> bool" where
  "plain_char c \<longleftrightarrow> c \<noteq> NL \<and> c \<noteq> CHR 0x0D \<and> c \<noteq> CHR ''`''"

text \<open>The text of an item: one trimmed line without back quotes.\<close>

definition plain_item :: "string \<Rightarrow> bool" where
  "plain_item s \<longleftrightarrow> trimmed s \<and> list_all plain_char s"

text \<open>A list as the editor holds it.\<close>

definition editor_list :: "bool \<Rightarrow> string list \<Rightarrow> JSONContent" where
  "editor_list ordered items =
     Node ''doc'' [] []
       [Node (if ordered then ''orderedList'' else ''bulletList'') [] []
         (map (\<lambda>t. Node ''listItem'' [] [] [Node ''paragraph'' [] [] [Node ''text'' t [] []]]) items)]"

definition editor_code :: "string \<Rightarrow> JSONContent" where
  "editor_code c = Node ''doc'' [] [] [Node ''codeBlock'' [] [] [Node ''text'' c [] []]]"

lemma js_ws_facts [simp]:
  "\<not> js_ws CHR ''-''" "\<not> js_ws CHR ''`''" "\<not> js_ws CHR ''>''" "js_ws CHR '' ''" "\<not> js_ws CHR ''.''" "js_ws NL"
  "\<not> js_ws CHR ''/''" "\<not> js_ws CHR ''h''"
  by (simp_all add: js_ws_def)

lemma digit_not_ws: "is_digit c \<Longrightarrow> \<not> js_ws c"
  by (auto simp: is_digit_def js_ws_def)

lemma trimEnd_id: "s \<noteq> [] \<Longrightarrow> \<not> js_ws (last s) \<Longrightarrow> trimEnd s = s"
  by (induction s rule: rev_induct) (auto simp: trimEnd_def)

lemma trim_Nil [simp]: "trim [] = []"
  by (simp add: trim_def trimStart_def trimEnd_def)

lemma trim_id: "trimmed s \<Longrightarrow> trim s = s"
  by (cases s) (auto simp: trimmed_def trim_def trimStart_def intro: trimEnd_id)

lemma item_re_rest:
  assumes "plain_item t"
  shows "first_is (Sqs [Plus Ws, Grp 1 (Plus Dot), Eol]) [] b ('' '' @ t) [(1, t)] (rev t @ CHR '' '' # b) []"
proof -
  have t: "t \<noteq> []" "\<not> js_ws (hd t)" "\<forall>c \<in> set t. c \<noteq> NL \<and> c \<noteq> CHR 0x0D"
    using assms by (auto simp: plain_item_def trimmed_def plain_char_def list_all_iff)
  have "first_is (Plus Ws) [] b ('' '' @ t) [] (rev '' '' @ b) t"
    unfolding Ws_def by (rule first_Plus) (use t in auto)
  moreover have "first_is (Plus Dot) [] (rev '' '' @ b) (t @ []) [] (rev t @ rev '' '' @ b) []"
    unfolding Dot_def by (rule first_Plus) (use t in auto)
  then have "first_is (Grp 1 (Plus Dot)) [] (rev '' '' @ b) t (jmap_set 1 t []) (rev t @ rev '' '' @ b) []"
    using first_Grp [of "Plus Dot" "[]" "rev '' '' @ b" t "[]" t "[]" 1] by simp
  ultimately show ?thesis using first_Eol by (simp only: Sqs.simps) (rule first_Sq, assumption, rule first_Sq, auto)
qed

lemma bullet_line:
  assumes "plain_item t"
  shows "re_group bullet_re 1 (''- '' @ t) = Some t"
proof -
  have "first_is (Sq (Cls ''-*'') (Sqs [Plus Ws, Grp 1 (Plus Dot), Eol])) [] [] (''- '' @ t) [(1, t)] (rev t @ '' -'') []"
    unfolding Cls_def using first_Sq [OF first_Ch item_re_rest [OF assms]] by simp
  moreover have "first_is (Star Ws) [] [] (''- '' @ t) [] [] (''- '' @ t)" by (simp add: first_is_def Ws_def star_none)
  ultimately have "first_is bullet_re [] [] (''- '' @ t) [(1, t)] (rev t @ '' -'') []"
    unfolding bullet_re_def Sqs.simps by (intro first_Sq [OF first_Bol] first_Sq [of "Star Ws"])
  then show ?thesis by (rule re_group_first) simp
qed

lemma ordered_line:
  assumes "plain_item t"
  shows "re_group bullet_re 1 (show_nat n @ ''. '' @ t) = None" "re_group ordered_re 1 (show_nat n @ ''. '' @ t) = Some t"
proof -
  obtain d ds where n: "show_nat n = d # ds" "is_digit d" using show_nat_digits [of n] by (cases "show_nat n") auto
  then have w: "rmatch (Star Ws) g b (show_nat n @ s) = [(g, b, show_nat n @ s)]" for g b s
    by (auto simp: Ws_def star_none digit_not_ws)
  have "d \<noteq> CHR ''-''" "d \<noteq> CHR ''*''" using n(2) by (auto simp: is_digit_def)
  then show "re_group bullet_re 1 (show_nat n @ ''. '' @ t) = None"
    unfolding bullet_re_def Sqs.simps by (intro re_group_Bol_None) (simp add: fails_def w, simp add: n Cls_def)
  have "first_is (Plus Digit) [] [] (show_nat n @ ''. '' @ t) [] (rev (show_nat n) @ []) (''. '' @ t)"
    unfolding Digit_def by (rule first_Plus) (use show_nat_digits in \<open>auto simp: is_digit_def\<close>)
  moreover have "first_is (Sq (Cls ''.)'') (Sqs [Plus Ws, Grp 1 (Plus Dot), Eol])) [] b (''. '' @ t) [(1, t)] (rev t @ '' .'' @ b) []" for b
    unfolding Cls_def using first_Sq [OF first_Ch item_re_rest [OF assms]] by simp
  moreover have "first_is (Star Ws) [] [] (show_nat n @ ''. '' @ t) [] [] (show_nat n @ ''. '' @ t)" by (simp add: first_is_def w)
  ultimately have "first_is ordered_re [] [] (show_nat n @ ''. '' @ t) [(1, t)] (rev t @ '' .'' @ rev (show_nat n) @ []) []"
    unfolding ordered_re_def Sqs.simps by (intro first_Sq [OF first_Bol] first_Sq [of "Star Ws"] first_Sq [of "Plus Digit"])
  then show "re_group ordered_re 1 (show_nat n @ ''. '' @ t) = Some t" by (rule re_group_first) simp
qed

definition item_line :: "bool \<Rightarrow> nat \<Rightarrow> string \<Rightarrow> string" where
  "item_line ordered i t = (if ordered then show_nat (i + 1) @ ''. '' @ t else ''- '' @ t)"

definition item_lines :: "bool \<Rightarrow> string list \<Rightarrow> string list" where
  "item_lines ordered items = map (\<lambda>i. item_line ordered i (items ! i)) [0..<length items]"

lemma number_items_lines: "number_items ordered items = join [NL] (item_lines ordered items)"
  unfolding number_items_def item_lines_def
  by (intro arg_cong [where f = "join [NL]"] nth_equalityI) (auto simp: item_line_def)

lemma editor_list_markdown:
  assumes "list_all plain_item items"
  shows "editorJsonToMarkdown (editor_list ordered items) = trim (number_items ordered items)"
proof -
  have t: "plain_item t \<Longrightarrow> trimEnd t = t \<and> trim t \<noteq> []" for t
    using trim_id [of t] trimEnd_id [of t] by (auto simp: plain_item_def trimmed_def)
  have e: "editorJsonToMarkdown (Node ''paragraph'' [] [] [Node ''text'' t [] []]) = t" for t
    by (simp add: editorJsonToMarkdown.simps join_children_def applyMarks_def)
  have items: "filter (\<lambda>item. trim item \<noteq> []) (map (\<lambda>t. list_item [t]) items) = items"
    using assms by (induction items) (auto simp: list_item_def continuation_def t)
  show ?thesis
    using items
    by (auto simp: editor_list_def editorJsonToMarkdown.simps [of "Node ''doc'' _ _ _"]
        editorJsonToMarkdown.simps [of "Node ''bulletList'' _ _ _"] editorJsonToMarkdown.simps [of "Node ''orderedList'' _ _ _"]
        serializeList.simps e comp_def join_children_def)
qed

lemma digit_chars: "is_digit c \<Longrightarrow> c \<noteq> NL \<and> c \<noteq> CHR ''`'' \<and> \<not> js_ws c"
  by (auto simp: is_digit_def js_ws_def)

lemma item_line_chars:
  assumes "plain_item t"
  shows "item_line ordered i t \<noteq> []" "trimmed (item_line ordered i t)"
    "NL \<notin> set (item_line ordered i t) \<and> CHR ''`'' \<notin> set (item_line ordered i t)"
proof -
  define n where "n = show_nat (i + 1)"
  have d: "\<forall>c \<in> set n. c \<noteq> NL \<and> c \<noteq> CHR ''`'' \<and> \<not> js_ws c"
    using show_nat_digits [of "i + 1"] digit_chars unfolding n_def by blast
  have ne: "n \<noteq> []" by (simp add: n_def)
  then have h: "\<not> js_ws (hd n)" using d hd_in_set by blast
  have l: "item_line ordered i t = (if ordered then n @ ''. '' @ t else ''- '' @ t)"
    by (simp add: item_line_def n_def)
  have t: "t \<noteq> []" "\<not> js_ws (last t)" "NL \<notin> set t" "CHR ''`'' \<notin> set t"
    using assms by (auto simp: plain_item_def trimmed_def plain_char_def list_all_iff)
  show "item_line ordered i t \<noteq> []" by (simp add: l)
  show "trimmed (item_line ordered i t)" using h t ne by (simp add: l trimmed_def)
  show "NL \<notin> set (item_line ordered i t) \<and> CHR ''`'' \<notin> set (item_line ordered i t)"
    using d t by (auto simp: l)
qed

lemma text_line_item:
  assumes "plain_item t"
  shows "text_line (item_line ordered i t) s = add_item (if ordered then OrderedType else BulletType) t s"
proof -
  have "trim (item_line ordered i t) \<noteq> []" using item_line_chars [OF assms] trim_id by simp
  then show ?thesis
    using bullet_line [OF assms] ordered_line [OF assms, of "i + 1"] by (auto simp: text_line_def item_line_def)
qed

definition list_state :: "list_type \<Rightarrow> string list \<Rightarrow> text_state" where
  "list_state ty xs = \<lparr>blocks = [], paragraph_lines = [], listType = Some ty, listItems = xs, quoteLines = []\<rparr>"

lemma add_item_state:
  "plain_item t \<Longrightarrow> add_item ty t (text_start []) = list_state ty [t]"
  "plain_item t \<Longrightarrow> add_item ty t (list_state ty xs) = list_state ty (xs @ [t])"
  by (simp_all add: add_item_def text_start_def list_state_def flushParagraph_def flushQuote_def plain_item_def trim_id Let_def)

lemma fold_item_lines:
  assumes "items \<noteq> []" "list_all plain_item items"
  shows "fold text_line (item_lines ordered items) (text_start []) =
    list_state (if ordered then OrderedType else BulletType) items"
  using assms
proof (induction items rule: rev_induct)
  case (snoc t items)
  have "item_lines ordered (items @ [t]) = item_lines ordered items @ [item_line ordered (length items) t]"
    by (auto simp: item_lines_def nth_append)
  then show ?case
    using snoc by (cases "items = []") (simp_all add: text_line_item add_item_state, simp add: item_lines_def add_item_state)
qed simp

lemma split_join:
  "ls \<noteq> [] \<Longrightarrow> \<forall>l \<in> set ls. d \<notin> set l \<Longrightarrow> split_on d (join [d] ls) = ls"
proof (induction ls rule: induct_list012)
  case (2 w)
  then show ?case by (induction w) auto
next
  case (3 w v ws)
  have "d \<notin> set w \<Longrightarrow> split_on d (w @ d # s) = w # split_on d s" for s by (induction w) auto
  then show ?case using 3 by simp
qed simp

lemma join_ends:
  "ls \<noteq> [] \<Longrightarrow> \<forall>l \<in> set ls. l \<noteq> [] \<Longrightarrow> join sep ls \<noteq> [] \<and> hd (join sep ls) = hd (hd ls) \<and> last (join sep ls) = last (last ls)"
  by (induction ls rule: induct_list012) auto

lemma set_join: "set (join sep ls) \<subseteq> set sep \<union> (\<Union>l \<in> set ls. set l)"
  by (induction ls rule: induct_list012) auto

lemma no_fence: "CHR ''`'' \<notin> set a \<Longrightarrow> scan fencePattern b a = None"
proof -
  obtain r where r: "fencePattern = Sq (Ch (\<lambda>x. x \<in> set ''`'')) r" using fencePattern_starts by blast
  show "CHR ''`'' \<notin> set a \<Longrightarrow> scan fencePattern b a = None" unfolding r by (induction a arbitrary: b) auto
qed

lemma parse_loop_Nil: "parse_loop bs b [] = bs"
  by (subst parse_loop.simps) (simp add: no_fence del: scan.simps)

lemma dropWhile_id: "xs = [] \<or> \<not> P (hd xs) \<Longrightarrow> dropWhile P xs = xs"
  by (cases xs) auto

lemma strip_newlines_id: "s = [] \<or> hd s \<noteq> NL \<and> last s \<noteq> NL \<Longrightarrow> strip_newlines s = s"
  using dropWhile_id [of s "\<lambda>c. c = NL"] dropWhile_id [of "rev s" "\<lambda>c. c = NL"]
  by (auto simp: strip_newlines_def hd_rev)

lemma not_ws_not_NL: "\<not> js_ws c \<Longrightarrow> c \<noteq> NL"
  by auto

text \<open>
  C26: a list written in the editor, numbered or not, with at least one item of which each is one trimmed
  line without back quotes, becomes Markdown that the parser reads back as the same list.
\<close>

theorem editor_list_round_trip:
  assumes "items \<noteq> []" "list_all plain_item items"
  shows "parseMessageBlocks (editorJsonToMarkdown (editor_list ordered items)) =
    [if ordered then OrderedList items else BulletList items]"
proof -
  define ls where "ls = item_lines ordered items"
  define body where "body = join [NL] ls"
  have ls: "\<forall>l \<in> set ls. l \<noteq> [] \<and> trimmed l \<and> NL \<notin> set l \<and> CHR ''`'' \<notin> set l" "ls \<noteq> []"
    using assms item_line_chars by (auto simp: ls_def item_lines_def list_all_length)
  then have ends: "body \<noteq> []" "hd body = hd (hd ls)" "last body = last (last ls)"
    using join_ends [of ls "[NL]"] by (auto simp: body_def)
  then have tr: "trimmed body" using ls by (simp add: trimmed_def)
  have q: "CHR ''`'' \<notin> set body" using set_join [of "[NL]" ls] ls(1) by (auto simp: body_def)
  have sn: "strip_newlines body = body"
    using tr by (intro strip_newlines_id) (auto simp: trimmed_def dest: not_ws_not_NL)
  have sp: "split_on NL body = ls" using ls by (simp add: body_def split_join)
  have "editorJsonToMarkdown (editor_list ordered items) = body"
    using editor_list_markdown [OF assms(2)] trim_id [OF tr] by (simp add: number_items_lines body_def ls_def)
  moreover have "parse_loop [] [] body = [if ordered then OrderedList items else BulletList items]"
    using ends(1) fold_item_lines [OF assms, of ordered] assms(1)
    by (simp add: parse_loop.simps no_fence [OF q] appendTextBlocks_def sn sp ls_def flushAll_def list_state_def
        flushParagraph_def flushList_def flushQuote_def list_block_def Let_def)
  ultimately show ?thesis by (simp add: parseMessageBlocks_def pop_spacers_def)
qed

theorem editor_list_round_trip_witness:
  "parseMessageBlocks (editorJsonToMarkdown (editor_list True [''read ch. 2'', ''- push''])) =
     [OrderedList [''read ch. 2'', ''- push'']]"
proof -
  have "list_all plain_item [''read ch. 2'', ''- push'']"
    by (simp add: plain_item_def trimmed_def plain_char_def js_ws_def)
  then show ?thesis using editor_list_round_trip [of "[''read ch. 2'', ''- push'']" True] by simp
qed

lemma rmatch_Grp_Sq:
  "rmatch (Sq (Grp n r) s) g b a =
     concat (map (\<lambda>(g', b', a'). rmatch s (jmap_set n (rev (take (length b' - length b) b')) g') b' a') (rmatch r g b a))"
  by (simp add: comp_def case_prod_unfold)

lemma code_rest:
  assumes "CHR ''`'' \<notin> set c"
  shows "first_is (Sq (Grp 2 (LazyStar Any)) (Or (Lit ''```'') Eol)) g b (c @ ''```'')
    (jmap_set 2 c g) (''```'' @ rev c @ b) []"
proof -
  define k where "k = (\<lambda>(g', b', a'). rmatch (Or (Lit ''```'') Eol)
    (jmap_set 2 (rev (take (length b' - length b) b')) g') b' a')"
  have "k (g, rev u @ b, v @ ''```'') = []" if "c = u @ v" "v \<noteq> []" for u v
    using that assms by (cases v) (auto simp: k_def)
  moreover have "k (g, rev c @ b, ''```'') = [(jmap_set 2 c g, ''```'' @ rev c @ b, [])]" by (simp add: k_def)
  ultimately have "\<exists>ns. concat (map k (rmatch (LazyStar (Ch (\<lambda>x. True))) g b (c @ ''```''))) =
      (jmap_set 2 c g, ''```'' @ rev c @ b, []) # ns"
    by (rule first_lazy)
  then show ?thesis unfolding first_is_def Any_def rmatch_Grp_Sq k_def .
qed

lemma code_fence:
  assumes "CHR ''`'' \<notin> set c"
  shows "first_is fencePattern [] [] (''```'' @ [NL] @ c @ [NL] @ ''```'') [(1, []), (2, c @ [NL])]
    (rev (''```'' @ [NL] @ c @ [NL] @ ''```'')) []"
proof -
  have quotes: "first_is (Cls ''`'') [] [] (''```'' @ r) [] ''`'' (''``'' @ r)" "first_is (Lit ''``'') [] ''`'' (''``'' @ r) [] ''```'' r" for r
    by (simp_all add: first_is_def Cls_def)
  have lang: "first_is (Grp 1 (Star (NotCls [NL, CHR ''`'']))) [] ''```'' ([NL] @ r) [(1, [])] ''```'' ([NL] @ r)" for r
    by (simp add: first_is_def NotCls_def star_none)
  have newline: "first_is (Opt (Lit [NL])) [(1, [])] ''```'' ([NL] @ r) [(1, [])] (NL # ''```'') r" for r
    by (simp add: first_is_def Opt_def)
  have rest: "first_is (Sq (Grp 2 (LazyStar Any)) (Or (Lit ''```'') Eol)) [(1, [])] (NL # ''```'') ((c @ [NL]) @ ''```'')
      (jmap_set 2 (c @ [NL]) [(1, [])]) (''```'' @ rev (c @ [NL]) @ NL # ''```'') []"
    using assms by (intro code_rest) simp
  have "first_is fencePattern [] [] (''```'' @ [NL] @ (c @ [NL]) @ ''```'')
      (jmap_set 2 (c @ [NL]) [(1, [])]) (''```'' @ rev (c @ [NL]) @ NL # ''```'') []"
    unfolding fencePattern_def Sqs.simps by (rule rest first_Sq quotes lang newline)+
  then show ?thesis by simp
qed

text \<open>
  Code written in the editor's code block comes back from the parser as one code block with the same
  text and no language, if it has no back quote and no line feed at its ends.
\<close>

theorem editor_code_round_trip:
  assumes "CHR ''`'' \<notin> set c" "c = [] \<or> hd c \<noteq> NL \<and> last c \<noteq> NL"
  shows "parseMessageBlocks (editorJsonToMarkdown (editor_code c)) = [Code c []]"
proof -
  define body where "body = ''```'' @ [NL] @ c @ [NL] @ ''```''"
  have "trim body = body" by (rule trim_id) (simp add: body_def trimmed_def)
  then have "editorJsonToMarkdown (editor_code c) = body"
    by (simp add: editor_code_def editorJsonToMarkdown.simps join_children_def applyMarks_def body_def)
  moreover have "scan fencePattern [] body = Some ([(1, []), (2, c @ [NL])], [], rev body, [])"
    unfolding body_def by (rule scan_first [OF code_fence [OF assms(1)]])
  then have "parse_loop [] [] body = [Code (strip_newlines (c @ [NL])) []]"
    by (simp add: parse_loop.simps [of "[]" "[]" body] parse_loop_Nil group_text_def)
  moreover have "strip_newlines (c @ [NL]) = strip_newlines c"
    using assms(2) by (cases c) (auto simp: strip_newlines_def)
  ultimately show ?thesis using strip_newlines_id [OF assms(2)] by (simp add: parseMessageBlocks_def pop_spacers_def)
qed

theorem editor_code_round_trip_witness:
  "parseMessageBlocks (editorJsonToMarkdown (editor_code (''- a'' @ [NL, NL] @ ''> b''))) = [Code (''- a'' @ [NL, NL] @ ''> b'') []]"
  using editor_code_round_trip [of "''- a'' @ [NL, NL] @ ''> b''"] by simp

end
