(* ===== verification/Message_Text.thy ===== *)
theory Message_Text
  imports Message_Format
begin

text \<open>
  Previews and links of a message: \<^verbatim>\<open>preview\<close>, \<^verbatim>\<open>normalizeLinkHref\<close> and
  \<^verbatim>\<open>splitTrailingUrlPunctuation\<close> of \<^verbatim>\<open>web/src/pages/shared/Messages.tsx\<close>, and \<^verbatim>\<open>plainMessageText\<close>,
  \<^verbatim>\<open>messagePreview\<close>, \<^verbatim>\<open>normalizeMessageLink\<close> and \<^verbatim>\<open>splitTrailingUrlPunctuation\<close> of
  \<^verbatim>\<open>mobile/src/lib/message-format.ts\<close>. The platform's URL parser is the parameter \<open>url\<close>.
\<close>

section \<open>Patterns\<close>

definition is_word :: "char \<Rightarrow> bool" where
  "is_word c \<longleftrightarrow> c \<in> set ''abcdefghijklmnopqrstuvwxyzABCDEFGHIJKLMNOPQRSTUVWXYZ0123456789_''"

definition lower_alnum :: "char \<Rightarrow> bool" where
  "lower_alnum c \<longleftrightarrow> lower_char c \<in> set ''abcdefghijklmnopqrstuvwxyz0123456789''"

text \<open>A literal under the flag \<^verbatim>\<open>i\<close>.\<close>

fun LitI :: "string \<Rightarrow> re" where
  "LitI [] = Emp"
| "LitI (c # s) = Sq (Ch (\<lambda>x. lower_char x = lower_char c)) (LitI s)"

text \<open>A text between two equal marks: \<^verbatim>\<open>/\*\*([^*]+)\*\*/\<close> and the like.\<close>

definition between :: "string \<Rightarrow> re" where
  "between m = Sqs [Lit m, Grp 1 (Plus (NotCls [hd m])), Lit m]"

definition link_re :: re where
  "link_re = Sqs [Lit ''['', Grp 1 (Plus (NotCls '']'')), Lit ''](''  , Grp 2 (Plus (NotCls '')'')), Lit '')'']"

definition quote_mark_re :: re where "quote_mark_re = Sqs [BolM, Star Ws, Lit ''>'', Opt Ws]"
definition bullet_mark_re :: re where "bullet_mark_re = Sqs [BolM, Star Ws, Cls ''-*'', Plus Ws]"
definition number_mark_re :: re where "number_mark_re = Sqs [BolM, Star Ws, Plus Digit, Cls ''.)'', Plus Ws]"
definition fence_mark_re :: re where
  "fence_mark_re = Sqs [Lit ''```'', Star (Ch (\<lambda>c. is_word c \<or> c = CHR ''-'')), Opt (Lit [NL])]"
definition ticks_re :: re where "ticks_re = Sqs [Lit ''`'', UpTo 2 (Lit ''`'')]"

section \<open>Previews\<close>

definition strip_marks :: "string \<Rightarrow> string" where
  "strip_marks s =
     re_replace (between ''++'') (by_group 1)
       (re_replace (between ''~~'') (by_group 1)
         (re_replace (between ''_'') (by_group 1)
           (re_replace (between ''**'') (by_group 1) s)))"

definition strip_prefixes :: "string \<Rightarrow> string" where
  "strip_prefixes s =
     trim (re_replace (Plus Ws) (by_text '' '')
       (re_replace number_mark_re (by_text [])
         (re_replace bullet_mark_re (by_text [])
           (re_replace quote_mark_re (by_text []) s))))"

definition strip_fences :: "string \<Rightarrow> string" where
  "strip_fences s = re_replace (Lit ''```'') (by_text []) (re_replace fence_mark_re (by_text []) s)"

text \<open>The web page's preview.\<close>

definition preview :: "string \<Rightarrow> string" where
  "preview t =
     (let s = strip_fences (if t \<noteq> [] then t else ''Attachment'');
          s = re_replace ticks_re (by_text []) s;
          s = re_replace link_re (by_group 1) s;
          s = re_replace (between ''`'') (by_group 1) s;
          fallback = strip_prefixes (strip_marks s)
      in if length fallback > 80 then slice fallback 0 77 @ ''...'' else fallback)"

definition plainMessageText :: "string \<Rightarrow> string \<Rightarrow> string" where
  "plainMessageText body fallback =
     (let s = strip_fences (if body \<noteq> [] then body else fallback);
          s = re_replace link_re (by_group 1) s;
          s = re_replace (between ''`'') (by_group 1) s;
          s = re_replace ticks_re (by_text []) s;
          v = strip_prefixes (strip_marks s)
      in if v \<noteq> [] then v else fallback)"

definition messagePreview :: "string \<Rightarrow> int \<Rightarrow> string \<Rightarrow> string" where
  "messagePreview body maxLength fallback =
     (let v = plainMessageText body fallback
      in if maxLength \<le> 0 \<or> int (length v) \<le> maxLength then v
         else trimEnd (slice v 0 (nat (max 0 (maxLength - 3)))) @ ''...'')"

section \<open>Links\<close>

definition domain_label :: re where
  "domain_label =
     Sq (Ch lower_alnum) (Opt (Sq (UpTo 61 (Ch (\<lambda>c. lower_alnum c \<or> c = CHR ''-''))) (Ch lower_alnum)))"

definition bare_domain_re :: re where
  "bare_domain_re =
     Sqs [Bol, Grp 1 (Sq domain_label (Plus (Sq (Lit ''.'') domain_label))), Opt (Grp 2 (Sq (Cls ''/?#'') (Star Dot))), Eol]"

definition tld_re :: re where
  "tld_re =
     (let l = Cls ''abcdefghijklmnopqrstuvwxyz'' in Sqs [Bol, l, l, UpTo 22 l, Eol])"

definition tld_of :: "string \<Rightarrow> string" where
  "tld_of domain = toLowerCase (last (split_on CHR ''.'' domain))"

definition web_file_extensions :: "string list" where
  "web_file_extensions =
     [''css'', ''gif'', ''htm'', ''html'', ''jpeg'', ''jpg'', ''js'', ''json'', ''md'', ''pdf'', ''php'', ''png'', ''py'',
      ''rb'', ''svg'', ''ts'', ''tsx'', ''txt'', ''webp'', ''yaml'', ''yml'', ''zip'']"

definition mobile_file_extensions :: "string list" where
  "mobile_file_extensions =
     [''css'', ''csv'', ''doc'', ''docx'', ''gif'', ''html'', ''jpeg'', ''jpg'', ''js'', ''json'', ''md'', ''pdf'', ''php'',
      ''png'', ''py'', ''rb'', ''svg'', ''ts'', ''tsx'', ''txt'', ''webp'', ''yaml'', ''yml'', ''zip'']"

definition bare_domain_ok :: "string list \<Rightarrow> string \<Rightarrow> bool" where
  "bare_domain_ok exts t =
     (case re_group bare_domain_re 1 t of
        None \<Rightarrow> False
      | Some d \<Rightarrow> re_test tld_re (tld_of d) \<and> tld_of d \<notin> set exts)"

definition http_re :: re where
  "http_re = Sqs [Bol, LitI ''http'', Opt (LitI ''s''), LitI ''://'']"

definition mail_or_http_re :: re where
  "mail_or_http_re = Sqs [Bol, Or (Sqs [LitI ''http'', Opt (LitI ''s''), LitI ''://'']) (LitI ''mailto:'')]"

definition www_re :: re where "www_re = Sqs [Bol, LitI ''www.'']"

definition mailto_re :: re where
  "mailto_re =
     (let c = Plus (Ch (\<lambda>x. \<not> js_ws x \<and> x \<noteq> CHR ''@''))
      in Sqs [Bol, LitI ''mailto:'', c, Lit ''@'', c, Eol])"

definition normalizeLinkHref :: "string \<Rightarrow> string" where
  "normalizeLinkHref v =
     (let t = trim v
      in if t = [] then []
         else if re_test mail_or_http_re t then t
         else if re_test www_re t then ''https://'' @ t
         else if \<not> bare_domain_ok web_file_extensions t then []
         else ''https://'' @ t)"

text \<open>
  The mobile function calls itself on the address with \<^verbatim>\<open>https://\<close> in front. \<open>url\<close> is \<^verbatim>\<open>new URL\<close>: \<^verbatim>\<open>protocol\<close>
  and \<^verbatim>\<open>toString()\<close>, or nothing when it throws.
\<close>

type_synonym url_parser = "string \<Rightarrow> (string \<times> string) option"

lemma trim_https: "trim (''https://'' @ t) = ''https://'' @ trimEnd t"
proof -
  have "dropWhile js_ws (rev t @ rev ''https://'') = dropWhile js_ws (rev t) @ rev ''https://''"
    by (induction "rev t") (auto simp: dropWhile_append js_ws_def)
  then have "trimEnd (''https://'' @ t) = ''https://'' @ trimEnd t" by (simp add: trimEnd_def)
  moreover have "trimStart (''https://'' @ t) = ''https://'' @ t" by (simp add: trimStart_def js_ws_def)
  ultimately show ?thesis by (simp add: trim_def)
qed

lemma http_re_https: "re_test http_re (trim (''https://'' @ t))"
  unfolding trim_https http_re_def by (simp add: re_test_Bol Opt_def)

function normalizeMessageLink :: "url_parser \<Rightarrow> string \<Rightarrow> string option" where
  "normalizeMessageLink url v =
     (let t = trim v
      in if t = [] then None
         else if re_test mailto_re t then Some t
         else if re_test http_re t then
           (case url t of
              None \<Rightarrow> None
            | Some (protocol, href) \<Rightarrow> if protocol = ''https:'' \<or> protocol = ''http:'' then Some href else None)
         else if re_test www_re t then normalizeMessageLink url (''https://'' @ t)
         else if \<not> bare_domain_ok mobile_file_extensions t then None
         else normalizeMessageLink url (''https://'' @ t))"
  by pat_completeness auto
termination
  by (relation "measure (\<lambda>(_, v). if re_test http_re (trim v) then 0 else 1)") (auto simp: http_re_https [simplified])

declare normalizeMessageLink.simps [simp del]

text \<open>The loop takes marks from the end; the first argument is the address reversed.\<close>

fun take_punctuation :: "string \<Rightarrow> string \<Rightarrow> string \<times> string" where
  "take_punctuation [] trailing = ([], trailing)"
| "take_punctuation (c # r) trailing =
     (if c \<in> set ''.,!?;:'' then take_punctuation r (c # trailing) else (rev (c # r), trailing))"

definition splitTrailingUrlPunctuation :: "string \<Rightarrow> string \<times> string" where
  "splitTrailingUrlPunctuation v =
     (let (href, trailing) = take_punctuation (rev v) []
      in if endsWith href '')'' \<and> \<not> str_includes href ''('' then (butlast href, CHR '')'' # trailing)
         else (href, trailing))"

section \<open>Previews fit and are one line\<close>

definition one_line :: "string \<Rightarrow> bool" where
  "one_line s \<longleftrightarrow> {c \<in> set s. js_ws c} \<subseteq> {CHR '' ''}"

lemma one_line_subset: "one_line s \<Longrightarrow> set t \<subseteq> set s \<Longrightarrow> one_line t"
  by (auto simp: one_line_def)

lemma one_line_append [simp]: "one_line (s @ t) \<longleftrightarrow> one_line s \<and> one_line t"
  by (auto simp: one_line_def)

lemma one_line_dots [simp]: "one_line ''...''" "one_line '' ''"
  by (auto simp: one_line_def)

lemma rmatch_Star_not_Nil: "rmatch (Star r) g b a \<noteq> []"
  by (subst rmatch.simps) simp

lemma collapse_step: "rmatch (Plus Ws) [] b (x # a) = [] \<Longrightarrow> \<not> js_ws x"
  using rmatch_Star_not_Nil by (auto simp: Plus_def Ws_def split: if_splits)

lemma one_line_Cons [simp]: "one_line (x # s) \<longleftrightarrow> (js_ws x \<longrightarrow> x = CHR '' '') \<and> one_line s"
  by (auto simp: one_line_def)

lemma one_line_Nil [simp]: "one_line []"
  by (simp add: one_line_def)

lemma plus_shorter: "rmatch (Plus Ws) [] b a = (g, b', a') # ms \<Longrightarrow> length a' < length a"
  using rmatch_min_len [of g b' a' "Plus Ws" "[]" b a] by (simp add: Plus_def Ws_def)

lemma collapse_one_line: "one_line (replace_from (Plus Ws) (by_text '' '') b a)"
proof (induction "Plus Ws" "by_text '' ''" b a rule: replace_from.induct)
  case (1 b a)
  show ?case
  proof (cases "rmatch (Plus Ws) [] b a")
    case Nil
    then show ?thesis using 1 collapse_step by (cases a; subst replace_from.simps) auto
  next
    case (Cons m ms)
    obtain g b' a' where m: "m = (g, b', a')" by (cases m)
    have "length a' < length a" using Cons m by (intro plus_shorter) simp
    then show ?thesis
      using 1(2) [OF Cons m [symmetric] refl] Cons m by (subst replace_from.simps) (simp add: by_text_def)
  qed
qed

lemma set_trimEnd: "set (trimEnd s) \<subseteq> set s"
  unfolding trimEnd_def by (auto dest: set_dropWhileD)

lemma set_trim: "set (trim s) \<subseteq> set s"
  unfolding trim_def trimStart_def using set_trimEnd by (fastforce dest: set_dropWhileD)

lemma strip_prefixes_one_line: "one_line (strip_prefixes s)"
  unfolding strip_prefixes_def re_replace_def by (rule one_line_subset [OF collapse_one_line set_trim])

lemma slice_front: "set (slice s 0 n) \<subseteq> set s" "length (slice s 0 n) \<le> n"
  by (auto simp: slice_def dest: in_set_takeD)

lemma length_trimEnd: "length (trimEnd s) \<le> length s"
  using length_dropWhile_le [of js_ws "rev s"] by (simp add: trimEnd_def)

text \<open>A preview on the web page has at most 80 characters, and a space is its only white space.\<close>

theorem preview_bounds: "length (preview t) \<le> 80 \<and> one_line (preview t)"
proof -
  define f where "f = strip_prefixes (strip_marks (re_replace (between ''`'') (by_group 1) (re_replace link_re (by_group 1)
    (re_replace ticks_re (by_text []) (strip_fences (if t \<noteq> [] then t else ''Attachment''))))))"
  have "preview t = (if length f > 80 then slice f 0 77 @ ''...'' else f)"
    by (simp add: preview_def f_def Let_def)
  moreover have "one_line f" unfolding f_def by (rule strip_prefixes_one_line)
  moreover have "one_line (slice f 0 77)" by (rule one_line_subset [OF \<open>one_line f\<close> slice_front(1)])
  ultimately show ?thesis using slice_front(2) [of f 77] by auto
qed

lemma plainMessageText_one_line: "one_line fallback \<Longrightarrow> one_line (plainMessageText body fallback)"
  by (simp add: plainMessageText_def Let_def strip_prefixes_one_line)

text \<open>
  C27: the mobile preview with a limit of at least three characters keeps that limit; it is one line if the
  fallback is; and it is the whole text of the message when that fits.
\<close>

theorem messagePreview_bounds:
  assumes "3 \<le> n" "one_line fallback"
  shows "int (length (messagePreview body n fallback)) \<le> n \<and> one_line (messagePreview body n fallback) \<and>
    (if int (length (plainMessageText body fallback)) \<le> n then messagePreview body n fallback = plainMessageText body fallback
     else endsWith (messagePreview body n fallback) ''...'')"
proof -
  define v where "v = plainMessageText body fallback"
  define cut where "cut = trimEnd (slice v 0 (nat (max 0 (n - 3))))"
  have m: "messagePreview body n fallback = (if int (length v) \<le> n then v else cut @ ''...'')"
    using assms(1) by (simp add: messagePreview_def v_def cut_def Let_def)
  have v: "one_line v" unfolding v_def by (rule plainMessageText_one_line [OF assms(2)])
  have "length cut \<le> nat (n - 3)"
    using length_trimEnd [of "slice v 0 (nat (n - 3))"] slice_front(2) [of v "nat (n - 3)"] assms(1) by (simp add: cut_def)
  then have "int (length cut) + 3 \<le> n" using assms(1) by simp
  moreover have "one_line cut"
    unfolding cut_def by (rule one_line_subset [OF v subset_trans [OF set_trimEnd slice_front(1)]])
  ultimately show ?thesis using v by (auto simp: m v_def endsWith_iff)
qed

theorem messagePreview_bounds_witness:
  "int (length (messagePreview ''**Hi** all'' 5 ''Attachment'')) \<le> 5 \<and> one_line (messagePreview ''**Hi** all'' 5 ''Attachment'')"
  using messagePreview_bounds [of 5 "''Attachment''" "''**Hi** all''"] by (simp add: js_ws_def)

section \<open>Links are web addresses or mail addresses\<close>

text \<open>An address that a tap may open: the scheme is \<^verbatim>\<open>http\<close>, \<^verbatim>\<open>https\<close> or \<^verbatim>\<open>mailto\<close>, in any case.\<close>

definition safe_href :: "string \<Rightarrow> bool" where
  "safe_href h \<longleftrightarrow>
     startsWith (toLowerCase h) ''http:'' \<or> startsWith (toLowerCase h) ''https:'' \<or> startsWith (toLowerCase h) ''mailto:''"

lemma LitI_match:
  "m \<in> set (rmatch (LitI p) g b a) \<Longrightarrow> \<exists>w. a = w @ snd (snd m) \<and> map lower_char w = map lower_char p"
proof (induction p arbitrary: b a)
  case (Cons c p)
  then obtain x a' where a: "a = x # a'" "lower_char x = lower_char c" "m \<in> set (rmatch (LitI p) g (x # b) a')"
    by (auto split: list.splits if_splits)
  from Cons(1) [OF a(3)] obtain w where "a' = w @ snd (snd m)" "map lower_char w = map lower_char p" by blast
  then show ?case using a by (intro exI [of _ "x # w"]) simp
qed auto

lemma LitI_starts: "m \<in> set (rmatch (LitI p) g b a) \<Longrightarrow> map lower_char p = p \<Longrightarrow> \<exists>r. toLowerCase a = p @ r"
  using LitI_match [of m p g b a] by (auto simp: toLowerCase_def)

lemma lower_consts [simp]:
  "lower_char CHR '':'' = CHR '':''" "lower_char CHR ''/'' = CHR ''/''" "lower_char CHR ''h'' = CHR ''h''"
  "lower_char CHR ''t'' = CHR ''t''" "lower_char CHR ''p'' = CHR ''p''" "lower_char CHR ''s'' = CHR ''s''"
  "lower_char CHR ''m'' = CHR ''m''" "lower_char CHR ''a'' = CHR ''a''" "lower_char CHR ''i'' = CHR ''i''"
  "lower_char CHR ''l'' = CHR ''l''" "lower_char CHR ''o'' = CHR ''o''"
  by (simp_all add: lower_char_def)

lemma http_match:
  assumes "rmatch (Sqs [LitI ''http'', Opt (LitI ''s''), LitI ''://'']) [] [] s \<noteq> []"
  shows "startsWith (toLowerCase s) ''http:'' \<or> startsWith (toLowerCase s) ''https:''"
  using assms
  by (auto simp: startsWith_iff toLowerCase_def Opt_def split: list.splits if_splits)

lemma LitI_starts_ne: "rmatch (LitI p) g b s \<noteq> [] \<Longrightarrow> map lower_char p = p \<Longrightarrow> startsWith (toLowerCase s) p"
  using LitI_starts [of _ p g b s] by (cases "rmatch (LitI p) g b s") (auto simp: startsWith_iff)

lemma mailto_match: "rmatch (LitI ''mailto:'') [] [] s \<noteq> [] \<Longrightarrow> startsWith (toLowerCase s) ''mailto:''"
  by (rule LitI_starts_ne) simp_all

lemma mail_or_http_safe: "re_test mail_or_http_re t \<Longrightarrow> safe_href t"
proof -
  assume "re_test mail_or_http_re t"
  then have "rmatch (Sqs [LitI ''http'', Opt (LitI ''s''), LitI ''://'']) [] [] t \<noteq> [] \<or> rmatch (LitI ''mailto:'') [] [] t \<noteq> []"
    by (simp only: mail_or_http_re_def Sqs.simps re_test_Bol rmatch.simps(4) append_is_Nil_conv) blast
  then show ?thesis unfolding safe_href_def using http_match [of t] mailto_match [of t] by blast
qed

lemma https_safe: "safe_href (''https://'' @ t)"
  by (simp add: safe_href_def startsWith_def toLowerCase_def)

lemma normalizeLinkHref_safe: "normalizeLinkHref v \<noteq> [] \<Longrightarrow> safe_href (normalizeLinkHref v)"
  using https_safe by (auto simp: normalizeLinkHref_def Let_def mail_or_http_safe split: if_splits)

lemma mailto_re_safe:
  assumes "re_test mailto_re t"
  shows "safe_href t"
proof -
  have "rmatch (LitI ''mailto:'') [] [] t \<noteq> []"
    using assms unfolding mailto_re_def Let_def Sqs.simps re_test_Bol by (auto simp del: LitI.simps)
  then show ?thesis unfolding safe_href_def using mailto_match by blast
qed

text \<open>What the code relies on of \<^verbatim>\<open>new URL\<close>: the text of an address starts with its protocol.\<close>

definition url_prints_protocol :: "url_parser \<Rightarrow> bool" where
  "url_prints_protocol url \<longleftrightarrow> (\<forall>s p h. url s = Some (p, h) \<longrightarrow> startsWith h p)"

lemma protocol_safe:
  assumes "url_prints_protocol url" "url s = Some (p, h)" "p = ''https:'' \<or> p = ''http:''"
  shows "safe_href h"
  using assms by (fastforce simp: url_prints_protocol_def startsWith_iff safe_href_def toLowerCase_def)

lemma normalizeMessageLink_safe:
  assumes "url_prints_protocol url" "normalizeMessageLink url v = Some h"
  shows "safe_href h"
  using assms
proof (induction url v rule: normalizeMessageLink.induct)
  case (1 url v)
  note eq = 1(4) [unfolded normalizeMessageLink.simps [of url v] Let_def]
  show ?case
  proof (cases "trim v = [] \<or> re_test mailto_re (trim v)")
    case True
    then show ?thesis using eq mailto_re_safe by (auto split: if_splits)
  next
    case False
    show ?thesis
    proof (cases "re_test http_re (trim v)")
      case True
      then show ?thesis
        using eq False protocol_safe [OF 1(3)] by (auto split: option.splits if_splits)
    next
      case False': False
      then show ?thesis using eq False 1(1) [OF refl] 1(2) [OF refl] 1(3) by (auto split: if_splits)
    qed
  qed
qed

section \<open>Marks after an address\<close>

lemma take_punctuation_append: "take_punctuation r t = (h, t') \<Longrightarrow> h @ t' = rev r @ t"
  by (induction r t rule: take_punctuation.induct) (auto split: if_splits)

lemma take_punctuation_end: "take_punctuation r t = (h, t') \<Longrightarrow> h = [] \<or> last h \<notin> set ''.,!?;:''"
  by (induction r t rule: take_punctuation.induct) (auto split: if_splits simp: last_rev)

lemma take_punctuation_marks: "take_punctuation r t = (h, t') \<Longrightarrow> set t \<subseteq> set ''.,!?;:'' \<Longrightarrow> set t' \<subseteq> set ''.,!?;:''"
  by (induction r t rule: take_punctuation.induct) (auto split: if_splits)

lemma str_includes_char: "str_includes s [c] \<longleftrightarrow> c \<in> set s"
  by (induction s) (auto simp: startsWith_def)

text \<open>
  An address in a sentence is cut in two without loss. What follows it holds only the marks
  \<open>. , ! ? ; :\<close> and at most one closing parenthesis, in front, which is not taken from an address that opens one.
\<close>

theorem splitTrailingUrlPunctuation_cuts:
  assumes "splitTrailingUrlPunctuation v = (href, trailing)"
  shows "href @ trailing = v \<and>
     (\<exists>p marks. trailing = p @ marks \<and> p \<in> {[], '')''} \<and> set marks \<subseteq> set ''.,!?;:'' \<and>
        (p = '')'' \<longrightarrow> CHR ''('' \<notin> set href))"
proof -
  obtain h t where ht: "take_punctuation (rev v) [] = (h, t)" by fastforce
  have v: "h @ t = v" and m: "set t \<subseteq> set ''.,!?;:''"
    using take_punctuation_append [OF ht] take_punctuation_marks [OF ht] by auto
  show ?thesis
  proof (cases "endsWith h '')'' \<and> \<not> str_includes h ''(''")
    case True
    then obtain q where q: "h = q @ '')''" "CHR ''('' \<notin> set q" by (auto simp: endsWith_iff str_includes_char)
    then have "href = q" "trailing = '')'' @ t" using assms True by (auto simp: splitTrailingUrlPunctuation_def ht)
    then show ?thesis using v m q by (intro conjI exI [of _ "'')''"] exI [of _ t]) auto
  next
    case False
    then have "href = h" "trailing = t" using assms by (auto simp: splitTrailingUrlPunctuation_def ht)
    then show ?thesis using v m by (intro conjI exI [of _ "[]"] exI [of _ t]) auto
  qed
qed

theorem splitTrailingUrlPunctuation_cuts_witness:
  "splitTrailingUrlPunctuation ''www.a.gu).'' = (''www.a.gu'', '').'') \<and> ''www.a.gu'' @ '').'' = ''www.a.gu).''"
proof -
  have "splitTrailingUrlPunctuation ''www.a.gu).'' = (''www.a.gu'', '').'')"
    by (simp add: splitTrailingUrlPunctuation_def endsWith_def startsWith_def)
  then show ?thesis using splitTrailingUrlPunctuation_cuts [of "''www.a.gu).''"] by blast
qed

end
