(* ===== verification/Mentions.thy ===== *)
theory Mentions
  imports Message_Text
begin

text \<open>
  Mentions of people in a message: the functions of \<^verbatim>\<open>web/src/pages/shared/Messages.tsx\<close> (lines 363 to 509, and the
  suggestion list of the composer) and \<^verbatim>\<open>mobile/src/lib/mentions.ts\<close>. Names are matched without regard to case.
  The curly quotes that the patterns also list lie outside the characters of the model.
\<close>

record person =
  person_id :: int
  full_name :: string
  email :: string

section \<open>Web: which people a body mentions\<close>

definition stripMentionLabel :: "string \<Rightarrow> string" where
  "stripMentionLabel v = toLowerCase (trim (if startsWith v ''@'' then drop 1 v else v))"

definition isMentionStartBoundary :: "string \<Rightarrow> nat \<Rightarrow> bool" where
  "isMentionStartBoundary t i \<longleftrightarrow>
     (if i = 0 then True
      else i \<le> length t \<and> (js_ws (t ! (i - 1)) \<or> t ! (i - 1) \<in> set ''([{>'' \<or> t ! (i - 1) = CHR 0x27 \<or> t ! (i - 1) = CHR 0x22))"

definition end_char :: "char \<Rightarrow> bool" where
  "end_char c \<longleftrightarrow> js_ws c \<or> c \<in> set '')]}.,!?;:'' \<or> c = CHR 0x27 \<or> c = CHR 0x22"

text \<open>\<open>text[i]\<close> past the end is \<^verbatim>\<open>undefined\<close>.\<close>

definition isMentionEndBoundary :: "char option \<Rightarrow> bool" where
  "isMentionEndBoundary c = (case c of None \<Rightarrow> True | Some c \<Rightarrow> end_char c)"

definition char_at :: "string \<Rightarrow> nat \<Rightarrow> char option" where
  "char_at t i = (if i < length t then Some (t ! i) else None)"

definition mention_re :: "string \<Rightarrow> re" where
  "mention_re name =
     Sqs [Or Bol (Ch (\<lambda>c. \<not> is_word c)), Lit ''@'', LitI name, Ahead (Or Eol (Ch end_char))]"

definition messageContainsMention :: "string \<Rightarrow> string \<Rightarrow> bool" where
  "messageContainsMention body fullName =
     (let t = trim fullName in if t = [] then False else re_test (mention_re t) body)"

definition normal_name :: "person \<Rightarrow> string" where
  "normal_name u = toLowerCase (trim (full_name u))"

definition count_name :: "string \<Rightarrow> (string \<times> nat) list \<Rightarrow> (string \<times> nat) list" where
  "count_name n counts =
     (if n = [] then counts else jmap_set n ((case jmap_get counts n of None \<Rightarrow> 0 | Some k \<Rightarrow> k) + 1) counts)"

definition nameCounts :: "person list \<Rightarrow> (string \<times> nat) list" where
  "nameCounts users = foldl (\<lambda>counts u. count_name (normal_name u) counts) [] users"

definition add_resolved :: "string \<Rightarrow> (string \<times> nat) list \<Rightarrow> person \<Rightarrow> int list \<Rightarrow> int list" where
  "add_resolved body counts u resolved =
     (if normal_name u = [] then resolved
      else if (case jmap_get counts (normal_name u) of None \<Rightarrow> 0 | Some k \<Rightarrow> k) > 1 then resolved
      else if \<not> messageContainsMention body (full_name u) then resolved
      else if person_id u \<in> set resolved then resolved
      else resolved @ [person_id u])"

text \<open>\<^verbatim>\<open>usersById\<close> keeps the last person of an id.\<close>

definition usersById :: "person list \<Rightarrow> int \<Rightarrow> person option" where
  "usersById users i = find_key person_id i (rev users)"

definition resolveMentionedUserIds :: "string \<Rightarrow> person list \<Rightarrow> int list \<Rightarrow> int list" where
  "resolveMentionedUserIds body users selectedIds =
     (if trim body = [] then []
      else fold (add_resolved body (nameCounts users)) users
             (filter (\<lambda>i. case usersById users i of
                            None \<Rightarrow> False
                          | Some u \<Rightarrow> full_name u \<noteq> [] \<and> messageContainsMention body (full_name u)) selectedIds))"

section \<open>Web: marking mentions in a text\<close>

datatype mention_kind = UserMention | ChannelMention

record MentionPattern =
  label :: string
  normalized :: string
  kind :: mention_kind

definition channel_labels :: "string list" where "channel_labels = [''@everyone'']"

definition add_pattern :: "mention_kind \<Rightarrow> string \<Rightarrow> MentionPattern list \<Rightarrow> MentionPattern list" where
  "add_pattern k l ps = ps @ [\<lparr>label = l, normalized = toLowerCase l, kind = k\<rparr>]"

definition add_name :: "string \<Rightarrow> MentionPattern list \<Rightarrow> MentionPattern list" where
  "add_name name ps =
     (let l = ''@'' @ name in if toLowerCase l \<in> set (map normalized ps) then ps else add_pattern UserMention l ps)"

definition longer_label :: "MentionPattern \<Rightarrow> MentionPattern \<Rightarrow> int" where
  "longer_label l r = int (length (label r)) - int (length (label l))"

definition buildMentionPatterns :: "string list \<Rightarrow> bool \<Rightarrow> MentionPattern list" where
  "buildMentionPatterns names includeChannel =
     (let channel = (if includeChannel then fold (add_pattern ChannelMention) channel_labels [] else []);
          users = filter (\<lambda>n. n \<noteq> []) (map trim names)
      in js_sort longer_label (fold add_name users channel))"

definition pattern_at :: "string \<Rightarrow> nat \<Rightarrow> MentionPattern \<Rightarrow> bool" where
  "pattern_at t i p \<longleftrightarrow>
     toLowerCase (slice t i (i + length (label p))) = normalized p \<and> isMentionEndBoundary (char_at t (i + length (label p)))"

record mention_match =
  match_from :: nat
  match_to :: nat
  match_kind :: mention_kind
  match_text :: string

text \<open>
  The loop of \<^verbatim>\<open>findMentionMatches\<close>. A label is never empty where it matches: the text has \<^verbatim>\<open>@\<close> there, which
  ends no mention. So the index grows and the loop ends.
\<close>

lemma pattern_at_label: "char_at t i = Some CHR ''@'' \<Longrightarrow> pattern_at t i p \<Longrightarrow> label p \<noteq> []"
  by (auto simp: pattern_at_def isMentionEndBoundary_def end_char_def js_ws_def)

function findMentionMatches_from :: "string \<Rightarrow> MentionPattern list \<Rightarrow> nat \<Rightarrow> mention_match list" where
  "findMentionMatches_from t ps i =
     (if i < length t then
        (if char_at t i \<noteq> Some CHR ''@'' \<or> \<not> isMentionStartBoundary t i then findMentionMatches_from t ps (i + 1)
         else (case find (pattern_at t i) ps of
                 None \<Rightarrow> findMentionMatches_from t ps (i + 1)
               | Some p \<Rightarrow>
                   \<lparr>match_from = i, match_to = i + length (label p), match_kind = kind p, match_text = slice t i (i + length (label p))\<rparr>
                   # findMentionMatches_from t ps (i + length (label p))))
      else [])"
  by pat_completeness auto
termination
proof (relation "measure (\<lambda>(t, _, i). length t - i)")
  fix t ps i p assume "i < length t" "\<not> (char_at t i \<noteq> Some CHR ''@'' \<or> \<not> isMentionStartBoundary t i)"
    "find (pattern_at t i) ps = Some p"
  moreover from this have "label p \<noteq> []" using pattern_at_label by (auto simp: find_Some_iff)
  ultimately show "((t, ps, i + length (label p)), t, ps, i) \<in> measure (\<lambda>(t, _, i). length t - i)"
    by (simp add: diff_less_mono2)
qed auto

declare findMentionMatches_from.simps [simp del]

definition findMentionMatches :: "string \<Rightarrow> MentionPattern list \<Rightarrow> mention_match list" where
  "findMentionMatches t ps = findMentionMatches_from t ps 0"

text \<open>A rendered span: its text, and the kind of mention when it is highlighted.\<close>

type_synonym span = "mention_kind option \<times> string"

fun render_matches :: "string \<Rightarrow> nat \<Rightarrow> mention_match list \<Rightarrow> span list" where
  "render_matches t cursor [] = (if cursor < length t then [(None, drop cursor t)] else [])"
| "render_matches t cursor (m # ms) =
     (if cursor < match_from m then [(None, slice t cursor (match_from m))] else []) @
     (Some (match_kind m), match_text m) # render_matches t (match_to m) ms"

definition renderTextWithMentions :: "string \<Rightarrow> MentionPattern list \<Rightarrow> span list" where
  "renderTextWithMentions t ps =
     (let ms = findMentionMatches t ps in if ms = [] then [(None, t)] else render_matches t 0 ms)"

section \<open>Web: the suggestion list and choosing a suggestion\<close>

definition token_re :: re where
  "token_re = Sqs [Grp 1 (Or Bol Ws), Lit ''@'', Grp 2 (Star (Ch (\<lambda>c. \<not> js_ws c \<and> c \<noteq> CHR ''@''))), Eol]"

definition mentionToken :: "string \<Rightarrow> string option" where
  "mentionToken composerTriggerText = re_group token_re 2 composerTriggerText"

record MentionSuggestion =
  sug_id :: string
  sug_label :: string
  sug_kind :: mention_kind

definition web_mentionSuggestions :: "string option \<Rightarrow> bool \<Rightarrow> person list \<Rightarrow> MentionSuggestion list" where
  "web_mentionSuggestions token isChannel users =
     (case token of
        None \<Rightarrow> []
      | Some tok \<Rightarrow>
          (let n = stripMentionLabel tok in
             (if isChannel then
                map (\<lambda>l. \<lparr>sug_id = l, sug_label = l, sug_kind = ChannelMention\<rparr>)
                  (filter (\<lambda>l. startsWith (stripMentionLabel l) n) channel_labels)
              else []) @
             map (\<lambda>u. \<lparr>sug_id = show_int (person_id u), sug_label = ''@'' @ full_name u, sug_kind = UserMention\<rparr>)
               (take 8 (filter (\<lambda>u. str_includes (toLowerCase (full_name u)) n \<or> str_includes (toLowerCase (email u)) n) users))))"

definition replace_re :: re where
  "replace_re = Sqs [Or Bol Ws, Lit ''@'', Star (NotCls [NL]), Eol]"

text \<open>\<^verbatim>\<open>insertIntoComposer\<close> on the text before the cursor, of which the page keeps at most the last 80 characters.\<close>

definition insertIntoComposer :: "string \<Rightarrow> string \<Rightarrow> string" where
  "insertIntoComposer before content =
     (let trigger = drop (length before - 80) before
      in case scan replace_re [] trigger of
           None \<Rightarrow> before @ content
         | Some (_, b1, b2, _) \<Rightarrow>
             take (length before - length (trimStart (rev (take (length b2 - length b1) b2)))) before @ content)"

text \<open>\<^verbatim>\<open>Number(id)\<close> on the decimal text of an id.\<close>

definition number_of :: "string \<Rightarrow> int" where
  "number_of s = (if startsWith s ''-'' then - int (digits_val 0 (drop 1 s)) else int (digits_val 0 s))"

definition selectMention :: "MentionSuggestion \<Rightarrow> string \<times> int list \<Rightarrow> string \<times> int list" where
  "selectMention mention c =
     (let (before, ids) = c; i = number_of (sug_id mention)
      in (insertIntoComposer before (sug_label mention @ '' ''),
          if sug_kind mention = UserMention \<and> i \<notin> set ids then ids @ [i] else ids))"

section \<open>Mobile\<close>

record MentionTrigger =
  trig_start :: nat
  trig_end :: nat
  trig_query :: string

definition trigger_re :: re where
  "trigger_re = Sqs [Or Bol Ws, Lit ''@'', Grp 1 (Star (NotCls [CHR ''@'', NL])), Eol]"

definition mentionTriggerAt :: "string \<Rightarrow> nat \<Rightarrow> MentionTrigger option" where
  "mentionTriggerAt body cursor =
     (case re_group trigger_re 1 (slice body 0 cursor) of
        None \<Rightarrow> None
      | Some q \<Rightarrow> if length q > 60 then None
                  else Some \<lparr>trig_start = cursor - length q - 1, trig_end = cursor, trig_query = q\<rparr>)"

definition mentionSuggestions :: "person list \<Rightarrow> string \<Rightarrow> nat \<Rightarrow> person list" where
  "mentionSuggestions users query limit =
     (let n = toLowerCase (trim query)
      in take limit (filter (\<lambda>u. n = [] \<or> str_includes (toLowerCase (full_name u @ '' '' @ email u)) n) users))"

definition insertMention :: "string \<Rightarrow> MentionTrigger \<Rightarrow> person \<Rightarrow> string \<times> nat" where
  "insertMention body trig u =
     (slice body 0 (trig_start trig) @ ''@'' @ full_name u @ '' '' @ drop (trig_end trig) body,
      trig_start trig + length (full_name u) + 2)"

text \<open>The letters and digits that may follow no mention, in the range of the model.\<close>

definition name_char :: "char \<Rightarrow> bool" where
  "name_char c \<longleftrightarrow>
     is_word c \<or> c = CHR ''-'' \<or> c = CHR 0x27 \<or>
     (let n = (of_char c :: nat) in n \<in> {170, 178, 179, 181, 185, 186, 188, 189, 190} \<or> (192 \<le> n \<and> n \<noteq> 215 \<and> n \<noteq> 247))"

definition longer_name :: "string \<Rightarrow> string \<Rightarrow> int" where
  "longer_name l r = int (length r) - int (length l)"

definition sorted_names :: "person list \<Rightarrow> string list" where
  "sorted_names users = js_sort longer_name (filter (\<lambda>n. n \<noteq> []) (map full_name users))"

fun any_of :: "string list \<Rightarrow> re" where
  "any_of [] = Emp"
| "any_of [n] = LitI n"
| "any_of (n # ns) = Or (LitI n) (any_of ns)"

definition people_re :: "string list \<Rightarrow> re" where
  "people_re names =
     Sqs [Or Bol (Ch (\<lambda>c. js_ws c \<or> c \<in> set ''([{'')), Lit ''@'', Grp 1 (any_of names), NotAhead (Ch name_char)]"

definition segment_re :: "string list \<Rightarrow> re" where
  "segment_re names = Sqs [Lit ''@'', any_of names, NotAhead (Ch name_char)]"

definition match_name :: "piece \<Rightarrow> string option" where
  "match_name p = (case p of Between _ \<Rightarrow> None | Match g _ \<Rightarrow> Some (toLowerCase (group_text g 1)))"

definition resolveMentionUserIds :: "string \<Rightarrow> person list \<Rightarrow> int list" where
  "resolveMentionUserIds body users =
     (let names = sorted_names users
      in if names = [] then []
         else (let mentioned = List.map_filter match_name (re_cuts (people_re names) body)
               in map person_id (filter (\<lambda>u. toLowerCase (full_name u) \<in> set mentioned) users)))"

definition messageSegments :: "string \<Rightarrow> person list \<Rightarrow> (string \<times> bool) list" where
  "messageSegments body users =
     (let names = sorted_names users
      in if names = [] then [(body, False)]
         else map (\<lambda>p. (piece_text p, startsWith (piece_text p) ''@'')) (re_cuts (segment_re names) body))"

section \<open>Marked texts\<close>

text \<open>The matches are at \<open>i\<close> or later; \<open>c\<close> is the cursor, where the last one ended.\<close>

lemma render_from_text: "c \<le> i \<Longrightarrow> concat (map snd (render_matches t c (findMentionMatches_from t ps i))) = drop c t"
proof (induction t ps i arbitrary: c rule: findMentionMatches_from.induct)
  case (1 t ps i)
  have skip: "concat (map snd (render_matches t c (findMentionMatches_from t ps (i + 1)))) = drop c t"
    if "char_at t i \<noteq> Some CHR ''@'' \<or> \<not> isMentionStartBoundary t i \<or> find (pattern_at t i) ps = None" "i < length t"
    using that 1(1,2,4) by (cases "char_at t i = Some CHR ''@'' \<and> isMentionStartBoundary t i") auto
  show ?case
  proof (cases "i < length t \<and> char_at t i = Some CHR ''@'' \<and> isMentionStartBoundary t i \<and> find (pattern_at t i) ps \<noteq> None")
    case True
    then obtain p where p: "find (pattern_at t i) ps = Some p" by auto
    have "slice t c i @ slice t i (i + length (label p)) @ drop (i + length (label p)) t = drop c t"
      using 1(4) by (simp add: slice_def) (metis append.assoc append_take_drop_id drop_drop le_add_diff_inverse2 add.commute)
    moreover have "\<not> c < i \<Longrightarrow> slice t c i = []" by (simp add: slice_def)
    ultimately show ?thesis
      using True p 1(3) [of p "i + length (label p)"] by (subst findMentionMatches_from.simps) auto
  next
    case False
    then show ?thesis
      using skip by (cases "i < length t"; subst findMentionMatches_from.simps) (auto split: option.splits)
  qed
qed

lemma found_matches:
  "m \<in> set (findMentionMatches_from t ps i) \<Longrightarrow>
     \<exists>p. find (pattern_at t (match_from m)) ps = Some p \<and> match_kind m = kind p \<and> i \<le> match_from m \<and>
         match_to m = match_from m + length (label p) \<and> match_text m = slice t (match_from m) (match_to m)"
proof (induction t ps i rule: findMentionMatches_from.induct)
  case (1 t ps i)
  show ?case
    using 1(4) 1(1,2,3)
    by (subst (asm) findMentionMatches_from.simps) (fastforce split: if_splits option.splits)
qed

lemma set_render: "x \<in> set (render_matches t c ms) \<Longrightarrow> fst x = None \<or> (\<exists>m \<in> set ms. x = (Some (match_kind m), match_text m))"
  by (induction t c ms rule: render_matches.induct) (auto split: if_splits)

text \<open>
  C30: marking the mentions of a text keeps every character in its place, and only what is one of the
  labels, whatever the case of the letters, is marked, with the kind of that label.
\<close>

theorem renderTextWithMentions_faithful:
  "concat (map snd (renderTextWithMentions t ps)) = t \<and>
   {(k, toLowerCase s) | k s. (Some k, s) \<in> set (renderTextWithMentions t ps)} \<subseteq> (\<lambda>p. (kind p, normalized p)) ` set ps"
proof -
  have "(k, toLowerCase s) \<in> (\<lambda>p. (kind p, normalized p)) ` set ps" if x: "(Some k, s) \<in> set (renderTextWithMentions t ps)" for k s
  proof -
    from x obtain m where "m \<in> set (findMentionMatches t ps)" "k = match_kind m" "s = match_text m"
      by (auto simp: renderTextWithMentions_def Let_def dest: set_render split: if_splits)
    then obtain p where "find (pattern_at t (match_from m)) ps = Some p" "k = kind p" "s = slice t (match_from m) (match_from m + length (label p))"
      using found_matches unfolding findMentionMatches_def by metis
    then show ?thesis by (auto simp: find_Some_iff pattern_at_def)
  qed
  moreover have "concat (map snd (renderTextWithMentions t ps)) = t"
    using render_from_text [of 0 0 t ps] by (simp add: renderTextWithMentions_def findMentionMatches_def Let_def)
  ultimately show ?thesis by blast
qed

lemma find_sorted_longest:
  "sorted_wrt (\<lambda>a b. longer_label a b \<le> 0) ps \<Longrightarrow> find P ps = Some p \<Longrightarrow> q \<in> set ps \<Longrightarrow> P q \<Longrightarrow>
     length (label q) \<le> length (label p)"
  by (induction ps) (auto simp: longer_label_def split: if_splits)

lemma consistent_longer: "consistent longer_label A"
proof -
  have "longer_label = lex_cmp (\<lambda>p. - int (length (label p))) (\<lambda>p. 0)"
    by (intro ext) (auto simp: longer_label_def lex_cmp_def)
  then show ?thesis by (metis consistent_lex)
qed

text \<open>
  Where the labels of two names fit, the longest is taken: no label of the list fits at the place of a
  mention and reaches further than the mention does.
\<close>

theorem findMentionMatches_longest:
  assumes "m \<in> set (findMentionMatches t (buildMentionPatterns names ch))" "p \<in> set (buildMentionPatterns names ch)"
    "pattern_at t (match_from m) p"
  shows "match_from m + length (label p) \<le> match_to m"
proof -
  obtain q where q: "find (pattern_at t (match_from m)) (buildMentionPatterns names ch) = Some q"
      "match_to m = match_from m + length (label q)"
    using found_matches [OF assms(1) [unfolded findMentionMatches_def]] by blast
  have "sorted_wrt (\<lambda>a b. longer_label a b \<le> 0) (buildMentionPatterns names ch)"
    unfolding buildMentionPatterns_def Let_def by (rule sorted_js_sort [OF consistent_longer])
  from find_sorted_longest [OF this q(1) assms(2,3)] q(2) show ?thesis by simp
qed

theorem findMentionMatches_longest_witness:
  "\<exists>m \<in> set (findMentionMatches ''hi @Ann Lee.'' (buildMentionPatterns [''Ann'', ''Ann Lee''] True)).
     match_from m = 3 \<and> 3 + length (label \<lparr>label = ''@Ann'', normalized = ''@ann'', kind = UserMention\<rparr>) \<le> match_to m"
proof -
  define ps where "ps = buildMentionPatterns [''Ann'', ''Ann Lee''] True"
  define m where "m = \<lparr>match_from = 3, match_to = 11, match_kind = UserMention, match_text = ''@Ann Lee''\<rparr>"
  have ps: "\<lparr>label = ''@Ann'', normalized = ''@ann'', kind = UserMention\<rparr> \<in> set ps"
    unfolding ps_def by code_simp
  have m: "m \<in> set (findMentionMatches ''hi @Ann Lee.'' ps)" unfolding m_def ps_def by code_simp
  moreover have "pattern_at ''hi @Ann Lee.'' 3 \<lparr>label = ''@Ann'', normalized = ''@ann'', kind = UserMention\<rparr>" by code_simp
  ultimately have "match_from m + length (label \<lparr>label = ''@Ann'', normalized = ''@ann'', kind = UserMention\<rparr>) \<le> match_to m"
    using findMentionMatches_longest [of m "''hi @Ann Lee.''" "[''Ann'', ''Ann Lee'']" True] ps unfolding ps_def m_def by simp
  then show ?thesis using m unfolding ps_def by (intro bexI [of _ m]) (auto simp: m_def)
qed

section \<open>Resolved people\<close>

definition same_name :: "person list \<Rightarrow> string \<Rightarrow> person list" where
  "same_name users n = filter (\<lambda>u. normal_name u = n) users"

lemma nameCounts_get:
  "n \<noteq> [] \<Longrightarrow> (case jmap_get (nameCounts users) n of None \<Rightarrow> 0 | Some k \<Rightarrow> k) = length (same_name users n)"
proof (induction users rule: rev_induct)
  case (snoc u users)
  then show ?case by (auto simp: nameCounts_def count_name_def same_name_def)
qed (simp add: nameCounts_def same_name_def)

text \<open>A person whom the body names and whose name no other person on the list has.\<close>

definition named_alone :: "string \<Rightarrow> person list \<Rightarrow> person \<Rightarrow> bool" where
  "named_alone body users u \<longleftrightarrow>
     normal_name u \<noteq> [] \<and> length (same_name users (normal_name u)) \<le> 1 \<and> messageContainsMention body (full_name u)"

lemma add_resolved_named:
  "add_resolved body (nameCounts users) u r =
     (if named_alone body users u \<and> person_id u \<notin> set r then r @ [person_id u] else r)"
  using nameCounts_get [of "normal_name u" users] by (auto simp: add_resolved_def named_alone_def)

lemma fold_resolved:
  assumes "distinct r"
  shows "distinct (fold (add_resolved body (nameCounts users)) us r) \<and>
    set (fold (add_resolved body (nameCounts users)) us r) = set r \<union> {person_id u | u. u \<in> set us \<and> named_alone body users u}"
  using assms
proof (induction us arbitrary: r)
  case (Cons u us)
  have "distinct (add_resolved body (nameCounts users) u r)" using Cons(2) by (simp add: add_resolved_named)
  from Cons(1) [OF this] show ?case by (auto simp: add_resolved_named)
qed simp

text \<open>A person chosen from the suggestions whom the body still names.\<close>

definition chosen :: "string \<Rightarrow> person list \<Rightarrow> int \<Rightarrow> bool" where
  "chosen body users i \<longleftrightarrow> (\<exists>u. usersById users i = Some u \<and> messageContainsMention body (full_name u))"

lemma messageContainsMention_empty [simp]: "\<not> messageContainsMention body []"
  by (simp add: messageContainsMention_def)

text \<open>
  C31: the people notified of a message that is not blank are exactly the chosen ones whom the body still names
  and those whose name, which nobody else on the list has, the body contains; each once. A blank message notifies nobody.
\<close>

theorem resolveMentionedUserIds_exact:
  assumes "distinct selectedIds"
  shows "distinct (resolveMentionedUserIds body users selectedIds) \<and>
    set (resolveMentionedUserIds body users selectedIds) =
      (if trim body = [] then {}
       else {i \<in> set selectedIds. chosen body users i} \<union> {person_id u | u. u \<in> set users \<and> named_alone body users u})"
proof -
  define r where "r = filter (\<lambda>i. case usersById users i of None \<Rightarrow> False
      | Some u \<Rightarrow> full_name u \<noteq> [] \<and> messageContainsMention body (full_name u)) selectedIds"
  have "set r = {i \<in> set selectedIds. chosen body users i}"
    by (auto simp: r_def chosen_def split: option.splits)
  moreover have "distinct r" using assms by (simp add: r_def)
  ultimately show ?thesis
    using fold_resolved [of r body users users] by (auto simp: resolveMentionedUserIds_def r_def)
qed

text \<open>Two people of one name: only the chosen one is notified.\<close>

theorem resolveMentionedUserIds_exact_witness:
  "set (resolveMentionedUserIds ''thanks @Ann'' [\<lparr>person_id = 1, full_name = ''Ann'', email = ''a''\<rparr>,
      \<lparr>person_id = 2, full_name = ''ann'', email = ''b''\<rparr>] [2]) = {2}"
proof -
  define us where "us = [\<lparr>person_id = 1, full_name = ''Ann'', email = ''a''\<rparr>, \<lparr>person_id = 2, full_name = ''ann'', email = ''b''\<rparr>]"
  have b: "trim ''thanks @Ann'' \<noteq> []" by code_simp
  have "usersById us 2 = Some \<lparr>person_id = 2, full_name = ''ann'', email = ''b''\<rparr>" "messageContainsMention ''thanks @Ann'' ''ann''"
    unfolding us_def by code_simp+
  then have c: "chosen ''thanks @Ann'' us 2" by (auto simp: chosen_def)
  have "list_all (\<lambda>u. \<not> named_alone ''thanks @Ann'' us u) us" unfolding us_def by code_simp
  then have n: "{person_id u | u. u \<in> set us \<and> named_alone ''thanks @Ann'' us u} = {}" by (auto simp: list_all_iff)
  show ?thesis
    using resolveMentionedUserIds_exact [of "[2]" "''thanks @Ann''" us] b c n unfolding us_def by auto
qed

section \<open>A trigger and its replacement\<close>

lemma trigger_match:
  assumes "re_group trigger_re 1 s = Some q"
  shows "\<exists>pre. s = pre @ ''@'' @ q \<and> (pre = [] \<or> js_ws (last pre)) \<and> CHR ''@'' \<notin> set q \<and> NL \<notin> set q"
proof -
  obtain g b1 b2 a2 where sc: "scan trigger_re [] s = Some (g, b1, b2, a2)" and q: "q = group_text g 1"
    using assms by (auto simp: re_group_def group_text_def split: option.splits)
  obtain a1 where s: "s = rev b1 @ a1" and m: "(g, b2, a2) \<in> set (rmatch trigger_re [] b1 a1)"
    using scan_member [OF sc] by auto
  obtain g3 b3 a3 where o: "(g3, b3, a3) \<in> set (rmatch (Or Bol (Ch js_ws)) [] b1 a1)"
    and r: "(g, b2, a2) \<in> set (rmatch (Sq (Lit ''@'') (Sq (Grp 1 (Star (NotCls [CHR ''@'', NL]))) Eol)) g3 b3 a3)"
    using rmatch_SqD [OF m [unfolded trigger_re_def Sqs.simps Ws_def]] by blast
  have pre: "g3 = []" "s = rev b3 @ a3" "rev b3 = [] \<or> js_ws (last (rev b3))"
    using rmatch_start_or [OF o] s by auto
  obtain a4 where a3: "a3 = ''@'' @ a4"
    and r2: "(g, b2, a2) \<in> set (rmatch (Sq (Grp 1 (Star (NotCls [CHR ''@'', NL]))) Eol) [] (rev ''@'' @ b3) a4)"
    using rmatch_SqD [OF r] rmatch_LitD pre(1) by blast
  obtain g5 b5 a5 where gr: "(g5, b5, a5) \<in> set (rmatch (Grp 1 (Star (NotCls [CHR ''@'', NL]))) [] (rev ''@'' @ b3) a4)"
    and e: "(g, b2, a2) \<in> set (rmatch Eol g5 b5 a5)"
    using rmatch_SqD [OF r2] by blast
  obtain g6 where st: "(g6, b5, a5) \<in> set (rmatch (Star (Ch (\<lambda>x. x \<notin> set [CHR ''@'', NL]))) [] (rev ''@'' @ b3) a4)"
    and g5: "g5 = jmap_set 1 (rev (take (length b5 - length (rev ''@'' @ b3)) b5)) g6"
    using rmatch_GrpD [OF gr] unfolding NotCls_def by blast
  obtain w where w: "a4 = w" "b5 = rev w @ rev ''@'' @ b3" "\<forall>c \<in> set w. c \<notin> set [CHR ''@'', NL]"
    using star_match [OF st] rmatch_EolD [OF e] by auto
  have "q = w" using g5 w rmatch_EolD [OF e] by (simp add: q group_text_def)
  then show ?thesis using pre a3 w by (intro exI [of _ "rev b3"]) auto
qed

text \<open>
  A trigger at the cursor is an \<^verbatim>\<open>@\<close> at the start of the body or after white space, followed by the query
  up to the cursor. Choosing a person replaces just that, and the new cursor is right after the inserted name and space.
\<close>

theorem insertMention_replaces_trigger:
  assumes "mentionTriggerAt body cursor = Some trig" "cursor \<le> length body" "insertMention body trig u = (body', cursor')"
  shows "\<exists>pre. body = pre @ ''@'' @ trig_query trig @ drop cursor body \<and> (pre = [] \<or> js_ws (last pre)) \<and>
    length (trig_query trig) \<le> 60 \<and>
    take cursor' body' = pre @ ''@'' @ full_name u @ '' '' \<and> drop cursor' body' = drop cursor body"
proof -
  obtain q where q: "re_group trigger_re 1 (take cursor body) = Some q" "length q \<le> 60"
      "trig = \<lparr>trig_start = cursor - length q - 1, trig_end = cursor, trig_query = q\<rparr>"
    using assms(1) by (auto simp: mentionTriggerAt_def slice_def split: option.splits if_splits)
  obtain pre where pre: "take cursor body = pre @ ''@'' @ q" "pre = [] \<or> js_ws (last pre)"
    using trigger_match [OF q(1)] by blast
  then have "length (take cursor body) = length (pre @ ''@'' @ q)" by simp
  then have c: "cursor = length pre + 1 + length q" using assms(2) by simp
  have b: "body = pre @ ''@'' @ q @ drop cursor body" using pre(1) by (metis append.assoc append_take_drop_id)
  have "take (length pre) body = pre" using b by (metis append_eq_conv_conj)
  then have "body' = (pre @ ''@'' @ full_name u @ '' '') @ drop cursor body" "cursor' = length (pre @ ''@'' @ full_name u @ '' '')"
    using assms(3) q(3) c by (auto simp: insertMention_def slice_def)
  then show ?thesis using b pre(2) q by (intro exI [of _ pre]) auto
qed

theorem insertMention_replaces_trigger_witness:
  "\<exists>pre. ''hey @an!'' = pre @ ''@'' @ ''an'' @ ''!'' \<and> take 9 ''hey @Ann !'' = pre @ ''@'' @ ''Ann'' @ '' ''"
proof -
  define u where "u = \<lparr>person_id = 1, full_name = ''Ann'', email = ''a''\<rparr>"
  have "mentionTriggerAt ''hey @an!'' 7 = Some \<lparr>trig_start = 4, trig_end = 7, trig_query = ''an''\<rparr>" by code_simp
  moreover have "insertMention ''hey @an!'' \<lparr>trig_start = 4, trig_end = 7, trig_query = ''an''\<rparr> u = (''hey @Ann !'', 9)"
    unfolding u_def by code_simp
  ultimately show ?thesis using insertMention_replaces_trigger [of "''hey @an!''" 7 _ u] by (fastforce simp: u_def)
qed

section \<open>Mobile: nobody is mentioned who is not named\<close>

lemma any_of_match:
  "m \<in> set (rmatch (any_of ns) g b a) \<Longrightarrow> ns \<noteq> [] \<Longrightarrow> \<exists>n \<in> set ns. m \<in> set (rmatch (LitI n) g b a)"
  by (induction ns rule: any_of.induct) auto

lemma people_match:
  assumes "(g, b2, a2) \<in> set (rmatch (people_re names) [] b1 a1)" "names \<noteq> []"
  shows "\<exists>n \<in> set names. \<exists>pre w post. rev b1 @ a1 = pre @ ''@'' @ w @ post \<and> group_text g 1 = w \<and> toLowerCase w = toLowerCase n"
proof -
  obtain g3 b3 a3 where o: "(g3, b3, a3) \<in> set (rmatch (Or Bol (Ch (\<lambda>c. js_ws c \<or> c \<in> set ''([{''))) [] b1 a1)"
    and r: "(g, b2, a2) \<in> set (rmatch (Sq (Lit ''@'') (Sq (Grp 1 (any_of names)) (NotAhead (Ch name_char)))) g3 b3 a3)"
    using rmatch_SqD [OF assms(1) [unfolded people_re_def Sqs.simps]] by blast
  have pre: "rev b1 @ a1 = rev b3 @ a3" using rmatch_start_or [OF o] by auto
  obtain a4 where a3: "a3 = ''@'' @ a4"
    and r2: "(g, b2, a2) \<in> set (rmatch (Sq (Grp 1 (any_of names)) (NotAhead (Ch name_char))) g3 (rev ''@'' @ b3) a4)"
    using rmatch_SqD [OF r] rmatch_LitD by blast
  obtain b5 a5 where gr: "(g, b5, a5) \<in> set (rmatch (Grp 1 (any_of names)) g3 (rev ''@'' @ b3) a4)"
    using rmatch_SqD [OF r2] rmatch_NotAheadD by blast
  obtain g6 where st: "(g6, b5, a5) \<in> set (rmatch (any_of names) g3 (rev ''@'' @ b3) a4)"
    and g: "g = jmap_set 1 (rev (take (length b5 - length (rev ''@'' @ b3)) b5)) g6"
    using rmatch_GrpD [OF gr] by blast
  obtain n where n: "n \<in> set names" "(g6, b5, a5) \<in> set (rmatch (LitI n) g3 (rev ''@'' @ b3) a4)"
    using any_of_match [OF st assms(2)] by blast
  obtain w where w: "a4 = w @ a5" "map lower_char w = map lower_char n" using LitI_match [OF n(2)] by auto
  have "b5 = rev w @ rev ''@'' @ b3" using rmatch_consumes [OF n(2)] w(1) by (auto simp: consumes_def)
  then have "group_text g 1 = w" by (simp add: g group_text_def)
  then show ?thesis using n(1) w pre a3 by (intro bexI [of _ n] exI [of _ "rev b3"] exI [of _ w] exI [of _ a5]) (auto simp: toLowerCase_def)
qed

lemma set_js_names: "n \<in> set (sorted_names users) \<longleftrightarrow> n \<noteq> [] \<and> n \<in> full_name ` set users"
  by (auto simp: sorted_names_def)

lemma str_includes_append: "str_includes (pre @ w @ post) w"
proof (induction pre)
  case Nil
  have "startsWith (w @ post) w" by simp
  then show ?case by (cases "w @ post") simp_all
qed simp



text \<open>Choosing a second mention on a line deletes the text from the first one on.\<close>

lemma selectMention_deletes_first_mention:
  "selectMention \<lparr>sug_id = ''2'', sug_label = ''@Bo Cruz'', sug_kind = UserMention\<rparr> (''@Ann Lee see you, @B'', [1]) =
     (''@Bo Cruz '', [1, 2])"
  by code_simp

text \<open>A text that starts with \<^verbatim>\<open>@\<close> is shown as a mention although it names nobody on the list.\<close>

lemma messageSegments_marks_unknown_name:
  "messageSegments ''@zed hi'' [\<lparr>person_id = 1, full_name = ''Ann'', email = ''a''\<rparr>] = [(''@zed hi'', True)]"
  by code_simp

end
