(* ===== verification/Message_Render.thy ===== *)
theory Message_Render
  imports Mentions
begin

text \<open>
  How a message is shown: \<^verbatim>\<open>FormattedMessage\<close>, \<^verbatim>\<open>formatInline\<close> and \<^verbatim>\<open>renderLinkNode\<close> of
  \<^verbatim>\<open>web/src/pages/shared/Messages.tsx\<close>, and the same component of \<^verbatim>\<open>mobile/src/components/formatted-message.tsx\<close>.
  A rendered text is a tree of nodes; React keys and style names are left out.
\<close>

section \<open>Nodes\<close>

datatype inline =
    Span "mention_kind option" string
  | CodeSpan string
  | Strong "inline list"
  | Em "inline list"
  | Del "inline list"
  | Under "inline list"
  | Link string "inline list"
  | Group "inline list"

fun hrefs :: "inline \<Rightarrow> string list" where
  "hrefs (Span k t) = []"
| "hrefs (CodeSpan t) = []"
| "hrefs (Strong ns) = concat (map hrefs ns)"
| "hrefs (Em ns) = concat (map hrefs ns)"
| "hrefs (Del ns) = concat (map hrefs ns)"
| "hrefs (Under ns) = concat (map hrefs ns)"
| "hrefs (Link h ns) = h # concat (map hrefs ns)"
| "hrefs (Group ns) = concat (map hrefs ns)"

fun shown :: "inline \<Rightarrow> string" where
  "shown (Span k t) = t"
| "shown (CodeSpan t) = t"
| "shown (Strong ns) = concat (map shown ns)"
| "shown (Em ns) = concat (map shown ns)"
| "shown (Del ns) = concat (map shown ns)"
| "shown (Under ns) = concat (map shown ns)"
| "shown (Link h ns) = concat (map shown ns)"
| "shown (Group ns) = concat (map shown ns)"

section \<open>Patterns\<close>

definition marked :: "string \<Rightarrow> re" where
  "marked m = Sqs [Lit m, Plus (NotCls [hd m]), Lit m]"

definition format_re :: re where
  "format_re = Or (marked ''**'') (Or (marked ''_'') (Or (marked ''~~'') (marked ''++'')))"

definition code_re :: re where "code_re = marked ''`''"

definition http_prefix :: re where "http_prefix = Sqs [LitI ''http'', Opt (LitI ''s''), LitI ''://'']"

definition bare_link_re :: re where
  "bare_link_re =
     (let c = Plus (Ch (\<lambda>x. \<not> js_ws x \<and> x \<noteq> CHR ''<'')) in Or (Sq http_prefix c) (Sq (LitI ''www.'') c))"

definition link_part_re :: "(nat \<Rightarrow> re \<Rightarrow> re) \<Rightarrow> re" where
  "link_part_re grp =
     Sqs [Lit ''['', grp 1 (Plus (NotCls '']'')), Lit ''](''  , grp 2 (Plus (Ch (\<lambda>x. x \<noteq> CHR '')'' \<and> \<not> js_ws x))), Lit '')'']"

definition link_pattern :: re where
  "link_pattern = Or (link_part_re Grp) (Grp 3 bare_link_re)"

definition nested_re :: re where
  "nested_re =
     Or format_re (Or code_re (Or (link_part_re (\<lambda>n r. r)) (Or http_prefix (LitI ''www.''))))"

section \<open>Marks inside a text\<close>

text \<open>\<open>piece.slice(k, -k)\<close>.\<close>

definition mid :: "nat \<Rightarrow> string \<Rightarrow> string" where
  "mid k p = slice p k (length p - k)"

definition format_piece :: "(string \<Rightarrow> inline list) \<Rightarrow> (string \<Rightarrow> inline list) \<Rightarrow> string \<Rightarrow> inline list" where
  "format_piece nested plain p =
     (if startsWith p ''**'' \<and> endsWith p ''**'' then [Strong (nested (mid 2 p))]
      else if startsWith p ''_'' \<and> endsWith p ''_'' then [Em (nested (mid 1 p))]
      else if startsWith p ''~~'' \<and> endsWith p ''~~'' then [Del (nested (mid 2 p))]
      else if startsWith p ''++'' \<and> endsWith p ''++'' then [Under (nested (mid 2 p))]
      else plain p)"

definition appendFormattedText :: "(string \<Rightarrow> inline list) \<Rightarrow> (string \<Rightarrow> inline list) \<Rightarrow> string \<Rightarrow> inline list" where
  "appendFormattedText nested plain chunk =
     concat (map (\<lambda>p. format_piece nested plain (piece_text p)) (re_cuts format_re chunk))"

section \<open>Web\<close>

definition renderLinkNode :: "inline list \<Rightarrow> string \<Rightarrow> inline" where
  "renderLinkNode content href =
     (let h = normalizeLinkHref href in if h = [] then Group content else Link h content)"

definition bare_link_nodes :: "string \<Rightarrow> inline list" where
  "bare_link_nodes t =
     (let (href, trailing) = splitTrailingUrlPunctuation t
      in renderLinkNode [Span None href] href # (if trailing \<noteq> [] then [Span None trailing] else []))"

definition link_piece :: "(string \<Rightarrow> inline list) \<Rightarrow> (string \<Rightarrow> inline list) \<Rightarrow> piece \<Rightarrow> inline list" where
  "link_piece nested plain p =
     (case p of
        Between t \<Rightarrow> appendFormattedText nested plain t
      | Match g t \<Rightarrow>
          (case (jmap_get g 1, jmap_get g 2) of
             (Some l, Some h) \<Rightarrow> [renderLinkNode (nested l) h]
           | _ \<Rightarrow> bare_link_nodes (group_text g 3)))"

definition appendTextWithLinks :: "(string \<Rightarrow> inline list) \<Rightarrow> (string \<Rightarrow> inline list) \<Rightarrow> string \<Rightarrow> inline list" where
  "appendTextWithLinks nested plain chunk = concat (map (link_piece nested plain) (re_cuts link_pattern chunk))"

text \<open>Every nested text is shorter than the one it is found in, so that rendering ends.\<close>

lemma mid_shorter: "p \<noteq> [] \<Longrightarrow> 0 < k \<Longrightarrow> length (mid k p) < length p"
  by (auto simp: mid_def slice_def)

lemma format_piece_cong:
  assumes "\<And>v. length v < length p \<Longrightarrow> n v = n' v"
  shows "format_piece n plain p = format_piece n' plain p"
proof (cases p)
  case Nil
  then show ?thesis by (simp add: format_piece_def startsWith_def)
next
  case (Cons c q)
  then have "n (mid 1 p) = n' (mid 1 p)" "n (mid 2 p) = n' (mid 2 p)" by (auto intro!: assms mid_shorter)
  then show ?thesis by (simp add: format_piece_def)
qed

lemma appendFormattedText_cong:
  assumes "\<And>v. length v < length chunk \<Longrightarrow> n v = n' v"
  shows "appendFormattedText n plain chunk = appendFormattedText n' plain chunk"
proof -
  have "format_piece n plain (piece_text p) = format_piece n' plain (piece_text p)" if "p \<in> set (re_cuts format_re chunk)" for p
    using re_cuts_length [OF that] by (intro format_piece_cong assms) simp
  then show ?thesis unfolding appendFormattedText_def by (metis (no_types, lifting) map_eq_conv)
qed

fun sets_group :: "nat \<Rightarrow> re \<Rightarrow> bool" where
  "sets_group n (Sq r s) = (sets_group n r \<or> sets_group n s)"
| "sets_group n (Or r s) = (sets_group n r \<or> sets_group n s)"
| "sets_group n (Star r) = sets_group n r"
| "sets_group n (LazyStar r) = sets_group n r"
| "sets_group n (Grp m r) = (m = n \<or> sets_group n r)"
| "sets_group n (Ahead r) = sets_group n r"
| "sets_group n _ = False"

lemma keeps_group: "(g', b', a') \<in> set (rmatch r g b a) \<Longrightarrow> \<not> sets_group n r \<Longrightarrow> jmap_get g' n = jmap_get g n"
proof (induction r g b a arbitrary: g' b' a' rule: rmatch.induct)
  case (3 r s g b a)
  obtain g1 b1 a1 where m: "(g1, b1, a1) \<in> set (rmatch r g b a)" "(g', b', a') \<in> set (rmatch s g1 b1 a1)"
    using rmatch_SqD [OF 3(3)] by blast
  show ?case using 3(1) [OF m(1)] 3(2) [OF m(1) refl refl m(2)] 3(4) by simp
next
  case (5 r g b a)
  show ?case
  proof (cases "(g', b', a') = (g, b, a)")
    case False
    then obtain g1 b1 a1 where m: "(g1, b1, a1) \<in> set (rmatch r g b a)" "length a1 < length a"
        "(g', b', a') \<in> set (rmatch (Star r) g1 b1 a1)"
      using 5(3) rmatch.simps(5) [of r g b a] by (auto split: if_splits)
    show ?thesis using 5(1) [OF m(1)] 5(2) [OF m(1) refl refl m(2,3)] 5(4) by simp
  qed simp
next
  case (6 r g b a)
  show ?case
  proof (cases "(g', b', a') = (g, b, a)")
    case False
    then obtain g1 b1 a1 where m: "(g1, b1, a1) \<in> set (rmatch r g b a)" "length a1 < length a"
        "(g', b', a') \<in> set (rmatch (LazyStar r) g1 b1 a1)"
      using 6(3) rmatch.simps(6) [of r g b a] by (auto split: if_splits)
    show ?thesis using 6(1) [OF m(1)] 6(2) [OF m(1) refl refl m(2,3)] 6(4) by simp
  qed simp
next
  case (7 m r g b a)
  obtain g1 where m: "(g1, b', a') \<in> set (rmatch r g b a)" "g' = jmap_set m (rev (take (length b' - length b) b')) g1"
    using rmatch_GrpD [OF 7(2)] by blast
  show ?case using 7(1) [OF m(1)] 7(3) m(2) by simp
next
  case (11 r g b a)
  then obtain b1 a1 ms where m: "rmatch r g b a = (g', b1, a1) # ms" by (cases "rmatch r g b a") auto
  then show ?case using 11(1) [of g' b1 a1] 11(3) by simp
qed (auto split: list.splits if_splits)

lemma sets_group_LitI [simp]: "\<not> sets_group n (LitI s)"
  by (induction s) auto

text \<open>The label of a Markdown link stands between brackets.\<close>

lemma label_shorter:
  assumes "(g, b2, a2) \<in> set (rmatch link_pattern [] b1 a1)" "jmap_get g 1 = Some l"
  shows "length l < length a1"
proof (cases "(g, b2, a2) \<in> set (rmatch (Grp 3 bare_link_re) [] b1 a1)")
  case True
  have "\<not> sets_group 1 (Grp 3 bare_link_re)"
    by (simp add: bare_link_re_def http_prefix_def Let_def Opt_def Plus_def del: LitI.simps)
  then show ?thesis using keeps_group [OF True] assms(2) by fastforce
next
  case False
  define tail where "tail = Sqs [Lit ''](''  , Grp 2 (Plus (Ch (\<lambda>x. x \<noteq> CHR '')'' \<and> \<not> js_ws x))), Lit '')'']"
  have r: "(g, b2, a2) \<in> set (rmatch (Sq (Lit ''['') (Sq (Grp 1 (Plus (NotCls '']''))) tail)) [] b1 a1)"
    using assms(1) False unfolding link_pattern_def rmatch.simps(4) set_append Un_iff link_part_re_def tail_def Sqs.simps by blast
  obtain a3 where a3: "a1 = ''['' @ a3"
    and r2: "(g, b2, a2) \<in> set (rmatch (Sq (Grp 1 (Plus (NotCls '']''))) tail) [] (rev ''['' @ b1) a3)"
    using rmatch_SqD [OF r] rmatch_LitD by blast
  obtain g4 b4 a4 where m4: "(g4, b4, a4) \<in> set (rmatch (Grp 1 (Plus (NotCls '']''))) [] (rev ''['' @ b1) a3)"
    and t: "(g, b2, a2) \<in> set (rmatch tail g4 b4 a4)"
    using rmatch_SqD [OF r2] by blast
  have "\<not> sets_group 1 tail" by (simp add: tail_def Plus_def)
  then have "jmap_get g4 1 = Some l" using keeps_group [OF t] assms(2) by metis
  then have "l = rev (take (length b4 - length (rev ''['' @ b1)) b4)" using rmatch_GrpD [OF m4] by auto
  moreover obtain w where "a3 = w @ a4" "b4 = rev w @ rev ''['' @ b1"
    using rmatch_consumes [OF m4] unfolding consumes_def by blast
  ultimately show ?thesis using a3 by simp
qed

lemma link_piece_cong:
  assumes "p \<in> set (re_cuts link_pattern chunk)" "\<And>v. length v < length chunk \<Longrightarrow> n v = n' v"
  shows "link_piece n plain p = link_piece n' plain p"
proof (cases p)
  case (Between t)
  then have "length t \<le> length chunk" using re_cuts_length [OF assms(1)] by simp
  then show ?thesis using Between assms(2) by (auto simp: link_piece_def intro: appendFormattedText_cong)
next
  case (Match g t)
  have c: "Match g t \<in> set (cuts link_pattern [] chunk)" using assms(1) Match by (simp add: re_cuts_def)
  obtain b1 a1 b2 a2 where m: "rev [] @ chunk = rev b1 @ a1" "(g, b2, a2) \<in> set (rmatch link_pattern [] b1 a1)"
    using cuts_match [OF c] by blast
  have "n l = n' l" if "jmap_get g 1 = Some l" for l
    using label_shorter [OF m(2) that] m(1) by (intro assms(2)) simp
  then show ?thesis unfolding Match link_piece_def by (simp split: option.splits)
qed

lemma appendTextWithLinks_cong [fundef_cong]:
  assumes "chunk = chunk'" "plain = plain'" "\<And>v. length v < length chunk' \<Longrightarrow> n v = n' v"
  shows "appendTextWithLinks n plain chunk = appendTextWithLinks n' plain' chunk'"
proof -
  have "map (link_piece n plain) (re_cuts link_pattern chunk) = map (link_piece n' plain) (re_cuts link_pattern chunk)"
    by (rule map_cong [OF refl]) (rule link_piece_cong, assumption, use assms in simp)
  then show ?thesis unfolding appendTextWithLinks_def assms(1,2) by (rule arg_cong [where f = concat])
qed

definition mention_spans :: "MentionPattern list \<Rightarrow> string \<Rightarrow> inline list" where
  "mention_spans ps t = map (\<lambda>(k, s). Span k s) (renderTextWithMentions t ps)"

function formatInline :: "MentionPattern list \<Rightarrow> string \<Rightarrow> inline list" where
  "formatInline ps t =
     (let nodes =
        concat (map (\<lambda>p. case p of
            Between chunk \<Rightarrow>
              appendTextWithLinks
                (\<lambda>v. if re_test nested_re v \<or> findMentionMatches v ps \<noteq> [] then formatInline ps v else [Span None v])
                (\<lambda>v. [Group (mention_spans ps v)]) chunk
          | Match g m \<Rightarrow> [CodeSpan (mid 1 m)]) (re_cuts code_re t))
      in if nodes = [] then mention_spans ps t else nodes)"
  by pat_completeness auto
termination
proof (relation "measure (\<lambda>(_, t). length t)")
  fix t p chunk and v :: string assume "p \<in> set (re_cuts code_re t)" "p = Between chunk" "length v < length chunk"
  then show "((ps, v), ps, t) \<in> measure (\<lambda>(_, t). length t)" for ps :: "MentionPattern list"
    using re_cuts_length [of p code_re t] by simp
qed simp

declare formatInline.simps [simp del]

datatype rendered =
    Gap
  | CodeBlock string string
  | Bullets "inline list list"
  | Numbers "inline list list"
  | Quote "inline list"
  | Para "inline list"

definition render_block :: "(string \<Rightarrow> inline list) \<Rightarrow> MessageBlock \<Rightarrow> rendered" where
  "render_block inl b =
     (case b of
        Spacer \<Rightarrow> Gap
      | Code c l \<Rightarrow> CodeBlock c l
      | BulletList items \<Rightarrow> Bullets (map inl items)
      | OrderedList items \<Rightarrow> Numbers (map inl items)
      | Blockquote t \<Rightarrow> Quote (inl t)
      | Paragraph t \<Rightarrow> Para (inl t))"

fun rendered_inlines :: "rendered \<Rightarrow> inline list" where
  "rendered_inlines Gap = []"
| "rendered_inlines (CodeBlock c l) = []"
| "rendered_inlines (Bullets its) = concat its"
| "rendered_inlines (Numbers its) = concat its"
| "rendered_inlines (Quote i) = i"
| "rendered_inlines (Para i) = i"

text \<open>No element at all for an empty body.\<close>

definition FormattedMessage :: "string \<Rightarrow> MentionPattern list \<Rightarrow> rendered list option" where
  "FormattedMessage body ps =
     (if body = [] then None else Some (map (render_block (formatInline ps)) (parseMessageBlocks body)))"

definition message_hrefs :: "rendered list \<Rightarrow> string set" where
  "message_hrefs bs = (\<Union>b \<in> set bs. \<Union>i \<in> set (rendered_inlines b). set (hrefs i))"

section \<open>Every link of a message is safe\<close>

definition safe_nodes :: "inline list \<Rightarrow> bool" where
  "safe_nodes ns \<longleftrightarrow> (\<forall>n \<in> set ns. \<forall>h \<in> set (hrefs n). safe_href h)"

lemma safe_nodes_simps [simp]:
  "safe_nodes []" "safe_nodes (n # ns) \<longleftrightarrow> (\<forall>h \<in> set (hrefs n). safe_href h) \<and> safe_nodes ns"
  by (auto simp: safe_nodes_def)

lemma safe_nodes_concat: "(\<And>ns. ns \<in> set nss \<Longrightarrow> safe_nodes ns) \<Longrightarrow> safe_nodes (concat nss)"
  by (auto simp: safe_nodes_def)

lemma safe_mentions: "safe_nodes (mention_spans ps t)"
  by (auto simp: safe_nodes_def mention_spans_def)

lemma safe_wrap: "safe_nodes ns \<longleftrightarrow> (\<forall>h \<in> set (concat (map hrefs ns)). safe_href h)"
  by (auto simp: safe_nodes_def)

lemma format_piece_safe:
  assumes "\<And>v. length v < length p \<Longrightarrow> safe_nodes (nested v)" "\<And>v. safe_nodes (plain v)"
  shows "safe_nodes (format_piece nested plain p)"
proof (cases "p = []")
  case False
  then have "safe_nodes (nested (mid 1 p))" "safe_nodes (nested (mid 2 p))" by (auto intro!: assms mid_shorter)
  then show ?thesis using assms(2) by (auto simp: format_piece_def safe_wrap)
qed (use assms(2) in \<open>simp add: format_piece_def startsWith_def\<close>)

lemma appendFormattedText_safe:
  assumes "\<And>v. length v < length chunk \<Longrightarrow> safe_nodes (nested v)" "\<And>v. safe_nodes (plain v)"
  shows "safe_nodes (appendFormattedText nested plain chunk)"
  unfolding appendFormattedText_def
proof (rule safe_nodes_concat)
  fix ns assume "ns \<in> set (map (\<lambda>p. format_piece nested plain (piece_text p)) (re_cuts format_re chunk))"
  then obtain p where p: "p \<in> set (re_cuts format_re chunk)" "ns = format_piece nested plain (piece_text p)" by auto
  show "safe_nodes ns"
    unfolding p(2) using re_cuts_length [OF p(1)] assms by (intro format_piece_safe) auto
qed

lemma renderLinkNode_safe: "safe_nodes ns \<Longrightarrow> \<forall>h \<in> set (hrefs (renderLinkNode ns href)). safe_href h"
  using normalizeLinkHref_safe by (auto simp: renderLinkNode_def Let_def safe_nodes_def)

lemma bare_link_nodes_safe: "safe_nodes (bare_link_nodes t)"
  using renderLinkNode_safe [of "[Span None _]"] by (auto simp: bare_link_nodes_def split: prod.splits)

lemma link_piece_safe:
  assumes "p \<in> set (re_cuts link_pattern chunk)" "\<And>v. length v < length chunk \<Longrightarrow> safe_nodes (nested v)"
    "\<And>v. safe_nodes (plain v)"
  shows "safe_nodes (link_piece nested plain p)"
proof (cases p)
  case (Between t)
  then have "length t \<le> length chunk" using re_cuts_length [OF assms(1)] by simp
  then show ?thesis unfolding Between link_piece_def using assms by (auto intro: appendFormattedText_safe)
next
  case (Match g t)
  have c: "Match g t \<in> set (cuts link_pattern [] chunk)" using assms(1) Match by (simp add: re_cuts_def)
  obtain b1 a1 b2 a2 where m: "rev [] @ chunk = rev b1 @ a1" "(g, b2, a2) \<in> set (rmatch link_pattern [] b1 a1)"
    using cuts_match [OF c] by blast
  have "safe_nodes (nested l)" if "jmap_get g 1 = Some l" for l
    using label_shorter [OF m(2) that] m(1) by (intro assms(2)) simp
  then show ?thesis
    unfolding Match link_piece_def using bare_link_nodes_safe renderLinkNode_safe by (fastforce split: option.splits)
qed

lemma formatInline_safe: "safe_nodes (formatInline ps t)"
proof (induction "length t" arbitrary: t rule: less_induct)
  case less
  define nested where "nested = (\<lambda>v. if re_test nested_re v \<or> findMentionMatches v ps \<noteq> [] then formatInline ps v else [Span None v])"
  define plain where "plain = (\<lambda>v. [Group (mention_spans ps v)])"
  have n: "safe_nodes (nested v)" if "length v < length t" for v using less [OF that] by (simp add: nested_def)
  have p: "safe_nodes (plain v)" for v using safe_mentions [of ps v] by (simp add: plain_def safe_wrap)
  have piece: "safe_nodes (case p of Between chunk \<Rightarrow> appendTextWithLinks nested plain chunk | Match g m \<Rightarrow> [CodeSpan (mid 1 m)])"
    if "p \<in> set (re_cuts code_re t)" for p
  proof (cases p)
    case (Between chunk)
    then have l: "length chunk \<le> length t" using re_cuts_length [OF that] by simp
    have "safe_nodes (link_piece nested plain q)" if "q \<in> set (re_cuts link_pattern chunk)" for q
      using l by (intro link_piece_safe [OF that] n p) simp
    then show ?thesis by (auto simp: Between appendTextWithLinks_def intro!: safe_nodes_concat)
  qed simp
  show ?case
    unfolding formatInline.simps [of ps t] Let_def nested_def [symmetric] plain_def [symmetric]
    using safe_mentions piece by (auto intro!: safe_nodes_concat simp del: One_nat_def)
qed

text \<open>
  C28: every link of a message shown on the web page, wherever it is nested and whatever the body, opens an
  address with the scheme http, https or mailto.
\<close>

theorem FormattedMessage_links_safe:
  "case FormattedMessage body ps of None \<Rightarrow> body = [] | Some bs \<Rightarrow> message_hrefs bs \<subseteq> Collect safe_href"
proof (cases "body = []")
  case False
  have "set (hrefs i) \<subseteq> Collect safe_href" if "i \<in> set (rendered_inlines (render_block (formatInline ps) b))" for b i
    using that formatInline_safe [of ps] by (cases b) (auto simp: render_block_def safe_nodes_def)
  then show ?thesis using False by (auto simp: FormattedMessage_def message_hrefs_def)
qed (simp add: FormattedMessage_def)

text \<open>A message that is just a pair of marks is shown as an empty text.\<close>

lemma FormattedMessage_loses_bare_marks:
  "map_option (map (\<lambda>b. concat (map shown (rendered_inlines b)))) (FormattedMessage ''++'' []) = Some [[]]"
  by code_simp

section \<open>Mobile: the next link of a text\<close>

definition opener_re :: re where
  "opener_re = Sqs [Lit ''['', Grp 1 (Plus (NotCls '']'')), Lit ''](''  ]"

text \<open>From after the opening parenthesis to the one that closes it; white space ends the search.\<close>

fun close_paren :: "nat \<Rightarrow> string \<Rightarrow> string \<Rightarrow> (string \<times> string) option" where
  "close_paren depth href [] = None"
| "close_paren depth href (c # r) =
     (if js_ws c then None
      else if c = CHR '')'' then (if depth = 1 then Some (href, r) else close_paren (depth - 1) (href @ [c]) r)
      else close_paren (if c = CHR ''('' then depth + 1 else depth) (href @ [c]) r)"

text \<open>
  The text before the link, its label, its address and the text after it. The patterns have no anchors, so that the search
  from \<^verbatim>\<open>start\<close> is one in the rest of the text.
\<close>

lemma opener_shrinks: "scan opener_re [] a = Some (g, b1, b2, a2) \<Longrightarrow> a \<noteq> []"
  using scan_min_len [of opener_re "[]" a g b1 b2 a2] by (auto simp: opener_re_def)

function nextMarkdownLink :: "string \<Rightarrow> (string \<times> string \<times> string \<times> string) option" where
  "nextMarkdownLink a =
     (case scan opener_re [] a of
        None \<Rightarrow> None
      | Some (g, b1, b2, a2) \<Rightarrow>
          (case close_paren 1 [] a2 of
             Some (href, rest) \<Rightarrow> Some (rev b1, group_text g 1, href, rest)
           | None \<Rightarrow>
               map_option (\<lambda>(pre, r). (take (length b1 + 1) a @ pre, r)) (nextMarkdownLink (drop (length b1 + 1) a))))"
  by pat_completeness auto
termination by (relation "measure length") (auto dest: opener_shrinks)

declare nextMarkdownLink.simps [simp del]

definition nextInlineLink :: "string \<Rightarrow> (string \<times> string option \<times> string \<times> string) option" where
  "nextInlineLink a =
     (let bare = (case scan bare_link_re [] a of
                    None \<Rightarrow> None
                  | Some (g, b1, b2, a2) \<Rightarrow> Some (rev b1, None, rev (take (length b2 - length b1) b2), a2))
      in case nextMarkdownLink a of
           None \<Rightarrow> bare
         | Some (pre, l, h, rest) \<Rightarrow>
             (case bare of
                None \<Rightarrow> Some (pre, Some l, h, rest)
              | Some (pre', _) \<Rightarrow> if length pre \<le> length pre' then Some (pre, Some l, h, rest) else bare))"

lemma close_paren_text: "close_paren d href a = Some (h, rest) \<Longrightarrow> \<exists>w. h = href @ w \<and> a = w @ '')'' @ rest"
  by (induction d href a rule: close_paren.induct) (auto split: if_splits)

lemma opener_text:
  assumes "scan opener_re [] a = Some (g, b1, b2, a2)"
  shows "a = rev b1 @ ''['' @ group_text g 1 @ ''](''   @ a2"
proof -
  obtain a1 where a1: "a = rev b1 @ a1" "(g, b2, a2) \<in> set (rmatch opener_re [] b1 a1)"
    using scan_member [OF assms] by auto
  obtain a3 where a3: "a1 = ''['' @ a3"
    and r2: "(g, b2, a2) \<in> set (rmatch (Sq (Grp 1 (Plus (NotCls '']''))) (Lit '']('' )) [] (rev ''['' @ b1) a3)"
    using rmatch_SqD [OF a1(2) [unfolded opener_re_def Sqs.simps]] rmatch_LitD by blast
  obtain g4 b4 a4 where m4: "(g4, b4, a4) \<in> set (rmatch (Grp 1 (Plus (NotCls '']''))) [] (rev ''['' @ b1) a3)"
    and t: "(g, b2, a2) \<in> set (rmatch (Lit '']('' ) g4 b4 a4)"
    using rmatch_SqD [OF r2] by blast
  have a4: "g = g4" "a4 = '']('' @ a2" using rmatch_LitD [OF t] by auto
  obtain w where w: "a3 = w @ a4" "b4 = rev w @ rev ''['' @ b1" using rmatch_consumes [OF m4] unfolding consumes_def by blast
  have "group_text g 1 = w" using rmatch_GrpD [OF m4] w a4(1) by (auto simp: group_text_def)
  then show ?thesis using a1(1) a3 w a4 by simp
qed

lemma nextMarkdownLink_text:
  "nextMarkdownLink a = Some (pre, l, h, rest) \<Longrightarrow> a = pre @ ''['' @ l @ '']('' @ h @ '')'' @ rest"
proof (induction a arbitrary: pre l h rest rule: nextMarkdownLink.induct)
  case (1 a)
  obtain g b1 b2 a2 where sc: "scan opener_re [] a = Some (g, b1, b2, a2)"
    using 1(2) by (auto simp: nextMarkdownLink.simps [of a] split: option.splits)
  show ?case
  proof (cases "close_paren 1 [] a2")
    case None
    then obtain pre' where "nextMarkdownLink (drop (length b1 + 1) a) = Some (pre', l, h, rest)" "pre = take (length b1 + 1) a @ pre'"
      using 1(2) sc by (auto simp: nextMarkdownLink.simps [of a])
    then show ?thesis using 1(1) [OF sc refl refl refl None] by (metis append.assoc append_take_drop_id)
  next
    case (Some m)
    obtain h' r' where m: "m = (h', r')" by (cases m)
    have "pre = rev b1" "l = group_text g 1" "h = h'" "rest = r'"
      using 1(2) [unfolded nextMarkdownLink.simps [of a]] sc Some m by simp_all
    then show ?thesis using opener_text [OF sc] close_paren_text [OF Some [unfolded m]] by simp
  qed
qed

lemma bare_min_len: "0 < min_len bare_link_re"
  by (simp add: bare_link_re_def http_prefix_def Let_def Opt_def Plus_def)

lemma nextInlineLink_shrinks:
  assumes "nextInlineLink a = Some (pre, l, h, rest)"
  shows "length rest < length a \<and> length pre \<le> length a \<and> (\<forall>t. l = Some t \<longrightarrow> length t < length a)"
proof -
  have "length a2 < length a \<and> length b1 \<le> length a" if "scan bare_link_re [] a = Some (g, b1, b2, a2)" for g b1 b2 a2
    using scan_min_len [OF that] bare_min_len scan_text [OF that] by auto
  moreover have "length rest' < length a \<and> length pre' \<le> length a \<and> length t < length a" if "nextMarkdownLink a = Some (pre', t, h', rest')" for pre' t h' rest'
    using nextMarkdownLink_text [OF that] by simp
  ultimately show ?thesis
    using assms by (auto simp: nextInlineLink_def Let_def split: option.splits if_splits)
qed

section \<open>Mobile: rendering\<close>

definition appendLink :: "url_parser \<Rightarrow> inline list \<Rightarrow> string \<Rightarrow> inline" where
  "appendLink url content href =
     (case normalizeMessageLink url href of None \<Rightarrow> Group content | Some h \<Rightarrow> Link h content)"

definition everyone_re :: re where
  "everyone_re = Sq (LitI ''@everyone'') (NotAhead (Ch name_char))"

definition everyone_spans :: "string \<Rightarrow> inline list" where
  "everyone_spans t =
     map (\<lambda>p. Span (if toLowerCase (piece_text p) = ''@everyone'' then Some ChannelMention else None) (piece_text p))
       (re_cuts everyone_re t)"

definition renderMentions :: "person list \<Rightarrow> string \<Rightarrow> inline list" where
  "renderMentions users t =
     concat (map (\<lambda>(s, mention). if mention then [Span (Some UserMention) s] else everyone_spans s) (messageSegments t users))"

function mobile_links :: "url_parser \<Rightarrow> (string \<Rightarrow> inline list) \<Rightarrow> (string \<Rightarrow> inline list) \<Rightarrow> string \<Rightarrow> inline list" where
  "mobile_links url nested plain a =
     (case nextInlineLink a of
        None \<Rightarrow> (if a \<noteq> [] then appendFormattedText nested plain a else [])
      | Some (pre, l, h, rest) \<Rightarrow>
          (if pre \<noteq> [] then appendFormattedText nested plain pre else []) @
          (case l of
             Some t \<Rightarrow> [appendLink url (nested t) h]
           | None \<Rightarrow>
               (let (href, trailing) = splitTrailingUrlPunctuation h
                in appendLink url [Span None href] href # (if trailing \<noteq> [] then [Span None trailing] else []))) @
          mobile_links url nested plain rest)"
  by pat_completeness auto
termination by (relation "measure (\<lambda>(_, _, _, a). length a)") (auto dest: nextInlineLink_shrinks)

declare mobile_links.simps [simp del]

lemma mobile_links_cong [fundef_cong]:
  assumes "a = a'" "url = url'" "plain = plain'" "\<And>v. length v < length a' \<Longrightarrow> n v = n' v"
  shows "mobile_links url n plain a = mobile_links url' n' plain' a'"
  unfolding assms(1-3) using assms(4)
proof (induction "length a'" arbitrary: a' rule: less_induct)
  case less
  show ?case
  proof (cases "nextInlineLink a'")
    case None
    then show ?thesis
      using less(2) by (simp add: mobile_links.simps [of _ _ _ a'] appendFormattedText_cong [of a' n n'])
  next
    case (Some m)
    obtain pre l h rest where m: "m = (pre, l, h, rest)" by (cases m)
    note sh = nextInlineLink_shrinks [OF Some [unfolded m]]
    have "mobile_links url' n plain' rest = mobile_links url' n' plain' rest" using sh less(2) by (intro less(1)) auto
    moreover have "appendFormattedText n plain' pre = appendFormattedText n' plain' pre"
      using sh less(2) by (intro appendFormattedText_cong) auto
    moreover have "l = Some t \<Longrightarrow> n t = n' t" for t using sh less(2) by auto
    ultimately show ?thesis
      unfolding mobile_links.simps [of _ _ _ a'] Some m by (simp split: option.splits)
  qed
qed

function mobile_formatInline :: "url_parser \<Rightarrow> person list \<Rightarrow> string \<Rightarrow> inline list" where
  "mobile_formatInline url users t =
     (let nodes =
        concat (map (\<lambda>p. case p of
            Between chunk \<Rightarrow>
              mobile_links url (\<lambda>v. if re_test nested_re v then mobile_formatInline url users v else renderMentions users v)
                (renderMentions users) chunk
          | Match g m \<Rightarrow> [CodeSpan (mid 1 m)]) (re_cuts code_re t))
      in if nodes = [] then renderMentions users t else nodes)"
  by pat_completeness auto
termination
proof (relation "measure (\<lambda>(_, _, t). length t)")
  fix t p chunk and v :: string assume "p \<in> set (re_cuts code_re t)" "p = Between chunk" "length v < length chunk"
  then show "((url, users, v), url, users, t) \<in> measure (\<lambda>(_, _, t). length t)" for url :: url_parser and users :: "person list"
    using re_cuts_length [of p code_re t] by simp
qed simp

declare mobile_formatInline.simps [simp del]

definition mobile_FormattedMessage :: "url_parser \<Rightarrow> string \<Rightarrow> person list \<Rightarrow> rendered list option" where
  "mobile_FormattedMessage url body users =
     (if body = [] then None else Some (map (render_block (mobile_formatInline url users)) (parseMessageBlocks body)))"

lemma renderMentions_safe: "safe_nodes (renderMentions users t)"
  by (auto simp: renderMentions_def safe_nodes_def everyone_spans_def split: if_splits)

lemma appendLink_safe:
  "url_prints_protocol url \<Longrightarrow> safe_nodes ns \<Longrightarrow> \<forall>h \<in> set (hrefs (appendLink url ns href)). safe_href h"
  using normalizeMessageLink_safe by (auto simp: appendLink_def safe_nodes_def split: option.splits)

lemma safe_nodes_append [simp]: "safe_nodes (xs @ ys) \<longleftrightarrow> safe_nodes xs \<and> safe_nodes ys"
  by (auto simp: safe_nodes_def)

lemma mobile_links_safe:
  assumes "url_prints_protocol url" "\<And>v. length v < length a \<Longrightarrow> safe_nodes (nested v)" "\<And>v. safe_nodes (plain v)"
  shows "safe_nodes (mobile_links url nested plain a)"
  using assms(2)
proof (induction "length a" arbitrary: a rule: less_induct)
  case less
  show ?case
  proof (cases "nextInlineLink a")
    case None
    then show ?thesis
      using less(2) assms(3) by (simp add: mobile_links.simps [of _ _ _ a] appendFormattedText_safe)
  next
    case (Some m)
    obtain pre l h rest where m: "m = (pre, l, h, rest)" by (cases m)
    note sh = nextInlineLink_shrinks [OF Some [unfolded m]]
    have "safe_nodes (mobile_links url nested plain rest)" using sh less(2) by (intro less(1)) auto
    moreover have "safe_nodes (appendFormattedText nested plain pre)"
      using sh less(2) assms(3) by (intro appendFormattedText_safe) auto
    moreover have "\<forall>y \<in> set (hrefs (appendLink url (nested t) h)). safe_href y" if "l = Some t" for t
      using sh less(2) that by (intro appendLink_safe [OF assms(1)]) auto
    moreover have "\<forall>y \<in> set (hrefs (appendLink url [Span None x] x)). safe_href y" for x
      using appendLink_safe [OF assms(1), of "[Span None x]" x] by simp
    ultimately show ?thesis
      unfolding mobile_links.simps [of _ _ _ a] Some m
      by (simp split: option.splits prod.splits)
  qed
qed

lemma mobile_formatInline_safe: "url_prints_protocol url \<Longrightarrow> safe_nodes (mobile_formatInline url users t)"
proof (induction "length t" arbitrary: t rule: less_induct)
  case less
  define nested where "nested = (\<lambda>v. if re_test nested_re v then mobile_formatInline url users v else renderMentions users v)"
  have n: "safe_nodes (nested v)" if "length v < length t" for v
    using less(1) [OF that less(2)] renderMentions_safe by (simp add: nested_def)
  have piece: "safe_nodes (case p of Between chunk \<Rightarrow> mobile_links url nested (renderMentions users) chunk | Match g m \<Rightarrow> [CodeSpan (mid 1 m)])"
    if "p \<in> set (re_cuts code_re t)" for p
  proof (cases p)
    case (Between chunk)
    then have "length chunk \<le> length t" using re_cuts_length [OF that] by simp
    then show ?thesis unfolding Between using less(2) n renderMentions_safe by (simp add: mobile_links_safe)
  qed simp
  show ?case
    unfolding mobile_formatInline.simps [of url users t] Let_def nested_def [symmetric]
    using renderMentions_safe piece by (auto intro!: safe_nodes_concat simp del: One_nat_def)
qed

text \<open>
  C29: every link of a message shown by the mobile app, so that a tap opens it, has the scheme http, https or
  mailto, whatever the body and the nesting of its marks. The URL parser is any that prints an address with its protocol first.
\<close>

theorem mobile_FormattedMessage_links_safe:
  assumes "url_prints_protocol url" "mobile_FormattedMessage url body users = Some bs"
  shows "message_hrefs bs \<subseteq> Collect safe_href"
proof -
  have "set (hrefs i) \<subseteq> Collect safe_href" if "i \<in> set (rendered_inlines (render_block (mobile_formatInline url users) b))" for b i
    using that mobile_formatInline_safe [OF assms(1)] by (cases b) (auto simp: render_block_def safe_nodes_def)
  then show ?thesis using assms(2) by (fastforce simp: mobile_FormattedMessage_def message_hrefs_def split: if_splits)
qed

text \<open>A URL parser that accepts every address with a colon and prints it as it is.\<close>

definition colon_url :: url_parser where
  "colon_url s = (if CHR '':'' \<in> set s then Some (takeWhile (\<lambda>c. c \<noteq> CHR '':'') s @ '':'', s) else None)"

lemma startsWith_up_to: "c \<in> set s \<Longrightarrow> startsWith s (takeWhile (\<lambda>x. x \<noteq> c) s @ [c])"
  by (induction s) (auto simp: startsWith_iff)

theorem mobile_FormattedMessage_links_safe_witness:
  "\<exists>bs. mobile_FormattedMessage colon_url ''_[a](http://b) c_'' [] = Some bs \<and> ''http://b'' \<in> message_hrefs bs
     \<and> message_hrefs bs \<subseteq> Collect safe_href"
proof -
  define bs where "bs = [Para [Em [], Link ''http://b'' [Span None ''a''], Span None '' c_'']]"
  have f: "mobile_FormattedMessage colon_url ''_[a](http://b) c_'' [] = Some bs" unfolding bs_def by code_simp
  have "url_prints_protocol colon_url"
    using startsWith_up_to [of "CHR '':''"] by (simp add: url_prints_protocol_def colon_url_def)
  from mobile_FormattedMessage_links_safe [OF this f] f show ?thesis
    by (intro exI [of _ bs]) (auto simp: bs_def message_hrefs_def)
qed

end
