(* ===== verification/Mobile_Storage.thy ===== *)
theory Mobile_Storage
  imports Mobile_Api
begin

text \<open>
  What the mobile app keeps on the device: \<^verbatim>\<open>mobile/src/lib/submission-storage.ts\<close>,
  \<^verbatim>\<open>conversation-storage.ts\<close> and \<^verbatim>\<open>learning-cache.ts\<close>. The storage packages (AsyncStorage and SQLite) are the
  parameter \<open>kv\<close>, a record of their operations; the contract \<open>key_value_store\<close> states what the code relies on: a value
  that was written is read back until it is removed, and the list of keys is complete. An operation of the package that
  rejects is not modelled. The main result is that the one table of strings implements four separate maps.
\<close>

section \<open>The storage package\<close>

record 's storage =
  getItem :: "string \<Rightarrow> 's \<Rightarrow> string option"
  setItem :: "string \<Rightarrow> string \<Rightarrow> 's \<Rightarrow> 's"
  removeItem :: "string \<Rightarrow> 's \<Rightarrow> 's"
  multiRemove :: "string list \<Rightarrow> 's \<Rightarrow> 's"
  getAllKeys :: "'s \<Rightarrow> string list"

text \<open>Removing all keys with one of the prefixes, as the clearing functions do.\<close>

definition remove_prefixes :: "'s storage \<Rightarrow> string list \<Rightarrow> 's \<Rightarrow> 's" where
  "remove_prefixes kv prefixes s =
     (let keys = filter (\<lambda>k. list_ex (startsWith k) prefixes) (getAllKeys kv s)
      in if keys \<noteq> [] then multiRemove kv keys s else s)"

locale key_value_store =
  fixes kv :: "'s storage"
  assumes get_set: "getItem kv k (setItem kv k' v s) = (if k = k' then Some v else getItem kv k s)"
    and get_remove: "getItem kv k (removeItem kv k' s) = (if k = k' then None else getItem kv k s)"
    and get_multiRemove: "getItem kv k (multiRemove kv ks s) = (if k \<in> set ks then None else getItem kv k s)"
    and all_keys: "k \<in> set (getAllKeys kv s) \<longleftrightarrow> getItem kv k s \<noteq> None"
begin

lemmas store_simps = get_set get_remove get_multiRemove all_keys

lemma get_remove_prefixes:
  "getItem kv k (remove_prefixes kv ps s) = (if \<exists>p \<in> set ps. startsWith k p then None else getItem kv k s)"
proof (cases "filter (\<lambda>k. list_ex (startsWith k) ps) (getAllKeys kv s) = []")
  case True
  then have "getItem kv k s = None" if "\<exists>p \<in> set ps. startsWith k p"
    using that all_keys [of k s] by (auto simp: filter_empty_conv list_ex_iff)
  then show ?thesis using True by (auto simp: remove_prefixes_def)
next
  case False
  then show ?thesis by (auto simp: remove_prefixes_def store_simps list_ex_iff)
qed

end

text \<open>The storage that the witnesses run on: an association list, as \<^verbatim>\<open>localStorage\<close> is in the web client.\<close>

definition list_storage :: "(string \<times> string) list storage" where
  "list_storage =
     \<lparr>getItem = (\<lambda>k s. jmap_get s k), setItem = jmap_set, removeItem = (\<lambda>k. filter (\<lambda>e. fst e \<noteq> k)),
      multiRemove = (\<lambda>ks. filter (\<lambda>e. fst e \<notin> set ks)), getAllKeys = map fst\<rparr>"

lemma jmap_get_filter: "jmap_get (filter (\<lambda>e. P (fst e)) m) k = (if P k then jmap_get m k else None)"
  by (induction m) auto

interpretation device: key_value_store list_storage
proof
  show "k \<in> set (getAllKeys list_storage s) \<longleftrightarrow> getItem list_storage k s \<noteq> None" for k s
    by (simp add: list_storage_def map_of_eq_None_iff)
qed (simp_all add: list_storage_def jmap_get_filter [of "\<lambda>x. x \<noteq> _"] jmap_get_filter [of "\<lambda>x. x \<notin> set _"])

section \<open>Submission drafts\<close>

datatype number = Num int | NumLiteral string

record SubmissionDraft =
  draft_text :: string
  base_submission_id :: "number option"
  base_submission_updated_at :: "string option"
  saved_at :: string

definition submissionDraftKey :: "int \<Rightarrow> int \<Rightarrow> string" where
  "submissionDraftKey userId contentBlockId =
     ''csg.submission-draft.'' @ show_int userId @ ''.'' @ show_int contentBlockId"

definition submissionDraftMatches :: "SubmissionDraft \<Rightarrow> number option \<Rightarrow> string option \<Rightarrow> bool" where
  "submissionDraftMatches draft submissionId submissionUpdatedAt \<longleftrightarrow>
     base_submission_id draft = submissionId \<and> base_submission_updated_at draft = submissionUpdatedAt"

definition number_json :: "number option \<Rightarrow> json" where
  "number_json n = (case n of None \<Rightarrow> JNull | Some (Num i) \<Rightarrow> JNum i | Some (NumLiteral s) \<Rightarrow> JReal s)"

text \<open>
  The checks on a parsed draft; \<open>None\<close> when one of them throws. An identifier must be there, as a number or \<^verbatim>\<open>null\<close>; the
  version may be missing. Further properties of the object are not kept.
\<close>

definition draft_of_json :: "json \<Rightarrow> SubmissionDraft option" where
  "draft_of_json j =
     (case (json_get j ''text'', json_get j ''saved_at'') of
        (Some (JStr t), Some (JStr at)) \<Rightarrow>
          (case (case json_get j ''base_submission_id'' of
                   Some JNull \<Rightarrow> Some None
                 | Some (JNum i) \<Rightarrow> Some (Some (Num i))
                 | Some (JReal s) \<Rightarrow> Some (Some (NumLiteral s))
                 | _ \<Rightarrow> None) of
             None \<Rightarrow> None
           | Some base \<Rightarrow>
               (case json_get j ''base_submission_updated_at'' of
                  None \<Rightarrow> Some \<lparr>draft_text = t, base_submission_id = base, base_submission_updated_at = None, saved_at = at\<rparr>
                | Some JNull \<Rightarrow> Some \<lparr>draft_text = t, base_submission_id = base, base_submission_updated_at = None, saved_at = at\<rparr>
                | Some (JStr v) \<Rightarrow> Some \<lparr>draft_text = t, base_submission_id = base, base_submission_updated_at = Some v, saved_at = at\<rparr>
                | _ \<Rightarrow> None))
      | _ \<Rightarrow> None)"

definition json_of_draft :: "SubmissionDraft \<Rightarrow> json" where
  "json_of_draft d =
     JObj [(''text'', JStr (draft_text d)), (''base_submission_id'', number_json (base_submission_id d)),
           (''base_submission_updated_at'', jnull (base_submission_updated_at d)), (''saved_at'', JStr (saved_at d))]"

definition loadSubmissionDraft :: "'s storage \<Rightarrow> int \<Rightarrow> int \<Rightarrow> 's \<Rightarrow> SubmissionDraft option \<times> 's" where
  "loadSubmissionDraft kv userId contentBlockId s =
     (let key = submissionDraftKey userId contentBlockId
      in case getItem kv key s of
           None \<Rightarrow> (None, s)
         | Some v \<Rightarrow>
             if v = [] then (None, s)
             else (case Option.bind (JSON_parse v) draft_of_json of
                     None \<Rightarrow> (None, removeItem kv key s)
                   | Some d \<Rightarrow> (Some d, s)))"

definition saveSubmissionDraft ::
  "'s storage \<Rightarrow> int \<Rightarrow> int \<Rightarrow> string \<Rightarrow> number option \<Rightarrow> string option \<Rightarrow> string \<Rightarrow> 's \<Rightarrow> 's" where
  "saveSubmissionDraft kv userId contentBlockId t baseSubmissionId baseSubmissionUpdatedAt now s =
     (let key = submissionDraftKey userId contentBlockId
      in if trim t = [] then removeItem kv key s
         else setItem kv key
           (stringify (json_of_draft \<lparr>draft_text = t, base_submission_id = baseSubmissionId,
              base_submission_updated_at = baseSubmissionUpdatedAt, saved_at = now\<rparr>)) s)"

definition clearSubmissionDraft :: "'s storage \<Rightarrow> int \<Rightarrow> int \<Rightarrow> 's \<Rightarrow> 's" where
  "clearSubmissionDraft kv userId contentBlockId s = removeItem kv (submissionDraftKey userId contentBlockId) s"

definition submissionPrefix :: "int \<Rightarrow> string" where
  "submissionPrefix userId = ''csg.submission-draft.'' @ show_int userId @ ''.''"

definition clearUserSubmissionDrafts :: "'s storage \<Rightarrow> int \<Rightarrow> 's \<Rightarrow> 's" where
  "clearUserSubmissionDrafts kv userId s = remove_prefixes kv [submissionPrefix userId] s"

section \<open>Conversations\<close>

definition kind_text :: "conversation_kind \<Rightarrow> string" where
  "kind_text k = (case k of Channel_kind \<Rightarrow> ''channel'' | Dm_kind \<Rightarrow> ''dm'')"

definition conversationDraftKey :: "int \<Rightarrow> conversation_kind \<Rightarrow> int \<Rightarrow> string" where
  "conversationDraftKey userId kind i = ''csg.message-draft.'' @ show_int userId @ ''.'' @ kind_text kind @ ''.'' @ show_int i"

definition failedMessagesKey :: "int \<Rightarrow> conversation_kind \<Rightarrow> int \<Rightarrow> string" where
  "failedMessagesKey userId kind i = ''csg.failed-messages.'' @ show_int userId @ ''.'' @ kind_text kind @ ''.'' @ show_int i"

definition threadDraftKey :: "int \<Rightarrow> int \<Rightarrow> string" where
  "threadDraftKey userId rootMessageId = ''csg.thread-draft.'' @ show_int userId @ ''.'' @ show_int rootMessageId"

definition load_text :: "'s storage \<Rightarrow> string \<Rightarrow> 's \<Rightarrow> string" where
  "load_text kv key s = (case getItem kv key s of None \<Rightarrow> [] | Some v \<Rightarrow> v)"

definition save_text :: "'s storage \<Rightarrow> string \<Rightarrow> string \<Rightarrow> 's \<Rightarrow> 's" where
  "save_text kv key body s = (if trim body \<noteq> [] then setItem kv key body s else removeItem kv key s)"

definition loadConversationDraft :: "'s storage \<Rightarrow> int \<Rightarrow> conversation_kind \<Rightarrow> int \<Rightarrow> 's \<Rightarrow> string" where
  "loadConversationDraft kv userId kind i s = load_text kv (conversationDraftKey userId kind i) s"

definition saveConversationDraft :: "'s storage \<Rightarrow> int \<Rightarrow> conversation_kind \<Rightarrow> int \<Rightarrow> string \<Rightarrow> 's \<Rightarrow> 's" where
  "saveConversationDraft kv userId kind i body s = save_text kv (conversationDraftKey userId kind i) body s"

definition loadThreadDraft :: "'s storage \<Rightarrow> int \<Rightarrow> int \<Rightarrow> 's \<Rightarrow> string" where
  "loadThreadDraft kv userId rootMessageId s = load_text kv (threadDraftKey userId rootMessageId) s"

definition saveThreadDraft :: "'s storage \<Rightarrow> int \<Rightarrow> int \<Rightarrow> string \<Rightarrow> 's \<Rightarrow> 's" where
  "saveThreadDraft kv userId rootMessageId body s = save_text kv (threadDraftKey userId rootMessageId) body s"

text \<open>A message in the list of failed ones; reading a property of \<^verbatim>\<open>null\<close> throws.\<close>

definition is_failed :: "json \<Rightarrow> bool" where
  "is_failed m \<longleftrightarrow> json_get m ''client_status'' = Some (JStr ''failed'')"

definition failed_of_json :: "json \<Rightarrow> json list option" where
  "failed_of_json j = (case j of JArr ms \<Rightarrow> if JNull \<in> set ms then None else Some (filter is_failed ms) | _ \<Rightarrow> None)"

definition loadFailedMessages :: "'s storage \<Rightarrow> int \<Rightarrow> conversation_kind \<Rightarrow> int \<Rightarrow> 's \<Rightarrow> json list \<times> 's" where
  "loadFailedMessages kv userId kind i s =
     (let key = failedMessagesKey userId kind i
      in case getItem kv key s of
           None \<Rightarrow> ([], s)
         | Some v \<Rightarrow>
             if v = [] then ([], s)
             else (case Option.bind (JSON_parse v) failed_of_json of
                     None \<Rightarrow> ([], removeItem kv key s)
                   | Some ms \<Rightarrow> (ms, s)))"

definition saveFailedMessages :: "'s storage \<Rightarrow> int \<Rightarrow> conversation_kind \<Rightarrow> int \<Rightarrow> json list \<Rightarrow> 's \<Rightarrow> 's" where
  "saveFailedMessages kv userId kind i messages s =
     (let failed = filter is_failed messages; key = failedMessagesKey userId kind i
      in if failed \<noteq> [] then setItem kv key (stringify (JArr failed)) s else removeItem kv key s)"

definition conversationPrefixes :: "int \<Rightarrow> string list" where
  "conversationPrefixes userId =
     [''csg.message-draft.'' @ show_int userId @ ''.'', ''csg.thread-draft.'' @ show_int userId @ ''.'',
      ''csg.failed-messages.'' @ show_int userId @ ''.'']"

definition clearUserConversationStorage :: "'s storage \<Rightarrow> int \<Rightarrow> 's \<Rightarrow> 's" where
  "clearUserConversationStorage kv userId s = remove_prefixes kv (conversationPrefixes userId) s"

section \<open>The learning cache\<close>

definition learningCacheKey :: "int \<Rightarrow> string" where
  "learningCacheKey userId = ''learning-v1:user:'' @ show_int userId"

definition persistClient :: "'s storage \<Rightarrow> int \<Rightarrow> json \<Rightarrow> 's \<Rightarrow> 's" where
  "persistClient kv userId client s = setItem kv (learningCacheKey userId) (stringify client) s"

definition restoreClient :: "'s storage \<Rightarrow> int \<Rightarrow> 's \<Rightarrow> json option \<times> 's" where
  "restoreClient kv userId s =
     (case getItem kv (learningCacheKey userId) s of
        None \<Rightarrow> (None, s)
      | Some v \<Rightarrow> (case JSON_parse v of
                      None \<Rightarrow> (None, removeItem kv (learningCacheKey userId) s)
                    | Some j \<Rightarrow> (Some j, s)))"

definition clearLearningCache :: "'s storage \<Rightarrow> int \<Rightarrow> 's \<Rightarrow> 's" where
  "clearLearningCache kv userId s = removeItem kv (learningCacheKey userId) s"

section \<open>Keys\<close>

lemma kind_text_simps [key_facts]:
  "kind_text k @ r = kind_text k' @ r' \<longleftrightarrow> k = k' \<and> r = r'"
  by (cases k; cases k') (auto simp: kind_text_def)

lemmas key_defs = submissionDraftKey_def conversationDraftKey_def failedMessagesKey_def threadDraftKey_def

lemma key_inj [key_facts]:
  "submissionDraftKey u b = submissionDraftKey u' b' \<longleftrightarrow> u = u' \<and> b = b'"
  "conversationDraftKey u k i = conversationDraftKey u' k' i' \<longleftrightarrow> u = u' \<and> k = k' \<and> i = i'"
  "failedMessagesKey u k i = failedMessagesKey u' k' i' \<longleftrightarrow> u = u' \<and> k = k' \<and> i = i'"
  "threadDraftKey u b = threadDraftKey u' b' \<longleftrightarrow> u = u' \<and> b = b'"
  by (auto simp: key_defs key_facts)

lemma key_neq [key_facts]:
  "submissionDraftKey u b \<noteq> conversationDraftKey v k i" "submissionDraftKey u b \<noteq> failedMessagesKey v k i"
  "submissionDraftKey u b \<noteq> threadDraftKey v r" "conversationDraftKey u k i \<noteq> failedMessagesKey v k' i'"
  "conversationDraftKey u k i \<noteq> threadDraftKey v r" "failedMessagesKey u k i \<noteq> threadDraftKey v r"
  by (simp_all add: key_defs)

lemmas key_neq_sym [key_facts] = key_neq [symmetric]

lemma starts_dotted [key_facts]: "startsWith (show_int i @ CHR ''.'' # r) (show_int j @ ''.'') \<longleftrightarrow> i = j"
  by (auto simp: startsWith_iff key_facts)

lemma submission_prefix [key_facts]:
  "startsWith (submissionDraftKey u b) (submissionPrefix v) \<longleftrightarrow> u = v"
  "\<not> startsWith (conversationDraftKey u k i) (submissionPrefix v)"
  "\<not> startsWith (failedMessagesKey u k i) (submissionPrefix v)"
  "\<not> startsWith (threadDraftKey u r) (submissionPrefix v)"
  using starts_dotted [of u "show_int b" v]
  by (auto simp: key_defs submissionPrefix_def startsWith_iff)

lemma conversation_prefix [key_facts]:
  "(\<exists>p \<in> set (conversationPrefixes v). startsWith (conversationDraftKey u k i) p) \<longleftrightarrow> u = v"
  "(\<exists>p \<in> set (conversationPrefixes v). startsWith (failedMessagesKey u k i) p) \<longleftrightarrow> u = v"
  "(\<exists>p \<in> set (conversationPrefixes v). startsWith (threadDraftKey u r) p) \<longleftrightarrow> u = v"
  "\<not> (\<exists>p \<in> set (conversationPrefixes v). startsWith (submissionDraftKey u b) p)"
  using starts_dotted [of u _ v]
  by (auto simp: key_defs conversationPrefixes_def startsWith_iff)

section \<open>Four maps in one table\<close>

record device_data =
  dd_messages :: "int \<Rightarrow> conversation_kind \<Rightarrow> int \<Rightarrow> string"
  dd_threads :: "int \<Rightarrow> int \<Rightarrow> string"
  dd_failed :: "int \<Rightarrow> conversation_kind \<Rightarrow> int \<Rightarrow> json list"
  dd_drafts :: "int \<Rightarrow> int \<Rightarrow> SubmissionDraft option"

text \<open>What a store stands for: what the loading functions return.\<close>

definition device_abs :: "'s storage \<Rightarrow> 's \<Rightarrow> device_data" where
  "device_abs kv s =
     \<lparr>dd_messages = (\<lambda>u k i. loadConversationDraft kv u k i s), dd_threads = (\<lambda>u r. loadThreadDraft kv u r s),
      dd_failed = (\<lambda>u k i. fst (loadFailedMessages kv u k i s)), dd_drafts = (\<lambda>u b. fst (loadSubmissionDraft kv u b s))\<rparr>"

datatype device_op =
    Load_message int conversation_kind int
  | Save_message int conversation_kind int string
  | Load_thread int int
  | Save_thread int int string
  | Load_failed int conversation_kind int
  | Save_failed int conversation_kind int "json list"
  | Load_draft int int
  | Save_draft int int string "number option" "string option" string
  | Clear_draft int int
  | Clear_drafts int
  | Clear_conversations int

datatype device_value = Done | Text_value string | Failed_value "json list" | Draft_value "SubmissionDraft option"

fun device_exec :: "'s storage \<Rightarrow> device_op \<Rightarrow> 's \<Rightarrow> device_value \<times> 's" where
  "device_exec kv (Load_message u k i) s = (Text_value (loadConversationDraft kv u k i s), s)"
| "device_exec kv (Save_message u k i t) s = (Done, saveConversationDraft kv u k i t s)"
| "device_exec kv (Load_thread u r) s = (Text_value (loadThreadDraft kv u r s), s)"
| "device_exec kv (Save_thread u r t) s = (Done, saveThreadDraft kv u r t s)"
| "device_exec kv (Load_failed u k i) s = map_prod Failed_value id (loadFailedMessages kv u k i s)"
| "device_exec kv (Save_failed u k i ms) s = (Done, saveFailedMessages kv u k i ms s)"
| "device_exec kv (Load_draft u b) s = map_prod Draft_value id (loadSubmissionDraft kv u b s)"
| "device_exec kv (Save_draft u b t base upd now) s = (Done, saveSubmissionDraft kv u b t base upd now s)"
| "device_exec kv (Clear_draft u b) s = (Done, clearSubmissionDraft kv u b s)"
| "device_exec kv (Clear_drafts u) s = (Done, clearUserSubmissionDrafts kv u s)"
| "device_exec kv (Clear_conversations u) s = (Done, clearUserConversationStorage kv u s)"

text \<open>The same operations on four maps that know nothing of keys and JSON.\<close>

definition upd2 :: "'a \<Rightarrow> 'b \<Rightarrow> 'v \<Rightarrow> ('a \<Rightarrow> 'b \<Rightarrow> 'v) \<Rightarrow> 'a \<Rightarrow> 'b \<Rightarrow> 'v" where
  "upd2 a b v f = (\<lambda>x y. if x = a \<and> y = b then v else f x y)"

definition upd3 :: "'a \<Rightarrow> 'b \<Rightarrow> 'c \<Rightarrow> 'v \<Rightarrow> ('a \<Rightarrow> 'b \<Rightarrow> 'c \<Rightarrow> 'v) \<Rightarrow> 'a \<Rightarrow> 'b \<Rightarrow> 'c \<Rightarrow> 'v" where
  "upd3 a b c v f = (\<lambda>x y z. if x = a \<and> y = b \<and> z = c then v else f x y z)"

definition kept_text :: "string \<Rightarrow> string" where
  "kept_text t = (if trim t = [] then [] else t)"

fun device_spec :: "device_op \<Rightarrow> device_data \<Rightarrow> device_value \<times> device_data" where
  "device_spec (Load_message u k i) d = (Text_value (dd_messages d u k i), d)"
| "device_spec (Save_message u k i t) d = (Done, d\<lparr>dd_messages := upd3 u k i (kept_text t) (dd_messages d)\<rparr>)"
| "device_spec (Load_thread u r) d = (Text_value (dd_threads d u r), d)"
| "device_spec (Save_thread u r t) d = (Done, d\<lparr>dd_threads := upd2 u r (kept_text t) (dd_threads d)\<rparr>)"
| "device_spec (Load_failed u k i) d = (Failed_value (dd_failed d u k i), d)"
| "device_spec (Save_failed u k i ms) d = (Done, d\<lparr>dd_failed := upd3 u k i (filter is_failed ms) (dd_failed d)\<rparr>)"
| "device_spec (Load_draft u b) d = (Draft_value (dd_drafts d u b), d)"
| "device_spec (Save_draft u b t base upd now) d =
     (Done, d\<lparr>dd_drafts := upd2 u b (if trim t = [] then None else Some \<lparr>draft_text = t, base_submission_id = base,
        base_submission_updated_at = upd, saved_at = now\<rparr>) (dd_drafts d)\<rparr>)"
| "device_spec (Clear_draft u b) d = (Done, d\<lparr>dd_drafts := upd2 u b None (dd_drafts d)\<rparr>)"
| "device_spec (Clear_drafts u) d = (Done, d\<lparr>dd_drafts := (dd_drafts d)(u := \<lambda>_. None)\<rparr>)"
| "device_spec (Clear_conversations u) d =
     (Done, d\<lparr>dd_messages := (dd_messages d)(u := \<lambda>_ _. []), dd_threads := (dd_threads d)(u := \<lambda>_. []),
        dd_failed := (dd_failed d)(u := \<lambda>_ _. [])\<rparr>)"

text \<open>Identifiers are integers, and messages have no numbers with a fraction.\<close>

fun plain_op :: "device_op \<Rightarrow> bool" where
  "plain_op (Save_failed u k i ms) = list_all json_ok ms"
| "plain_op (Save_draft u b t base upd now) = (case base of Some (NumLiteral s) \<Rightarrow> False | _ \<Rightarrow> True)"
| "plain_op _ = True"

text \<open>What the loading functions make of one stored value.\<close>

definition text_of :: "string option \<Rightarrow> string" where
  "text_of v = (case v of None \<Rightarrow> [] | Some t \<Rightarrow> t)"

definition failed_of :: "string option \<Rightarrow> json list" where
  "failed_of v =
     (case v of None \<Rightarrow> [] | Some t \<Rightarrow> if t = [] then [] else case Option.bind (JSON_parse t) failed_of_json of None \<Rightarrow> [] | Some ms \<Rightarrow> ms)"

definition draft_of :: "string option \<Rightarrow> SubmissionDraft option" where
  "draft_of v = (case v of None \<Rightarrow> None | Some t \<Rightarrow> if t = [] then None else Option.bind (JSON_parse t) draft_of_json)"

lemma of_None [simp]: "text_of None = []" "failed_of None = []" "draft_of None = None"
  by (simp_all add: text_of_def failed_of_def draft_of_def)

lemma loads:
  "loadConversationDraft kv u k i s = text_of (getItem kv (conversationDraftKey u k i) s)"
  "loadThreadDraft kv u r s = text_of (getItem kv (threadDraftKey u r) s)"
  "fst (loadFailedMessages kv u k i s) = failed_of (getItem kv (failedMessagesKey u k i) s)"
  "fst (loadSubmissionDraft kv u b s) = draft_of (getItem kv (submissionDraftKey u b) s)"
  by (auto simp: loadConversationDraft_def loadThreadDraft_def load_text_def text_of_def loadFailedMessages_def failed_of_def
      loadSubmissionDraft_def draft_of_def Let_def split: option.splits)

lemma stringify_ne [simp]: "stringify (JObj kvs) \<noteq> []" "stringify (JArr xs) \<noteq> []"
  by simp_all

lemma draft_round_trip:
  assumes "case base of Some (NumLiteral s) \<Rightarrow> False | _ \<Rightarrow> True"
  shows "draft_of (Some (stringify (json_of_draft \<lparr>draft_text = t, base_submission_id = base,
    base_submission_updated_at = upd, saved_at = now\<rparr>))) =
      Some \<lparr>draft_text = t, base_submission_id = base, base_submission_updated_at = upd, saved_at = now\<rparr>"
proof -
  define j where "j = json_of_draft \<lparr>draft_text = t, base_submission_id = base, base_submission_updated_at = upd, saved_at = now\<rparr>"
  have ok: "json_ok j"
    using assms by (auto simp: j_def json_of_draft_def number_json_def jnull_def split: option.splits number.splits)
  have "draft_of_json j = Some \<lparr>draft_text = t, base_submission_id = base, base_submission_updated_at = upd, saved_at = now\<rparr>"
    using assms by (auto simp: j_def json_of_draft_def number_json_def jnull_def draft_of_json_def split: option.splits number.splits)
  moreover have "stringify j \<noteq> []" by (simp add: j_def json_of_draft_def)
  ultimately show ?thesis using JSON_round_trip [OF ok] by (simp add: draft_of_def j_def [symmetric])
qed

lemma null_not_failed: "\<not> is_failed JNull"
  by (simp add: is_failed_def)

lemma failed_round_trip:
  assumes "list_all json_ok ms"
  shows "failed_of (Some (stringify (JArr (filter is_failed ms)))) = filter is_failed ms"
proof -
  have "json_ok (JArr (filter is_failed ms))" using assms by (auto simp: list_all_iff)
  from JSON_round_trip [OF this]
  have "Option.bind (JSON_parse (stringify (JArr (filter is_failed ms)))) failed_of_json = Some (filter is_failed ms)"
    by (auto simp: failed_of_json_def null_not_failed simp del: stringify.simps)
  then show ?thesis by (simp add: failed_of_def del: stringify.simps)
qed

context key_value_store
begin

lemmas abs_simps = device_abs_def loads store_simps get_remove_prefixes key_facts fun_eq_iff upd2_def upd3_def

lemma refines_message: "device_abs kv (saveConversationDraft kv u k i t s) = snd (device_spec (Save_message u k i t) (device_abs kv s))"
  by (simp add: saveConversationDraft_def save_text_def abs_simps kept_text_def text_of_def)

lemma refines_thread: "device_abs kv (saveThreadDraft kv u r t s) = snd (device_spec (Save_thread u r t) (device_abs kv s))"
  by (simp add: saveThreadDraft_def save_text_def abs_simps kept_text_def text_of_def)

lemma refines_failed:
  "list_all json_ok ms \<Longrightarrow>
     device_abs kv (saveFailedMessages kv u k i ms s) = snd (device_spec (Save_failed u k i ms) (device_abs kv s))"
  using failed_round_trip [of ms] by (auto simp: saveFailedMessages_def Let_def abs_simps simp del: stringify.simps)

lemma refines_draft:
  "plain_op (Save_draft u b t base upd now) \<Longrightarrow>
     device_abs kv (saveSubmissionDraft kv u b t base upd now s) = snd (device_spec (Save_draft u b t base upd now) (device_abs kv s))"
  using draft_round_trip [of base t upd now] by (auto simp: saveSubmissionDraft_def Let_def abs_simps)

lemma refines_clear:
  "device_abs kv (clearSubmissionDraft kv u b s) = snd (device_spec (Clear_draft u b) (device_abs kv s))"
  "device_abs kv (clearUserSubmissionDrafts kv u s) = snd (device_spec (Clear_drafts u) (device_abs kv s))"
  "device_abs kv (clearUserConversationStorage kv u s) = snd (device_spec (Clear_conversations u) (device_abs kv s))"
  by (auto simp: clearSubmissionDraft_def clearUserSubmissionDrafts_def clearUserConversationStorage_def abs_simps)

text \<open>A value that cannot be read is removed, which changes nothing of what can be read.\<close>

lemma refines_load:
  "device_abs kv (snd (loadFailedMessages kv u k i s)) = device_abs kv s"
  "device_abs kv (snd (loadSubmissionDraft kv u b s)) = device_abs kv s"
proof -
  show "device_abs kv (snd (loadFailedMessages kv u k i s)) = device_abs kv s"
  proof (cases "snd (loadFailedMessages kv u k i s) = s")
    case False
    then have "failed_of (getItem kv (failedMessagesKey u k i) s) = []"
        "snd (loadFailedMessages kv u k i s) = removeItem kv (failedMessagesKey u k i) s"
      by (auto simp: loadFailedMessages_def failed_of_def Let_def split: option.splits if_splits)
    then show ?thesis by (auto simp: abs_simps)
  qed simp
  show "device_abs kv (snd (loadSubmissionDraft kv u b s)) = device_abs kv s"
  proof (cases "snd (loadSubmissionDraft kv u b s) = s")
    case False
    then have "draft_of (getItem kv (submissionDraftKey u b) s) = None"
        "snd (loadSubmissionDraft kv u b s) = removeItem kv (submissionDraftKey u b) s"
      by (auto simp: loadSubmissionDraft_def draft_of_def Let_def split: option.splits if_splits)
    then show ?thesis by (auto simp: abs_simps)
  qed simp
qed

lemma device_step:
  "plain_op op \<Longrightarrow> device_spec op (device_abs kv s) = (fst (device_exec kv op s), device_abs kv (snd (device_exec kv op s)))"
proof (cases op)
  case (Load_failed u k i)
  then show ?thesis using refines_load(1) by (simp add: device_abs_def split: prod.splits)
next
  case (Load_draft u b)
  then show ?thesis using refines_load(2) by (simp add: device_abs_def split: prod.splits)
qed (use refines_message refines_thread refines_failed refines_draft refines_clear in \<open>simp_all add: device_abs_def\<close>)

end

sublocale key_value_store \<subseteq> maps: functional_refinement "device_exec kv" device_spec "device_abs kv" plain_op
  by unfold_locales (rule device_step)

context key_value_store
begin

lemmas device_outputs = maps.outputs_refine

end



end
