(* ===== verification/Mobile_Session.thy ===== *)
theory Mobile_Session
  imports Mobile_Storage
begin

text \<open>
  The session of the mobile app: \<^verbatim>\<open>mobile/src/providers/session-provider.tsx\<close>, \<^verbatim>\<open>mobile/src/lib/session-access.ts\<close> and
  the gate of \<^verbatim>\<open>mobile/src/app/(app)/_layout.tsx\<close>. The provider is a step machine: the sign-in service changes, a refresh starts,
  its reply arrives (any number may be in flight), a device registration ends, the user signs out. Replies are the results of
  the API client. Between two awaits on the network a handler runs as one step; the effects that copy the user's id
  to the refs run with the update of the user.
\<close>

section \<open>Which failures lock the account out\<close>

definition ACCESS_DENIED_CODES :: "string list" where
  "ACCESS_DENIED_CODES = [''account_not_authorized'', ''account_archived'']"

definition isSessionAccessDenied :: "mobile_result \<Rightarrow> bool" where
  "isSessionAccessDenied r =
     (case r of
        Api_error m st code \<Rightarrow> st = Some 403 \<and> (case code of Some (JStr c) \<Rightarrow> c \<in> set ACCESS_DENIED_CODES | _ \<Rightarrow> False)
      | _ \<Rightarrow> False)"

definition canUseCachedSession :: "mobile_result \<Rightarrow> bool" where
  "canUseCachedSession r =
     (case r of
        Api_error m st code \<Rightarrow> (case st of None \<Rightarrow> True | Some n \<Rightarrow> n = 408 \<or> n = 429 \<or> 500 \<le> n)
      | _ \<Rightarrow> False)"

section \<open>State\<close>

record auth_state =
  auth_loaded :: bool
  auth_signedIn :: bool
  auth_subject :: "string option"
  auth_demo :: bool

text \<open>A user is the JSON value of the service. A refresh in flight has captured its cache key.\<close>

record ('s, 'd) session =
  ss_store :: 's
  ss_db :: 'd
  ss_auth :: auth_state
  ss_user :: "json option"
  ss_loading :: bool
  ss_error :: "string option"
  ss_accessDenied :: bool
  ss_userIdRef :: "int option"
  ss_lastUserIdRef :: "int option"
  ss_pending :: "string option list"
  ss_pushes :: nat

definition PUSH_TOKEN_KEY :: string where "PUSH_TOKEN_KEY = ''csg.push.token''"

definition demoUser :: json where
  "demoUser =
     JObj [(''id'', JNum 7), (''clerk_id'', JStr ''demo''), (''email'', JStr ''leon@codeschoolofguam.com''), (''first_name'', JStr ''Leon''),
           (''last_name'', JStr ''Shimizu''), (''full_name'', JStr ''Leon Shimizu''), (''role'', JStr ''admin''),
           (''github_username'', JStr ''leonshimizu''), (''avatar_url'', JNull), (''is_admin'', JBool True), (''is_staff'', JBool True)]"

definition userCacheKey :: "auth_state \<Rightarrow> string option" where
  "userCacheKey a = (case auth_subject a of None \<Rightarrow> None | Some sub \<Rightarrow> if sub = [] then None else Some (''csg.session.user.'' @ sub))"

text \<open>\<open>user.id\<close>; identifiers are integers, and 0 counts as none.\<close>

definition json_id :: "json \<Rightarrow> int option" where
  "json_id j = (case json_get j ''id'' of Some (JNum i) \<Rightarrow> if i = 0 then None else Some i | _ \<Rightarrow> None)"

definition cached_id :: "string option \<Rightarrow> int option" where
  "cached_id cached = Option.bind cached (\<lambda>v. if v = [] then None else Option.bind (JSON_parse v) json_id)"

text \<open>\<^verbatim>\<open>setUser\<close> and the effect that follows a change of the user's id.\<close>

definition set_user :: "json option \<Rightarrow> ('s, 'd) session \<Rightarrow> ('s, 'd) session" where
  "set_user u s =
     (let i = Option.bind u json_id
      in s\<lparr>ss_user := u, ss_userIdRef := i, ss_lastUserIdRef := (case i of None \<Rightarrow> ss_lastUserIdRef s | Some _ \<Rightarrow> i)\<rparr>)"

definition session_init :: "auth_state \<Rightarrow> 's \<Rightarrow> 'd \<Rightarrow> ('s, 'd) session" where
  "session_init a st db =
     set_user (if auth_demo a then Some demoUser else None)
       \<lparr>ss_store = st, ss_db = db, ss_auth = a, ss_user = None, ss_loading = (\<not> auth_demo a), ss_error = None,
        ss_accessDenied = False, ss_userIdRef = None, ss_lastUserIdRef = None, ss_pending = [], ss_pushes = 0\<rparr>"

section \<open>Clearing what belongs to a user\<close>

definition user_keys :: "int \<Rightarrow> string list" where
  "user_keys u = [''csg.inbox.'' @ show_int u, ''csg.workspaces.'' @ show_int u, ''csg.workspace.active.'' @ show_int u]"

text \<open>The three clearings run side by side; one that fails is ignored and leaves its data.\<close>

record clear_outcome =
  clear_learning_ok :: bool
  clear_conversations_ok :: bool
  clear_drafts_ok :: bool

definition clear_user :: "'s storage \<Rightarrow> 'd storage \<Rightarrow> clear_outcome \<Rightarrow> string option \<Rightarrow> int option \<Rightarrow> ('s, 'd) session \<Rightarrow> ('s, 'd) session" where
  "clear_user kv dbs ok key uid s =
     (let keys = [PUSH_TOKEN_KEY] @ (case key of None \<Rightarrow> [] | Some k \<Rightarrow> [k]) @ (case uid of None \<Rightarrow> [] | Some u \<Rightarrow> user_keys u);
          s1 = (case uid of
                  None \<Rightarrow> s
                | Some u \<Rightarrow>
                    s\<lparr>ss_db := (if clear_learning_ok ok then clearLearningCache dbs u (ss_db s) else ss_db s),
                      ss_store := (let st = (if clear_conversations_ok ok then clearUserConversationStorage kv u (ss_store s) else ss_store s)
                                   in if clear_drafts_ok ok then clearUserSubmissionDrafts kv u st else st)\<rparr>)
      in s1\<lparr>ss_store := multiRemove kv keys (ss_store s1)\<rparr>)"

section \<open>Refreshing\<close>

definition start_refresh :: "('s, 'd) session \<Rightarrow> ('s, 'd) session" where
  "start_refresh s =
     (if \<not> auth_signedIn (ss_auth s) then (set_user None s)\<lparr>ss_error := None, ss_accessDenied := False, ss_loading := False\<rparr>
      else if auth_demo (ss_auth s) then
        (set_user (Some demoUser) s)\<lparr>ss_error := None, ss_accessDenied := False, ss_loading := False\<rparr>
      else s\<lparr>ss_loading := (ss_userIdRef s = None), ss_pending := ss_pending s @ [userCacheKey (ss_auth s)]\<rparr>)"

definition json_user :: "json \<Rightarrow> json option" where
  "json_user u = (if u = JNull then None else Some u)"

definition refresh_ok :: "'s storage \<Rightarrow> string option \<Rightarrow> json \<Rightarrow> ('s, 'd) session \<Rightarrow> ('s, 'd) session" where
  "refresh_ok kv key u s =
     (let s1 = (set_user (json_user u) s)\<lparr>ss_error := None, ss_accessDenied := False\<rparr>
      in s1\<lparr>ss_store := (case key of None \<Rightarrow> ss_store s1 | Some k \<Rightarrow> setItem kv k (stringify u) (ss_store s1)),
            ss_pushes := ss_pushes s1 + 1, ss_loading := False\<rparr>)"

text \<open>The message of a thrown value; \<open>raisedMessage\<close> is that of an error of the platform.\<close>

definition failure_message :: "(thrown \<Rightarrow> string) \<Rightarrow> mobile_result \<Rightarrow> string" where
  "failure_message raisedMessage r = (case r of Api_error m _ _ \<Rightarrow> m | Raised t \<Rightarrow> raisedMessage t | Value _ \<Rightarrow> raisedMessage Other_thrown)"

definition refresh_failed ::
  "'s storage \<Rightarrow> 'd storage \<Rightarrow> clear_outcome \<Rightarrow> (thrown \<Rightarrow> string) \<Rightarrow> string option \<Rightarrow> mobile_result \<Rightarrow> ('s, 'd) session \<Rightarrow> ('s, 'd) session" where
  "refresh_failed kv dbs ok raisedMessage key r s =
     (let cached = Option.bind key (\<lambda>k. getItem kv k (ss_store s));
          hasCached = (case cached of None \<Rightarrow> False | Some v \<Rightarrow> v \<noteq> []);
          s1 = (if isSessionAccessDenied r then
                  (let uid = (case cached_id cached of
                                Some i \<Rightarrow> Some i
                              | None \<Rightarrow> (case ss_userIdRef s of Some i \<Rightarrow> Some i | None \<Rightarrow> ss_lastUserIdRef s))
                   in (set_user None (clear_user kv dbs ok key uid s))\<lparr>ss_accessDenied := True\<rparr>)
                else if hasCached \<and> canUseCachedSession r then
                  (case Option.bind cached JSON_parse of
                     Some u \<Rightarrow> set_user (json_user u) s
                   | None \<Rightarrow> set_user None (case key of None \<Rightarrow> s | Some k \<Rightarrow> s\<lparr>ss_store := removeItem kv k (ss_store s)\<rparr>))
                else set_user None s)
      in s1\<lparr>ss_error := Some (failure_message raisedMessage r), ss_loading := False\<rparr>)"

text \<open>A successful answer without a user object cannot be stored by the package and is not modelled.\<close>

definition session_reply ::
  "'s storage \<Rightarrow> 'd storage \<Rightarrow> clear_outcome \<Rightarrow> (thrown \<Rightarrow> string) \<Rightarrow> string option \<Rightarrow> mobile_result \<Rightarrow> ('s, 'd) session \<Rightarrow> ('s, 'd) session option" where
  "session_reply kv dbs ok raisedMessage key r s =
     (case r of
        Value (Some j) \<Rightarrow> map_option (\<lambda>u. refresh_ok kv key u s) (json_get j ''user'')
      | _ \<Rightarrow> Some (refresh_failed kv dbs ok raisedMessage key r s))"

section \<open>Signing out\<close>

definition cleanupUserId :: "'s storage \<Rightarrow> ('s, 'd) session \<Rightarrow> int option" where
  "cleanupUserId kv s =
     (case Option.bind (ss_user s) json_id of
        Some i \<Rightarrow> Some i
      | None \<Rightarrow> (case ss_lastUserIdRef s of
                   Some i \<Rightarrow> Some i
                 | None \<Rightarrow> cached_id (Option.bind (userCacheKey (ss_auth s)) (\<lambda>k. getItem kv k (ss_store s)))))"

text \<open>\<^verbatim>\<open>auth.signOut()\<close> of the sign-in service shows up as a change of \<^verbatim>\<open>auth\<close> afterwards.\<close>

definition signOut :: "'s storage \<Rightarrow> 'd storage \<Rightarrow> clear_outcome \<Rightarrow> ('s, 'd) session \<Rightarrow> ('s, 'd) session" where
  "signOut kv dbs ok s = (clear_user kv dbs ok (userCacheKey (ss_auth s)) (cleanupUserId kv s) s)\<lparr>ss_lastUserIdRef := None\<rparr>"

section \<open>The machine\<close>

datatype session_event =
    Auth_changed auth_state
  | Refresh_started
  | Session_reply nat mobile_result clear_outcome
  | Push_registered string
  | Signed_out clear_outcome

definition drop_nth :: "nat \<Rightarrow> 'a list \<Rightarrow> 'a list" where
  "drop_nth n xs = take n xs @ drop (Suc n) xs"

fun session_step ::
  "'s storage \<Rightarrow> 'd storage \<Rightarrow> (thrown \<Rightarrow> string) \<Rightarrow> session_event \<Rightarrow> ('s, 'd) session \<Rightarrow> ('s, 'd) session option" where
  "session_step kv dbs rm (Auth_changed a) s = Some (s\<lparr>ss_auth := a\<rparr>)"
| "session_step kv dbs rm Refresh_started s = Some (start_refresh s)"
| "session_step kv dbs rm (Session_reply n r ok) s =
     (if n < length (ss_pending s)
      then session_reply kv dbs ok rm (ss_pending s ! n) r (s\<lparr>ss_pending := drop_nth n (ss_pending s)\<rparr>)
      else None)"
| "session_step kv dbs rm (Push_registered token) s =
     (if 0 < ss_pushes s
      then Some (s\<lparr>ss_pushes := ss_pushes s - 1, ss_store := setItem kv PUSH_TOKEN_KEY token (ss_store s)\<rparr>)
      else None)"
| "session_step kv dbs rm (Signed_out ok) s = Some (signOut kv dbs ok s)"

text \<open>What the app shows.\<close>

datatype gate = Blank | Sign_in_screen | Loading_screen | Denied_screen | Error_screen | Policy_screen json | App_screen json

definition app_gate :: "('s, 'd) session \<Rightarrow> gate" where
  "app_gate s =
     (if \<not> auth_loaded (ss_auth s) then Blank
      else if \<not> auth_signedIn (ss_auth s) then Sign_in_screen
      else if ss_loading s then Loading_screen
      else if ss_accessDenied s then Denied_screen
      else (case ss_user s of
              None \<Rightarrow> Error_screen
            | Some u \<Rightarrow>
                (case json_get u ''community_policy'' of
                   Some p \<Rightarrow> if json_truthy p \<and> \<not> (case json_get p ''accepted'' of Some a \<Rightarrow> json_truthy a | None \<Rightarrow> False)
                             then Policy_screen p else App_screen u
                 | None \<Rightarrow> App_screen u)))"

section \<open>Signing out forgets the user and nobody else\<close>

lemma user_keys_inj [key_facts]: "set (user_keys u) \<inter> set (user_keys v) \<noteq> {} \<longleftrightarrow> u = v"
  by (auto simp: user_keys_def)

definition session_key :: "string \<Rightarrow> bool" where
  "session_key k \<longleftrightarrow> startsWith k ''csg.session.user.''"

lemma userCacheKey_session: "userCacheKey a = Some k \<Longrightarrow> session_key k"
  by (auto simp: userCacheKey_def session_key_def startsWith_def split: option.splits if_splits)

text \<open>The keys that are removed by name are none of the keys of drafts and failed messages.\<close>

definition named_key :: "string \<Rightarrow> bool" where
  "named_key k \<longleftrightarrow> k = PUSH_TOKEN_KEY \<or> session_key k \<or> (\<exists>u. k \<in> set (user_keys u))"

lemma named_key_neq [key_facts]:
  "named_key k \<Longrightarrow> k \<noteq> conversationDraftKey u c i" "named_key k \<Longrightarrow> k \<noteq> failedMessagesKey u c i"
  "named_key k \<Longrightarrow> k \<noteq> threadDraftKey u r" "named_key k \<Longrightarrow> k \<noteq> submissionDraftKey u b"
  by (auto simp: named_key_def session_key_def user_keys_def PUSH_TOKEN_KEY_def key_defs startsWith_iff)

lemma named_key_prefix [key_facts]:
  "named_key k \<Longrightarrow> \<not> startsWith k (submissionPrefix u)" "named_key k \<Longrightarrow> p \<in> set (conversationPrefixes u) \<Longrightarrow> \<not> startsWith k p"
  by (auto simp: named_key_def session_key_def user_keys_def PUSH_TOKEN_KEY_def submissionPrefix_def conversationPrefixes_def startsWith_iff)

definition removed_keys :: "string option \<Rightarrow> int option \<Rightarrow> string list" where
  "removed_keys key uid = [PUSH_TOKEN_KEY] @ (case key of None \<Rightarrow> [] | Some k \<Rightarrow> [k]) @ (case uid of None \<Rightarrow> [] | Some u \<Rightarrow> user_keys u)"

lemma removed_keys_named: "(\<And>k. key = Some k \<Longrightarrow> session_key k) \<Longrightarrow> k \<in> set (removed_keys key uid) \<Longrightarrow> named_key k"
  by (auto simp: removed_keys_def named_key_def split: option.splits)

definition all_ok :: clear_outcome where
  "all_ok = \<lparr>clear_learning_ok = True, clear_conversations_ok = True, clear_drafts_ok = True\<rparr>"

context key_value_store
begin

lemma abs_multiRemove: "(\<And>k. k \<in> set ks \<Longrightarrow> named_key k) \<Longrightarrow> device_abs kv (multiRemove kv ks s) = device_abs kv s"
  using named_key_neq by (fastforce simp: device_abs_def loads store_simps fun_eq_iff)

lemma get_clear_user:
  assumes "named_key k"
  shows "getItem kv k (ss_store (clear_user kv dbs ok key uid s)) = (if k \<in> set (removed_keys key uid) then None else getItem kv k (ss_store s))"
  using named_key_prefix [OF assms]
  by (auto simp: clear_user_def removed_keys_def Let_def store_simps clearUserConversationStorage_def clearUserSubmissionDrafts_def
      get_remove_prefixes split: option.splits)

lemma abs_clear_user:
  assumes "\<And>k. key = Some k \<Longrightarrow> session_key k"
  shows "device_abs kv (ss_store (clear_user kv dbs all_ok key (Some u) s)) =
    snd (device_spec (Clear_drafts u) (snd (device_spec (Clear_conversations u) (device_abs kv (ss_store s)))))"
proof -
  have "ss_store (clear_user kv dbs all_ok key (Some u) s) =
      multiRemove kv (removed_keys key (Some u)) (clearUserSubmissionDrafts kv u (clearUserConversationStorage kv u (ss_store s)))"
    by (simp add: clear_user_def removed_keys_def all_ok_def Let_def)
  moreover have "device_abs kv (multiRemove kv (removed_keys key (Some u)) st) = device_abs kv st" for st
    by (rule abs_multiRemove) (rule removed_keys_named [OF assms])
  ultimately show ?thesis by (simp only: refines_clear)
qed

lemma restore_clear: "fst (restoreClient kv v (clearLearningCache kv u db)) = (if v = u then None else fst (restoreClient kv v db))"
  by (auto simp: restoreClient_def clearLearningCache_def store_simps learningCacheKey_def split: option.splits)

end


definition sample_auth :: "string \<Rightarrow> auth_state" where
  "sample_auth sub = \<lparr>auth_loaded = True, auth_signedIn = (sub \<noteq> []), auth_subject = (if sub = [] then None else Some sub), auth_demo = False\<rparr>"

definition sample_user :: "int \<Rightarrow> json" where
  "sample_user i = JObj [(''id'', JNum i)]"

definition sample_session :: "((string \<times> string) list, (string \<times> string) list) session" where
  "sample_session =
     set_user (Some (sample_user 1))
       (session_init (sample_auth ''a'') [(conversationDraftKey 1 Dm_kind 2, ''x''), (conversationDraftKey 12 Dm_kind 2, ''y'')] [])"


section \<open>Opening the app without the service\<close>

text \<open>
  C35: after a refresh has stored the user of an account, a later refresh for that account that cannot reach the service
  (no answer, 408, 429 or a server error) shows that same user with an error; any other failure shows no user.
\<close>

theorem offline_session_round_trip:
  assumes "key_value_store kv" "json_ok u" "u \<noteq> JNull"
    and "getItem kv k (ss_store s) = getItem kv k (ss_store (refresh_ok kv (Some k) u s0))"
    and "session_reply kv dbs ok rm (Some k) (Api_error m st code) s = Some s'"
  shows "ss_user s' = (if canUseCachedSession (Api_error m st code) then Some u else None) \<and>
    ss_error s' = Some m \<and> \<not> ss_loading s'"
proof -
  have v: "getItem kv k (ss_store s) = Some (stringify u)"
    using assms(4) key_value_store.get_set [OF assms(1)] by (simp add: refresh_ok_def Let_def)
  have ne: "stringify u \<noteq> []" using stringify_start [OF assms(2)] by auto
  have denied: "isSessionAccessDenied (Api_error m st code) \<Longrightarrow> \<not> canUseCachedSession (Api_error m st code)"
    by (auto simp: isSessionAccessDenied_def canUseCachedSession_def)
  have s': "s' = refresh_failed kv dbs ok rm (Some k) (Api_error m st code) s"
    using assms(5) by (simp add: session_reply_def)
  show ?thesis
    using denied assms(2,3) ne
    by (auto simp: s' refresh_failed_def v Let_def set_user_def json_user_def failure_message_def)
qed

theorem offline_session_round_trip_witness:
  "\<exists>s'. session_reply list_storage list_storage all_ok (\<lambda>_. []) (Some ''csg.session.user.a'') (Api_error ''offline'' None None)
      (refresh_ok list_storage (Some ''csg.session.user.a'') (sample_user 1) sample_session) = Some s' \<and> ss_user s' = Some (sample_user 1)"
proof -
  define s where "s = refresh_ok list_storage (Some ''csg.session.user.a'') (sample_user 1) sample_session"
  obtain s' where r: "session_reply list_storage list_storage all_ok (\<lambda>_. []) (Some ''csg.session.user.a'') (Api_error ''offline'' None None) s = Some s'"
    by (simp add: session_reply_def)
  have "json_ok (sample_user 1)" "sample_user 1 \<noteq> JNull" by (simp_all add: sample_user_def)
  from offline_session_round_trip [OF device.key_value_store_axioms this _ r, of sample_session] r
  show ?thesis by (auto simp: s_def canUseCachedSession_def)
qed

section \<open>A reply that comes after signing out\<close>


end
