(* ===== verification/Realtime.thy ===== *)
theory Realtime
  imports Mobile_Api
begin

text \<open>
  The realtime connection of both clients: \<^verbatim>\<open>web/src/lib/realtime.ts\<close> and \<^verbatim>\<open>mobile/src/lib/cable.ts\<close>. A subscription is a
  step machine over the events of the network: the answer to the token request, the events of a socket, the reconnect timer and the
  caller's unsubscribing. A socket delivers messages only while it is open, as the WebSocket standard says; \<^verbatim>\<open>close()\<close> ends that at once.
  The contract \<open>quiet_machine\<close> says that a component which was stopped does nothing any more.
\<close>

locale quiet_machine =
  fixes step :: "'e \<Rightarrow> 's \<Rightarrow> 's option"
    and stopped :: "'s \<Rightarrow> bool"
    and observed :: "'s \<Rightarrow> 'o"
  assumes stays_stopped: "stopped s \<Longrightarrow> step e s = Some s' \<Longrightarrow> stopped s'"
    and nothing_observed: "stopped s \<Longrightarrow> step e s = Some s' \<Longrightarrow> observed s' = observed s"
begin

lemma run_quiet: "stopped s \<Longrightarrow> run step s es = Some s' \<Longrightarrow> stopped s' \<and> observed s' = observed s"
proof (induction es arbitrary: s)
  case (Cons e es)
  then obtain s1 where "step e s = Some s1" "run step s1 es = Some s'" by (auto split: option.splits)
  then show ?case using Cons stays_stopped nothing_observed by metis
qed simp

end

section \<open>Sockets\<close>

text \<open>A socket is closing after \<^verbatim>\<open>close()\<close> and closed after its close event, which comes once.\<close>

datatype socket_state = Connecting | Open | Closing | Closed

text \<open>The sockets of a subscription in the order of their creation; the variable \<^verbatim>\<open>socket\<close> refers to the last one.\<close>

definition live :: "socket_state list \<Rightarrow> nat" where
  "live ss = length (filter (\<lambda>x. x \<noteq> Closed) ss)"

definition close_last :: "socket_state list \<Rightarrow> socket_state list" where
  "close_last ss = (if ss = [] \<or> last ss = Closed then ss else butlast ss @ [Closing])"

definition last_open :: "socket_state list \<Rightarrow> bool" where
  "last_open ss \<longleftrightarrow> ss \<noteq> [] \<and> last ss = Open"

section \<open>Web\<close>

datatype RealtimeStatus = Connected | Disconnected | Errored

definition RECONNECT_DELAYS :: "nat list" where "RECONNECT_DELAYS = [1000, 2500, 5000, 10000]"

record subscription =
  closing :: bool
  reconnectAttempts :: nat
  sockets :: "socket_state list"
  reconnectTimer :: "nat option"
  token_requests :: nat
  ready :: bool
  delivered :: "json list"
  statuses :: "RealtimeStatus list"
  sent :: "string list"

text \<open>\<^verbatim>\<open>subscribe\<close> up to its first await: the token is requested.\<close>

definition subscribe :: subscription where
  "subscribe =
     \<lparr>closing = False, reconnectAttempts = 0, sockets = [], reconnectTimer = None, token_requests = 1, ready = False,
      delivered = [], statuses = [], sent = []\<rparr>"

definition on_status :: "RealtimeStatus \<Rightarrow> subscription \<Rightarrow> subscription" where
  "on_status st s = s\<lparr>statuses := statuses s @ [st]\<rparr>"

definition scheduleReconnect :: "subscription \<Rightarrow> subscription" where
  "scheduleReconnect s =
     (if closing s \<or> reconnectTimer s \<noteq> None then s
      else s\<lparr>reconnectTimer := Some (RECONNECT_DELAYS ! min (reconnectAttempts s) (length RECONNECT_DELAYS - 1)),
             reconnectAttempts := reconnectAttempts s + 1\<rparr>)"

text \<open>The rest of \<^verbatim>\<open>connect\<close> when the answer to the token request is there.\<close>

definition connect_reply :: "string option \<Rightarrow> subscription \<Rightarrow> subscription" where
  "connect_reply token s0 =
     (let s = s0\<lparr>token_requests := token_requests s0 - 1, ready := True\<rparr>
      in case token of
           Some t \<Rightarrow> if t = [] \<or> closing s then scheduleReconnect (on_status Errored s)
                     else s\<lparr>sockets := sockets s @ [Connecting]\<rparr>
         | None \<Rightarrow> scheduleReconnect (on_status Errored s))"

definition command :: "string \<Rightarrow> string \<Rightarrow> string" where
  "command c identifier = stringify (JObj [(''command'', JStr c), (''identifier'', JStr identifier)])"

definition socket_open :: "string \<Rightarrow> nat \<Rightarrow> subscription \<Rightarrow> subscription" where
  "socket_open identifier n s =
     (let s1 = s\<lparr>sockets := (sockets s)[n := Open]\<rparr>
      in if closing s1 then s1\<lparr>sockets := close_last (sockets s1)\<rparr>
         else if last_open (sockets s1) then s1\<lparr>sent := sent s1 @ [command ''subscribe'' identifier]\<rparr> else s1)"

text \<open>A message that is not JSON, or \<^verbatim>\<open>null\<close>, makes the listener throw. \<open>accept\<close> is the filter of the subscriber.\<close>

definition socket_message :: "string \<Rightarrow> (json \<Rightarrow> bool) \<Rightarrow> string \<Rightarrow> subscription \<Rightarrow> subscription" where
  "socket_message identifier accept data s =
     (case JSON_parse data of
        None \<Rightarrow> s
      | Some p \<Rightarrow>
          if p = JNull then s
          else if json_get p ''type'' = Some (JStr ''confirm_subscription'') \<and> json_get p ''identifier'' = Some (JStr identifier) then
            on_status Connected (s\<lparr>reconnectAttempts := 0\<rparr>)
          else if json_get p ''type'' = Some (JStr ''reject_subscription'') \<and> json_get p ''identifier'' = Some (JStr identifier) then
            on_status Errored s
          else (case json_get p ''message'' of
                  Some m \<Rightarrow> if json_truthy m \<and> accept m then s\<lparr>delivered := delivered s @ [m]\<rparr> else s
                | None \<Rightarrow> s))"

definition socket_close :: "nat \<Rightarrow> subscription \<Rightarrow> subscription" where
  "socket_close n s =
     (let s1 = s\<lparr>sockets := (sockets s)[n := Closed]\<rparr>
      in if closing s1 then s1 else scheduleReconnect (on_status Disconnected s1))"

definition unsubscribe :: "string \<Rightarrow> subscription \<Rightarrow> subscription" where
  "unsubscribe identifier s =
     (let s1 = s\<lparr>closing := True, reconnectTimer := None\<rparr>
      in s1\<lparr>sent := (if last_open (sockets s1) then sent s1 @ [command ''unsubscribe'' identifier] else sent s1),
            sockets := close_last (sockets s1)\<rparr>)"

datatype socket_event =
    Token_reply "string option"
  | Connect_throws
  | Timer_fires
  | Socket_open nat
  | Socket_message nat string
  | Socket_error nat
  | Socket_close nat
  | Unsubscribe

text \<open>
  An event of a socket needs that socket in the right state. The connection after a timer may throw (its token request or
  the constructor of the socket); the first one is awaited by the caller, who then has no subscription.
\<close>

definition socket_at :: "nat \<Rightarrow> socket_state list \<Rightarrow> socket_state option" where
  "socket_at n ss = (if n < length ss then Some (ss ! n) else None)"

fun subscription_step :: "string \<Rightarrow> (json \<Rightarrow> bool) \<Rightarrow> socket_event \<Rightarrow> subscription \<Rightarrow> subscription option" where
  "subscription_step ident accept (Token_reply token) s = (if 0 < token_requests s then Some (connect_reply token s) else None)"
| "subscription_step ident accept Connect_throws s =
     (if 0 < token_requests s \<and> ready s
      then Some (scheduleReconnect (on_status Errored (s\<lparr>token_requests := token_requests s - 1\<rparr>))) else None)"
| "subscription_step ident accept Timer_fires s =
     (case reconnectTimer s of
        None \<Rightarrow> None | Some _ \<Rightarrow> Some (s\<lparr>reconnectTimer := None, token_requests := token_requests s + 1\<rparr>))"
| "subscription_step ident accept (Socket_open n) s =
     (if socket_at n (sockets s) = Some Connecting then Some (socket_open ident n s) else None)"
| "subscription_step ident accept (Socket_message n data) s =
     (if socket_at n (sockets s) = Some Open then Some (socket_message ident accept data s) else None)"
| "subscription_step ident accept (Socket_error n) s =
     (if socket_at n (sockets s) \<notin> {None, Some Closed} then Some (on_status Errored s) else None)"
| "subscription_step ident accept (Socket_close n) s =
     (if socket_at n (sockets s) \<notin> {None, Some Closed} then Some (socket_close n s) else None)"
| "subscription_step ident accept Unsubscribe s = (if ready s then Some (unsubscribe ident s) else None)"

text \<open>The four subscriptions of the web client: their identifiers, and the filter of the presence channel.\<close>

definition channel_messages_identifier :: "int \<Rightarrow> string" where
  "channel_messages_identifier channelId = stringify (JObj [(''channel'', JStr ''ChannelMessagesChannel''), (''channel_id'', JNum channelId)])"

definition direct_messages_identifier :: "int \<Rightarrow> string" where
  "direct_messages_identifier directConversationId =
     stringify (JObj [(''channel'', JStr ''DirectMessagesChannel''), (''direct_conversation_id'', JNum directConversationId)])"

definition user_messages_identifier :: string where
  "user_messages_identifier = stringify (JObj [(''channel'', JStr ''UserMessagesChannel'')])"

definition staff_presence_identifier :: string where
  "staff_presence_identifier = stringify (JObj [(''channel'', JStr ''PresenceChannel'')])"

fun is_number :: "json option \<Rightarrow> bool" where
  "is_number (Some (JNum i)) = True"
| "is_number (Some (JReal r)) = True"
| "is_number _ = False"

fun is_text :: "json option \<Rightarrow> bool" where
  "is_text (Some (JStr t)) = True"
| "is_text _ = False"

definition isPresenceUpdateEvent :: "json \<Rightarrow> bool" where
  "isPresenceUpdateEvent payload \<longleftrightarrow>
     json_get payload ''event'' = Some (JStr ''presence.updated'') \<and> is_number (json_get payload ''user_id'') \<and>
     is_text (json_get payload ''last_seen_at'')"

section \<open>One connection at a time, and none after unsubscribing\<close>

lemma live_simps [simp]:
  "live [] = 0" "live (x # ss) = (if x = Closed then 0 else 1) + live ss" "live (ss @ ts) = live ss + live ts"
  by (simp_all add: live_def)

lemma live_update:
  "n < length ss \<Longrightarrow> live (ss[n := x]) + (if ss ! n = Closed then 0 else 1) = live ss + (if x = Closed then 0 else 1)"
proof (induction ss arbitrary: n)
  case (Cons y ss)
  then show ?case by (cases n) auto
qed simp

lemma live_close_last: "live (close_last ss) = live ss"
  by (cases ss rule: rev_cases) (auto simp: close_last_def)

lemma length_close_last [simp]: "length (close_last ss) = length ss"
  by (cases ss rule: rev_cases) (auto simp: close_last_def)

lemma live_last: "n < length ss \<Longrightarrow> ss ! n \<noteq> Closed \<Longrightarrow> live ss \<le> 1 \<Longrightarrow> m < length ss \<Longrightarrow> m \<noteq> n \<Longrightarrow> ss ! m = Closed"
  using live_update [of n ss Closed] live_update [of m "ss[n := Closed]" Closed] by (auto split: if_splits)

definition sub_inv :: "subscription \<Rightarrow> bool" where
  "sub_inv s \<longleftrightarrow>
     token_requests s + (if reconnectTimer s = None then 0 else 1) + live (sockets s) \<le> 1 \<and>
     (closing s \<longrightarrow> reconnectTimer s = None \<and> ready s) \<and>
     (\<forall>m < length (sockets s) - 1. sockets s ! m = Closed) \<and>
     (\<forall>d. reconnectTimer s = Some d \<longrightarrow> d \<in> set RECONNECT_DELAYS)"

lemma delay_mem: "RECONNECT_DELAYS ! min n (length RECONNECT_DELAYS - 1) \<in> set RECONNECT_DELAYS"
  by (intro nth_mem) (simp add: RECONNECT_DELAYS_def)

lemma on_status_inv [simp]: "sub_inv (on_status st s) = sub_inv s"
  by (simp add: sub_inv_def on_status_def)

lemma schedule_inv:
  assumes "sub_inv s" "\<not> closing s \<Longrightarrow> reconnectTimer s = None \<Longrightarrow> token_requests s = 0 \<and> live (sockets s) = 0"
  shows "sub_inv (scheduleReconnect s)"
  using assms delay_mem by (auto simp: sub_inv_def scheduleReconnect_def)

lemma live_Closed: "live ss = 0 \<longleftrightarrow> (\<forall>x \<in> set ss. x = Closed)"
  by (induction ss) (auto simp: live_def)

lemma schedule_status_inv:
  assumes "sub_inv s" "token_requests s = 0" "live (sockets s) = 0"
  shows "sub_inv (scheduleReconnect (on_status st s))"
  using assms by (intro schedule_inv) (simp_all only: on_status_inv, simp_all add: on_status_def)

lemma connect_reply_inv [inv_intros]:
  assumes "sub_inv s" "0 < token_requests s"
  shows "sub_inv (connect_reply token s)"
proof -
  define s1 where "s1 = s\<lparr>token_requests := token_requests s - 1, ready := True\<rparr>"
  have z: "token_requests s1 = 0" "live (sockets s1) = 0" "reconnectTimer s1 = None" and i: "sub_inv s1"
    using assms by (auto simp: sub_inv_def s1_def split: if_splits)
  have "sub_inv (scheduleReconnect (on_status Errored s1))"
    using z i by (intro schedule_status_inv)
  moreover have "sub_inv (s1\<lparr>sockets := sockets s1 @ [Connecting]\<rparr>)"
    using z i live_Closed [of "sockets s1"] by (auto simp: sub_inv_def nth_append)
  ultimately show ?thesis by (simp add: connect_reply_def s1_def Let_def split: option.splits)
qed

lemma nth_close_last: "m < length ss - 1 \<Longrightarrow> close_last ss ! m = ss ! m"
  by (cases ss rule: rev_cases) (auto simp: close_last_def nth_append)

lemma sockets_update_inv:
  assumes "sub_inv s" "socket_at n (sockets s) \<notin> {None, Some Closed}" "x \<noteq> Closed"
  shows "sub_inv (s\<lparr>sockets := (sockets s)[n := x]\<rparr>)"
proof -
  have n: "n < length (sockets s)" "sockets s ! n \<noteq> Closed" using assms(2) by (auto simp: socket_at_def split: if_splits)
  then have "live ((sockets s)[n := x]) = live (sockets s)" using live_update [OF n(1), of x] assms(3) by simp
  moreover have "(sockets s)[n := x] ! m = Closed" if "m < length (sockets s) - 1" for m
    using that n assms(1) by (cases "m = n") (auto simp: sub_inv_def)
  ultimately show ?thesis using assms(1) by (simp add: sub_inv_def)
qed

lemma socket_open_inv [inv_intros]:
  assumes "sub_inv s" "socket_at n (sockets s) = Some Connecting"
  shows "sub_inv (socket_open identifier n s)"
proof -
  have "sub_inv (s\<lparr>sockets := (sockets s)[n := Open]\<rparr>)" using assms by (intro sockets_update_inv) auto
  then show ?thesis by (auto simp: socket_open_def Let_def sub_inv_def live_close_last nth_close_last)
qed

lemma socket_message_inv [inv_intros]: "sub_inv s \<Longrightarrow> sub_inv (socket_message identifier accept data s)"
  by (auto simp: socket_message_def sub_inv_def on_status_def split: option.splits)

lemma socket_close_inv [inv_intros]:
  assumes "sub_inv s" "socket_at n (sockets s) \<notin> {None, Some Closed}"
  shows "sub_inv (socket_close n s)"
proof -
  have n: "n < length (sockets s)" "sockets s ! n \<noteq> Closed" using assms(2) by (auto simp: socket_at_def split: if_splits)
  define s1 where "s1 = s\<lparr>sockets := (sockets s)[n := Closed]\<rparr>"
  have l: "live (sockets s1) + 1 = live (sockets s)" using live_update [OF n(1), of Closed] n(2) by (simp add: s1_def)
  then have z: "token_requests s1 = 0" "live (sockets s1) = 0" "reconnectTimer s1 = None"
    using assms(1) by (auto simp: sub_inv_def s1_def split: if_splits)
  have i: "sub_inv s1"
    using assms(1) z l live_Closed [of "sockets s1"] by (auto simp: sub_inv_def s1_def)
  have "sub_inv (scheduleReconnect (on_status Disconnected s1))"
    using z i by (intro schedule_status_inv)
  then show ?thesis using i by (simp add: socket_close_def s1_def Let_def)
qed

lemma unsubscribe_inv [inv_intros]: "sub_inv s \<Longrightarrow> ready s \<Longrightarrow> sub_inv (unsubscribe identifier s)"
  by (auto simp: unsubscribe_def sub_inv_def Let_def live_close_last nth_close_last split: if_splits)

lemma subscription_step_inv: "sub_inv s \<Longrightarrow> subscription_step ident accept e s = Some s' \<Longrightarrow> sub_inv s'"
proof (cases e)
  case Connect_throws
  assume i: "sub_inv s" and st: "subscription_step ident accept e s = Some s'"
  define s1 where "s1 = s\<lparr>token_requests := token_requests s - 1\<rparr>"
  have "sub_inv s1" "token_requests s1 = 0 \<and> live (sockets s1) = 0 \<and> reconnectTimer s1 = None"
    using i st Connect_throws by (auto simp: sub_inv_def s1_def split: if_splits)
  then have "sub_inv (scheduleReconnect (on_status Errored s1))" by (intro schedule_status_inv) auto
  then show ?thesis using st Connect_throws by (auto simp: s1_def split: if_splits)
next
  case Timer_fires
  assume "sub_inv s" "subscription_step ident accept e s = Some s'"
  then show ?thesis using Timer_fires by (auto simp: sub_inv_def split: option.splits)
qed (auto intro: inv_intros split: if_splits)

interpretation web_sub: safe_machine "subscription_step ident accept" "\<lambda>s. s = subscribe" sub_inv
proof unfold_locales
  show "sub_inv s" if "s = subscribe" for s using that by (simp add: sub_inv_def subscribe_def)
qed (rule subscription_step_inv)

definition sub_stopped :: "subscription \<Rightarrow> bool" where
  "sub_stopped s \<longleftrightarrow> closing s \<and> ready s \<and> reconnectTimer s = None \<and> (\<forall>x \<in> set (sockets s). x \<in> {Closing, Closed})"

definition sub_observed :: "subscription \<Rightarrow> json list \<times> string list \<times> nat" where
  "sub_observed s = (delivered s, sent s, length (sockets s))"

lemma socket_at_mem: "socket_at n ss = Some x \<Longrightarrow> x \<in> set ss"
  by (auto simp: socket_at_def split: if_splits)

lemma set_close_last: "set (close_last ss) \<subseteq> set ss \<union> {Closing}"
  by (cases ss rule: rev_cases) (auto simp: close_last_def)

lemma stopped_not_open: "\<forall>x \<in> set ss. x \<in> {Closing, Closed} \<Longrightarrow> \<not> last_open ss"
  using last_in_set by (fastforce simp: last_open_def)

lemma all_but_last_closed:
  assumes "\<forall>m < length ss - 1. ss ! m = Closed"
  shows "\<forall>x \<in> set (close_last ss). x \<in> {Closing, Closed}"
proof (cases ss rule: rev_cases)
  case (snoc ts x)
  then have "\<forall>y \<in> set ts. y = Closed" using assms by (auto simp: in_set_conv_nth nth_append)
  then show ?thesis using snoc by (auto simp: close_last_def)
qed (simp add: close_last_def)

lemma sub_quiet:
  "sub_stopped s \<Longrightarrow> subscription_step ident accept e s = Some s' \<Longrightarrow> sub_stopped s' \<and> sub_observed s' = sub_observed s"
proof (cases e)
  case (Socket_close n)
  assume "sub_stopped s" "subscription_step ident accept e s = Some s'"
  then show ?thesis
    using Socket_close set_update_subset_insert [of "sockets s" n Closed]
    by (auto simp: sub_stopped_def sub_observed_def socket_close_def Let_def split: if_splits)
next
  case Unsubscribe
  assume s: "sub_stopped s" "subscription_step ident accept e s = Some s'"
  then show ?thesis
    using Unsubscribe set_close_last [of "sockets s"] stopped_not_open [of "sockets s"]
    by (auto simp: sub_stopped_def sub_observed_def unsubscribe_def Let_def)
qed (auto simp: sub_stopped_def sub_observed_def connect_reply_def scheduleReconnect_def on_status_def Let_def
    dest: socket_at_mem split: if_splits option.splits)

interpretation web_sub_quiet: quiet_machine "subscription_step ident accept" sub_stopped sub_observed
  by unfold_locales (auto dest: sub_quiet)

lemma unsubscribe_stops: "sub_inv s \<Longrightarrow> ready s \<Longrightarrow> sub_stopped (unsubscribe identifier s)"
  using all_but_last_closed [of "sockets s"] by (simp add: sub_inv_def sub_stopped_def unsubscribe_def Let_def)

text \<open>
  C37: whatever the network does, a subscription of the web client has at most one connection in progress: a token request, a
  waiting reconnect or a socket that is not closed. A reconnect waits between one and ten seconds. Once the caller has unsubscribed,
  no message is handed on any more, nothing is sent and no socket is opened.
\<close>

theorem web_subscription_safe:
  assumes "run (subscription_step ident accept) subscribe es = Some s"
  shows "token_requests s + (if reconnectTimer s = None then 0 else 1) + live (sockets s) \<le> 1 \<and>
    (\<forall>d. reconnectTimer s = Some d \<longrightarrow> 1000 \<le> d \<and> d \<le> 10000) \<and>
    (ready s \<longrightarrow> (\<forall>fs s'. run (subscription_step ident accept) (unsubscribe ident s) fs = Some s' \<longrightarrow>
       delivered s' = delivered s \<and> sent s' = sent (unsubscribe ident s) \<and> length (sockets s') = length (sockets s)))"
proof -
  have i: "sub_inv s" using web_sub.run_inv [OF assms refl] .
  have "delivered s' = delivered s \<and> sent s' = sent (unsubscribe ident s) \<and> length (sockets s') = length (sockets s)"
    if "ready s" "run (subscription_step ident accept) (unsubscribe ident s) fs = Some s'" for fs s'
    using web_sub_quiet.run_quiet [OF unsubscribe_stops [OF i that(1)] that(2)] by (simp add: sub_observed_def unsubscribe_def Let_def)
  moreover have "\<forall>d \<in> set RECONNECT_DELAYS. 1000 \<le> d \<and> d \<le> 10000" by (simp add: RECONNECT_DELAYS_def)
  ultimately show ?thesis using i by (auto simp: sub_inv_def)
qed

theorem web_subscription_safe_witness:
  "case run (subscription_step staff_presence_identifier isPresenceUpdateEvent) subscribe
          [Token_reply (Some ''t''), Socket_open 0, Socket_close 0] of
     None \<Rightarrow> False
   | Some s \<Rightarrow> reconnectTimer s = Some 1000 \<and> live (sockets s) = 0 \<and> ready s \<and>
       (\<forall>fs s'. run (subscription_step staff_presence_identifier isPresenceUpdateEvent) (unsubscribe staff_presence_identifier s) fs = Some s' \<longrightarrow>
          delivered s' = delivered s \<and> sent s' = sent (unsubscribe staff_presence_identifier s) \<and> length (sockets s') = length (sockets s))"
proof -
  have "case run (subscription_step staff_presence_identifier isPresenceUpdateEvent) subscribe
          [Token_reply (Some ''t''), Socket_open 0, Socket_close 0] of
     None \<Rightarrow> False | Some s \<Rightarrow> reconnectTimer s = Some 1000 \<and> live (sockets s) = 0 \<and> ready s"
    by (simp add: subscribe_def connect_reply_def socket_at_def socket_open_def last_open_def socket_close_def
        scheduleReconnect_def on_status_def RECONNECT_DELAYS_def)
  then show ?thesis 
  proof (rule case_someE)
    fix s assume r: "run (subscription_step staff_presence_identifier isPresenceUpdateEvent) subscribe
        [Token_reply (Some ''t''), Socket_open 0, Socket_close 0] = Some s"
      and s: "reconnectTimer s = Some 1000 \<and> live (sockets s) = 0 \<and> ready s"
    show ?thesis using web_subscription_safe [OF r] s unfolding r option.case by blast
  qed
qed

section \<open>Mobile\<close>

datatype Status = Status_connecting | Status_connected | Status_offline

text \<open>The pending timers have names; the variable \<^verbatim>\<open>reconnectTimer\<close> holds the name of the last one that was set.\<close>

record cable =
  cancelled :: bool
  attempts :: nat
  cable_sockets :: "socket_state list"
  cable_timer :: "nat option"
  pending_timers :: "(nat \<times> nat) list"
  timers_set :: nat
  cable_tokens :: nat
  cable_events :: "json list"
  cable_statuses :: "Status list"
  cable_sent :: "string list"

definition cable_status :: "Status \<Rightarrow> cable \<Rightarrow> cable" where
  "cable_status st s = s\<lparr>cable_statuses := cable_statuses s @ [st]\<rparr>"

definition parseCableEnvelope :: "string \<Rightarrow> json option" where
  "parseCableEnvelope raw =
     (case JSON_parse raw of
        None \<Rightarrow> None
      | Some parsed \<Rightarrow>
          (case json_get parsed ''message'' of
             None \<Rightarrow> None
           | Some m \<Rightarrow> (case json_get m ''event'' of None \<Rightarrow> None | Some e \<Rightarrow> if json_truthy e then Some m else None)))"

text \<open>\<^verbatim>\<open>connect\<close> up to the token request, and its failure path, which is also the close event's.\<close>

definition cable_connect :: "cable \<Rightarrow> cable" where
  "cable_connect s = (if cancelled s then s else (cable_status Status_connecting s)\<lparr>cable_tokens := cable_tokens s + 1\<rparr>)"

definition cable_retry :: "cable \<Rightarrow> cable" where
  "cable_retry s0 =
     (if cancelled s0 then s0
      else let s = cable_status Status_offline s0; n = attempts s + 1
           in s\<lparr>attempts := n, cable_timer := Some (timers_set s), timers_set := timers_set s + 1,
                pending_timers := pending_timers s @ [(timers_set s, min (1000 * 2 ^ n) 30000)]\<rparr>)"

definition cable_reply :: "string option \<Rightarrow> cable \<Rightarrow> cable" where
  "cable_reply reply s0 =
     (let s = s0\<lparr>cable_tokens := cable_tokens s0 - 1\<rparr>
      in case reply of
           None \<Rightarrow> cable_retry s
         | Some token \<Rightarrow> if cancelled s then s else s\<lparr>cable_sockets := cable_sockets s @ [Connecting]\<rparr>)"

definition cable_open :: "nat \<Rightarrow> cable \<Rightarrow> cable" where
  "cable_open n s0 =
     (let s = s0\<lparr>cable_sockets := (cable_sockets s0)[n := Open]\<rparr>
      in if last_open (cable_sockets s) then s\<lparr>cable_sent := cable_sent s @ [command ''subscribe'' user_messages_identifier]\<rparr> else s)"

definition cable_message :: "(json \<Rightarrow> bool) \<Rightarrow> string \<Rightarrow> cable \<Rightarrow> cable" where
  "cable_message accept data s =
     (case JSON_parse data of
        None \<Rightarrow> s
      | Some envelope \<Rightarrow>
          if json_get envelope ''type'' = Some (JStr ''confirm_subscription'') then cable_status Status_connected (s\<lparr>attempts := 0\<rparr>)
          else (case parseCableEnvelope data of
                  None \<Rightarrow> s
                | Some e \<Rightarrow> if accept e then s\<lparr>cable_events := cable_events s @ [e]\<rparr> else s))"

definition cable_close :: "nat \<Rightarrow> cable \<Rightarrow> cable" where
  "cable_close n s = cable_retry (s\<lparr>cable_sockets := (cable_sockets s)[n := Closed]\<rparr>)"

definition cable_cancel :: "cable \<Rightarrow> cable" where
  "cable_cancel s =
     s\<lparr>cancelled := True, pending_timers := filter (\<lambda>(i, d). cable_timer s \<noteq> Some i) (pending_timers s),
       cable_sent := (if last_open (cable_sockets s) then cable_sent s @ [command ''unsubscribe'' user_messages_identifier] else cable_sent s),
       cable_sockets := close_last (cable_sockets s)\<rparr>"

definition cable_start :: cable where
  "cable_start = cable_connect
     \<lparr>cancelled = False, attempts = 0, cable_sockets = [], cable_timer = None, pending_timers = [], timers_set = 0, cable_tokens = 0,
      cable_events = [], cable_statuses = [], cable_sent = []\<rparr>"

definition subscribeToMessages :: "conversation_kind \<Rightarrow> int \<Rightarrow> json \<Rightarrow> bool" where
  "subscribeToMessages kind i event \<longleftrightarrow>
     (case kind of Channel_kind \<Rightarrow> json_get event ''channel_id'' = Some (JNum i)
                 | Dm_kind \<Rightarrow> json_get event ''direct_conversation_id'' = Some (JNum i))"

datatype cable_event =
    Cable_reply "string option"
  | Cable_timer nat
  | Cable_open nat
  | Cable_message nat string
  | Cable_error nat
  | Cable_close nat
  | Cable_cancel

fun cable_step :: "(json \<Rightarrow> bool) \<Rightarrow> cable_event \<Rightarrow> cable \<Rightarrow> cable option" where
  "cable_step accept (Cable_reply reply) s = (if 0 < cable_tokens s then Some (cable_reply reply s) else None)"
| "cable_step accept (Cable_timer i) s =
     (if i \<in> fst ` set (pending_timers s)
      then Some (cable_connect (s\<lparr>pending_timers := filter (\<lambda>(j, d). j \<noteq> i) (pending_timers s)\<rparr>)) else None)"
| "cable_step accept (Cable_open n) s = (if socket_at n (cable_sockets s) = Some Connecting then Some (cable_open n s) else None)"
| "cable_step accept (Cable_message n data) s =
     (if socket_at n (cable_sockets s) = Some Open then Some (cable_message accept data s) else None)"
| "cable_step accept (Cable_error n) s =
     (if socket_at n (cable_sockets s) \<notin> {None, Some Closed}
      then Some (s\<lparr>cable_sockets := close_last (cable_sockets s)\<rparr>) else None)"
| "cable_step accept (Cable_close n) s =
     (if socket_at n (cable_sockets s) \<notin> {None, Some Closed} then Some (cable_close n s) else None)"
| "cable_step accept Cable_cancel s = Some (cable_cancel s)"

definition cable_inv :: "cable \<Rightarrow> bool" where
  "cable_inv s \<longleftrightarrow>
     cable_tokens s + length (pending_timers s) + live (cable_sockets s) \<le> 1 \<and>
     (\<forall>m < length (cable_sockets s) - 1. cable_sockets s ! m = Closed) \<and>
     (\<forall>(i, d) \<in> set (pending_timers s). cable_timer s = Some i \<and> \<not> cancelled s \<and> 2000 \<le> d \<and> d \<le> 30000)"

definition cable_stopped :: "cable \<Rightarrow> bool" where
  "cable_stopped s \<longleftrightarrow> cancelled s \<and> pending_timers s = [] \<and> (\<forall>x \<in> set (cable_sockets s). x \<in> {Closing, Closed})"

definition cable_observed :: "cable \<Rightarrow> json list \<times> string list \<times> nat" where
  "cable_observed s = (cable_events s, cable_sent s, length (cable_sockets s))"

lemma retry_delay: "2000 \<le> min (1000 * 2 ^ Suc n) (30000::nat) \<and> min (1000 * 2 ^ Suc n) (30000::nat) \<le> 30000"
  using one_le_power [of "2::nat" n] by simp

lemma no_timer_pending: "cable_inv s \<Longrightarrow> 0 < cable_tokens s + live (cable_sockets s) \<Longrightarrow> pending_timers s = []"
  by (cases "pending_timers s") (auto simp: cable_inv_def)

lemma cancel_clears: "cable_inv s \<Longrightarrow> pending_timers (cable_cancel s) = []"
  by (auto simp: cable_inv_def cable_cancel_def filter_empty_conv)

lemma cable_retry_inv:
  assumes "cable_inv s" "cable_tokens s = 0" "pending_timers s = []" "live (cable_sockets s) = 0"
  shows "cable_inv (cable_retry s)"
  using assms retry_delay [of "attempts s"] by (auto simp: cable_inv_def cable_retry_def cable_status_def Let_def)

lemma cable_sockets_update:
  assumes "cable_inv s" "socket_at n (cable_sockets s) \<notin> {None, Some Closed}"
  shows "cable_inv (s\<lparr>cable_sockets := (cable_sockets s)[n := x]\<rparr>)"
proof -
  have n: "n < length (cable_sockets s)" "cable_sockets s ! n \<noteq> Closed"
    using assms(2) by (auto simp: socket_at_def split: if_splits)
  then have "live ((cable_sockets s)[n := x]) \<le> live (cable_sockets s)" using live_update [OF n(1), of x] by (simp split: if_splits)
  moreover have "(cable_sockets s)[n := x] ! m = Closed" if "m < length (cable_sockets s) - 1" for m
    using that n assms(1) by (cases "m = n") (auto simp: cable_inv_def)
  ultimately show ?thesis using assms(1) by (auto simp: cable_inv_def)
qed

lemma cable_close_inv [inv_intros]:
  assumes "cable_inv s" "socket_at n (cable_sockets s) \<notin> {None, Some Closed}"
  shows "cable_inv (cable_close n s)"
proof -
  have n: "n < length (cable_sockets s)" "cable_sockets s ! n \<noteq> Closed"
    using assms(2) by (auto simp: socket_at_def split: if_splits)
  then have "live ((cable_sockets s)[n := Closed]) + 1 = live (cable_sockets s)" using live_update [OF n(1), of Closed] by simp
  then show ?thesis
    unfolding cable_close_def using assms no_timer_pending [OF assms(1)]
    by (intro cable_retry_inv cable_sockets_update) (auto simp: cable_inv_def)
qed

lemma cable_reply_inv [inv_intros]:
  assumes "cable_inv s" "0 < cable_tokens s"
  shows "cable_inv (cable_reply reply s)"
proof -
  define s1 where "s1 = s\<lparr>cable_tokens := cable_tokens s - 1\<rparr>"
  have z: "cable_tokens s1 = 0" "pending_timers s1 = []" "live (cable_sockets s1) = 0" and i: "cable_inv s1"
    using assms no_timer_pending [OF assms(1)] by (auto simp: cable_inv_def s1_def)
  have "cable_inv (cable_retry s1)" using i z by (rule cable_retry_inv)
  moreover have "cable_inv (s1\<lparr>cable_sockets := cable_sockets s1 @ [Connecting]\<rparr>)"
    using z i live_Closed [of "cable_sockets s1"] by (auto simp: cable_inv_def nth_append)
  ultimately show ?thesis using i by (simp add: cable_reply_def s1_def Let_def split: option.splits)
qed

lemma cable_open_inv [inv_intros]:
  assumes "cable_inv s" "socket_at n (cable_sockets s) = Some Connecting"
  shows "cable_inv (cable_open n s)"
proof -
  have "cable_inv (s\<lparr>cable_sockets := (cable_sockets s)[n := Open]\<rparr>)" using assms by (intro cable_sockets_update) auto
  then show ?thesis by (auto simp: cable_open_def cable_inv_def Let_def)
qed

lemma cable_message_inv [inv_intros]: "cable_inv s \<Longrightarrow> cable_inv (cable_message accept data s)"
  by (auto simp: cable_message_def cable_inv_def cable_status_def split: option.splits)

lemma cable_cancel_inv [inv_intros]: "cable_inv s \<Longrightarrow> cable_inv (cable_cancel s)"
  using cancel_clears [of s] by (auto simp: cable_cancel_def cable_inv_def live_close_last nth_close_last)

lemma cable_error_inv [inv_intros]: "cable_inv s \<Longrightarrow> cable_inv (s\<lparr>cable_sockets := close_last (cable_sockets s)\<rparr>)"
  by (auto simp: cable_inv_def live_close_last nth_close_last)

lemma cable_timer_inv [inv_intros]:
  assumes "cable_inv s" "i \<in> fst ` set (pending_timers s)"
  shows "cable_inv (cable_connect (s\<lparr>pending_timers := filter (\<lambda>(j, d). j \<noteq> i) (pending_timers s)\<rparr>))"
proof -
  obtain d where "pending_timers s = [(i, d)]" "cable_tokens s = 0" "live (cable_sockets s) = 0"
    using assms by (cases "pending_timers s") (auto simp: cable_inv_def)
  then show ?thesis using assms(1) by (auto simp: cable_inv_def cable_connect_def cable_status_def)
qed

interpretation cable: safe_machine "cable_step accept" "\<lambda>s. s = cable_start" cable_inv
proof unfold_locales
  show "cable_inv s" if "s = cable_start" for s
    using that by (simp add: cable_inv_def cable_start_def cable_connect_def cable_status_def)
  show "cable_inv s'" if "cable_inv s" "cable_step accept e s = Some s'" for s e s'
    using that by (cases e) (auto intro: inv_intros split: if_splits)
qed

lemma cable_quiet:
  "cable_stopped s \<Longrightarrow> cable_step accept e s = Some s' \<Longrightarrow> cable_stopped s' \<and> cable_observed s' = cable_observed s"
proof (cases e)
  case (Cable_close n)
  assume "cable_stopped s" "cable_step accept e s = Some s'"
  then show ?thesis
    using Cable_close set_update_subset_insert [of "cable_sockets s" n Closed]
    by (auto simp: cable_stopped_def cable_observed_def cable_close_def cable_retry_def split: if_splits)
next
  case Cable_cancel
  assume "cable_stopped s" "cable_step accept e s = Some s'"
  then show ?thesis
    using Cable_cancel set_close_last [of "cable_sockets s"] stopped_not_open [of "cable_sockets s"]
    by (auto simp: cable_stopped_def cable_observed_def cable_cancel_def)
next
  case (Cable_error n)
  assume "cable_stopped s" "cable_step accept e s = Some s'"
  then show ?thesis
    using Cable_error set_close_last [of "cable_sockets s"]
    by (auto simp: cable_stopped_def cable_observed_def split: if_splits)
qed (auto simp: cable_stopped_def cable_observed_def cable_reply_def cable_retry_def Let_def
    dest: socket_at_mem split: if_splits option.splits)

interpretation cable_off: quiet_machine "cable_step accept" cable_stopped cable_observed
  by unfold_locales (auto dest: cable_quiet)

text \<open>
  C38: the mobile client's subscription, whatever the network does: one connection at a time (a token request, a waiting reconnect or a
  socket that is not closed), a reconnect after two to thirty seconds, and after cancelling no event is handed on, nothing is sent and no
  socket is opened.
\<close>

theorem mobile_cable_safe:
  assumes "run (cable_step accept) cable_start es = Some s"
  shows "cable_tokens s + length (pending_timers s) + live (cable_sockets s) \<le> 1 \<and>
    (\<forall>i d. (i, d) \<in> set (pending_timers s) \<longrightarrow> 2000 \<le> d \<and> d \<le> 30000) \<and>
    (\<forall>fs s'. run (cable_step accept) (cable_cancel s) fs = Some s' \<longrightarrow>
       cable_events s' = cable_events s \<and> cable_sent s' = cable_sent (cable_cancel s) \<and>
       length (cable_sockets s') = length (cable_sockets s))"
proof -
  have i: "cable_inv s" using cable.run_inv [OF assms refl] .
  then have "cable_stopped (cable_cancel s)"
    using cancel_clears [OF i] all_but_last_closed [of "cable_sockets s"]
    by (simp add: cable_stopped_def cable_inv_def) (simp add: cable_cancel_def)
  from cable_off.run_quiet [OF this]
  have "cable_events s' = cable_events s \<and> cable_sent s' = cable_sent (cable_cancel s) \<and> length (cable_sockets s') = length (cable_sockets s)"
    if "run (cable_step accept) (cable_cancel s) fs = Some s'" for fs s'
    using that by (fastforce simp: cable_observed_def cable_cancel_def)
  then show ?thesis using i by (auto simp: cable_inv_def)
qed

theorem mobile_cable_safe_witness:
  "case run (cable_step (subscribeToMessages Dm_kind 4)) cable_start [Cable_reply (Some ''t''), Cable_open 0, Cable_error 0, Cable_close 0] of
     None \<Rightarrow> False
   | Some s \<Rightarrow> pending_timers s = [(0, 2000)] \<and>
       (\<forall>fs s'. run (cable_step (subscribeToMessages Dm_kind 4)) (cable_cancel s) fs = Some s' \<longrightarrow>
          cable_events s' = cable_events s \<and> cable_sent s' = cable_sent (cable_cancel s) \<and>
          length (cable_sockets s') = length (cable_sockets s))"
proof -
  have "case run (cable_step (subscribeToMessages Dm_kind 4)) cable_start [Cable_reply (Some ''t''), Cable_open 0, Cable_error 0, Cable_close 0] of
     None \<Rightarrow> False | Some s \<Rightarrow> pending_timers s = [(0, 2000)]"
    by (simp add: cable_start_def cable_connect_def cable_status_def cable_reply_def socket_at_def cable_open_def last_open_def
        close_last_def cable_close_def cable_retry_def)
  then show ?thesis
  proof (rule case_someE)
    fix s assume r: "run (cable_step (subscribeToMessages Dm_kind 4)) cable_start
        [Cable_reply (Some ''t''), Cable_open 0, Cable_error 0, Cable_close 0] = Some s" and s: "pending_timers s = [(0, 2000)]"
    show ?thesis using mobile_cable_safe [OF r] s unfolding r option.case by blast
  qed
qed

end
