(* ===== verification/Spec2Isabelle.thy ===== *)
theory Spec2Isabelle
  imports Upload_Safety Mobile_Messages Message_Page Mobile_Api Message_Render Mobile_Session Realtime
begin

text \<open>
  Verification of the clients of the learning platform: the web application (\<^verbatim>\<open>web/src\<close>) and the mobile application (\<^verbatim>\<open>mobile/src\<close>),
  both written in TypeScript, which talk to one service (\<^verbatim>\<open>api\<close>) over HTTP and over a WebSocket.

  \<^bold>\<open>Parts and how they interact.\<close> A request layer turns operations into HTTP requests, refreshes tokens, repeats what may be repeated and,
  on the web, falls back to a cache per user. The message page of the web application and the message state of the mobile application keep
  lists of messages up to date from three sources: replies of the service, realtime events and the user's own optimistic changes. The
  realtime connection delivers those events and reconnects. Texts of messages are Markdown; both applications parse them into blocks,
  render them into nodes, mark mentions and shorten them for previews. Large files go to the object store in parts. The mobile application
  keeps drafts, failed messages, a query cache and the last session on the device and clears them when the user signs out.

  \<^bold>\<open>Theories.\<close>
  \<^item> \<open>Prelude\<close>: JavaScript lists, strings and maps (\<open>startsWith\<close>, \<open>trim\<close>, \<open>split_on\<close>, \<open>jmap_set\<close>, the stable \<open>js_sort\<close>), lists with keys,
    and the contracts the components share: \<open>run\<close> and \<open>reachable\<close> of a step machine, the locale \<open>safe_machine\<close> (an invariant of a machine),
    and \<open>functional_refinement\<close> (an implementation gives the outputs of its specification).
  \<^item> \<open>Doubles\<close>, \<open>JsDate\<close>, \<open>Json\<close>, \<open>Uri\<close>, \<open>JsRegex\<close>: the parts of the language's library the code uses: rounding of quotients of doubles,
    comparison of dates (parsing is a parameter, \<open>date_host\<close>), \<^verbatim>\<open>JSON.stringify\<close> and \<^verbatim>\<open>JSON.parse\<close> with their round trip,
    \<^verbatim>\<open>encodeURIComponent\<close> and \<^verbatim>\<open>URLSearchParams\<close>, and a backtracking matcher for regular expressions.
  \<^item> \<open>Multipart\<close>: \<^verbatim>\<open>web/src/lib/uploadToS3.ts\<close>. Cutting a file into parts, the retry of one part, the pool of three workers as a step
    machine. Its lemmas show that every part is sent exactly once, that progress never goes back, that a failure ends the upload and that
    every upload can still finish.
  \<^item> \<open>Uploads\<close>, \<open>Upload_Inv\<close>, \<open>Upload_Safety\<close>: \<^verbatim>\<open>web/src/contexts/UploadContext.tsx\<close>. The list of uploads, the job of each upload (which runs
    the machine of \<open>Multipart\<close> for a large file), saving, cancelling, attaching and cleaning up, with React's rendering as a step of its
    own. The invariant follows every stored object from its upload to a row or to its clean-up; a run shows where cancelling fails.
  \<^item> \<open>Timeline\<close>, \<open>Messages_Core\<close>: ordered lists of messages as a locale, and the records of messages, reactions and conversations.
  \<^item> \<open>Mobile_Messages\<close>: \<^verbatim>\<open>mobile/src/lib/message-state.ts\<close>. Merging of events and replies: order, identities, idempotence, commutation.
  \<^item> \<open>Web_Messages\<close>, \<open>Message_Page\<close>: \<^verbatim>\<open>web/src/pages/shared/Messages.tsx\<close>. The helpers of the page, and the page as a step machine over
    the user's actions, replies and realtime events, in any interleaving. Its lemmas give the invariant of the lists and counters, show
    which replies may change the page, and exhibit two runs in which the page goes wrong.
  \<^item> \<open>Api_Client\<close>, \<open>Api_Endpoints\<close>: \<^verbatim>\<open>web/src/lib/api.ts\<close>. \<^verbatim>\<open>fetchApi\<close> with tokens, retries and the cache, and method, address and body
    of every operation. \<open>Mobile_Api\<close>: the same for \<^verbatim>\<open>mobile/src/lib/api.ts\<close>. The lemmas bound the attempts, say when which error results,
    when cached data comes back, what clearing the cache removes, and that no argument leaves its place in an address.
  \<^item> \<open>Message_Format\<close>, \<open>Message_Text\<close>, \<open>Mentions\<close>, \<open>Message_Render\<close>: \<^verbatim>\<open>web/src/lib/messageFormat.ts\<close>, \<^verbatim>\<open>mobile/src/lib/message-format.ts\<close>,
    \<^verbatim>\<open>mobile/src/lib/mentions.ts\<close>, \<^verbatim>\<open>mobile/src/components/formatted-message.tsx\<close> and the same functions in \<^verbatim>\<open>Messages.tsx\<close>. The shape of
    parsed blocks, round trips between the editor and Markdown, bounds of previews, who is mentioned, and the schemes of links.
  \<^item> \<open>Mobile_Storage\<close>: \<^verbatim>\<open>submission-storage.ts\<close>, \<^verbatim>\<open>conversation-storage.ts\<close>, \<^verbatim>\<open>learning-cache.ts\<close>. The device's key-value store is a record
    of operations with the locale \<open>key_value_store\<close> as its contract; the operations of the three files refine separate maps.
  \<^item> \<open>Mobile_Session\<close>: \<^verbatim>\<open>session-access.ts\<close>, \<^verbatim>\<open>session-provider.tsx\<close>. Refreshing, the cached session, refused access and signing out.
  \<^item> \<open>Realtime\<close>: \<^verbatim>\<open>web/src/lib/realtime.ts\<close>, \<^verbatim>\<open>mobile/src/lib/cable.ts\<close>. Both subscriptions as step machines; the locale \<open>quiet_machine\<close>
    says that a component that was stopped does nothing any more.

  \<^bold>\<open>How the code is read.\<close> State of a component is a record, its asynchronous operations are steps: one up to the first \<^verbatim>\<open>await\<close>, one per
  resumption, so that every interleaving of replies, events and actions is a run. A rejected promise, a thrown error and an early return
  are branches of the result. Numbers that count are \<open>nat\<close> or \<open>int\<close>; quotients of doubles are rounded as the language rounds them. Strings
  are lists of characters in the range of Isabelle's \<open>char\<close>; characters beyond it are not modelled, and dashes or ellipses of texts for the
  user outside of it are written with characters inside it.

  \<^bold>\<open>Bounds.\<close> Recursions that follow a loop end by a measure. The JSON parser gets two units of fuel for every character and two more;
  at least every second call consumes a character, and \<open>JSON_round_trip\<close> shows that it is enough for what the clients write. The matcher of regular expressions stops a repetition when it consumed nothing, as the
  language does.

  \<^bold>\<open>Not modelled.\<close> The service under \<^verbatim>\<open>api\<close> is another program, in Ruby; what the clients rely on is a hypothesis where it matters. The
  markup and styles of pages and components, and their local form state, compute little beyond what the platform draws. Sign-in (Clerk),
  analytics (PostHog), push delivery, native recording and playback, the rich-text editor, the query library, the XML parser and the URL
  parser are third-party code that the clients only call; where a modelled function uses one, it is a parameter. Demo data and tests are
  data. Smaller helpers of both applications (routing tables, date formats, learning progress, attachments, recordings, service worker)
  are not modelled yet.
\<close>

end
